(* ===== verification/Prelude.thy ===== *)
theory Prelude
  imports Complex_Main "HOL-Library.Sublist"
begin

text \<open>
  Shared machinery: the development's collections of rewrite and preservation facts, and generic
  lemmas about the bounded \<open>for\<close> loops of the C code, which are folds over the list of indices.
\<close>

section \<open>Fact collections\<close>

named_theorems loop_simps \<open>unfolding of the code's bounded loops\<close>

section \<open>Loops\<close>

text \<open>\<open>for (int i = 0; i < n; i++) body\<close> with the state threaded through.\<close>

definition for_upto :: "nat \<Rightarrow> (nat \<Rightarrow> 's \<Rightarrow> 's) \<Rightarrow> 's \<Rightarrow> 's" where
  "for_upto n body = fold body [0..<n]"

lemma for_upto_0 [simp]: "for_upto 0 body s = s"
  by (simp add: for_upto_def)

lemma for_upto_Suc [loop_simps]: "for_upto (Suc n) body s = body n (for_upto n body s)"
  by (simp add: for_upto_def)

text \<open>The loop rule: an invariant that speaks of the iterations done so far.\<close>

lemma for_upto_rule:
  assumes "P 0 s" and "\<And>i s. i < n \<Longrightarrow> P i s \<Longrightarrow> P (Suc i) (body i s)"
  shows "P n (for_upto n body s)"
  using assms
proof (induction n)
  case 0
  then show ?case by simp
next
  case (Suc n)
  then have "P n (for_upto n body s)" by simp
  with Suc.prems(2) [of n] show ?case by (simp add: for_upto_Suc)
qed

lemma for_upto_inv:
  assumes "I s" and "\<And>i s. i < n \<Longrightarrow> I s \<Longrightarrow> I (body i s)"
  shows "I (for_upto n body s)"
  using assms by (rule for_upto_rule [where P = "\<lambda>_. I"])

lemma for_upto_cong:
  assumes "I s" and "\<And>i s. i < n \<Longrightarrow> I s \<Longrightarrow> body i s = body' i s"
    and "\<And>i s. i < n \<Longrightarrow> I s \<Longrightarrow> I (body i s)"
  shows "for_upto n body s = for_upto n body' s"
proof -
  have "I (for_upto n body s) \<and> for_upto n body s = for_upto n body' s"
    using assms
  proof (induction n)
    case (Suc n)
    then have "I (for_upto n body s)" and "for_upto n body s = for_upto n body' s" by auto
    with Suc.prems show ?case by (metis for_upto_Suc lessI)
  qed simp
  then show ?thesis by simp
qed

lemma fold_inv:
  assumes "I s" and "\<And>x s. x \<in> set xs \<Longrightarrow> I s \<Longrightarrow> I (f x s)"
  shows "I (fold f xs s)"
  using assms by (induction xs arbitrary: s) auto

end
