(* ===== verification/Fp_Value.thy ===== *)
theory Fp_Value
  imports Fp
begin

text \<open>
  The real values of the floating-point numbers, and what rounding does to them: the result is a
  closest representable number, so it never crosses a representable bound.
\<close>

section \<open>Values\<close>

fun fpval :: "fp \<Rightarrow> real" where
  "fpval (FFin s m e) = of_int (with_sign s m) * 2 powi e"
| "fpval x = 0"

fun fp_ok :: "fmt \<Rightarrow> fp \<Rightarrow> bool" where
  "fp_ok F (FFin s m e) \<longleftrightarrow>
     0 \<le> m \<and> m < 2 ^ f_prec F \<and> f_emin F \<le> e \<and> e \<le> f_emax F"
| "fp_ok F x \<longleftrightarrow> True"

fun fp_fin :: "fp \<Rightarrow> bool" where
  "fp_fin (FFin s m e) \<longleftrightarrow> True"
| "fp_fin x \<longleftrightarrow> False"

definition fmt_ok :: "fmt \<Rightarrow> bool" where
  "fmt_ok F \<longleftrightarrow> 1 \<le> f_prec F \<and> f_emin F \<le> 0 \<and> 0 \<le> f_emax F"

lemma fmt_ok_F32 [simp]: "fmt_ok F32" and fmt_ok_F64 [simp]: "fmt_ok F64"
  by (simp_all add: fmt_ok_def F32_def F64_def del: One_nat_def)

definition rep :: "fmt \<Rightarrow> real \<Rightarrow> bool" where
  "rep F r \<longleftrightarrow> (\<exists>m e. \<bar>m\<bar> < 2 ^ f_prec F \<and> f_emin F \<le> e \<and> r = of_int m * 2 powi e)"

definition closest :: "fmt \<Rightarrow> real \<Rightarrow> real \<Rightarrow> bool" where
  "closest F v r \<longleftrightarrow> rep F r \<and> (\<forall>r'. rep F r' \<longrightarrow> \<bar>r - v\<bar> \<le> \<bar>r' - v\<bar>)"

definition rounds_to :: "fmt \<Rightarrow> real \<Rightarrow> fp \<Rightarrow> bool" where
  "rounds_to F v x \<longleftrightarrow> fp_fin x \<and> fp_ok F x \<and> closest F v (fpval x)"

lemma repI: "\<bar>m\<bar> < 2 ^ f_prec F \<Longrightarrow> f_emin F \<le> e \<Longrightarrow> rep F (of_int m * 2 powi e)"
  by (auto simp: rep_def)

lemma rep_minus: "rep F r \<Longrightarrow> rep F (- r)"
  unfolding rep_def by (metis abs_minus_cancel minus_mult_left of_int_minus)

lemma rep_minus_iff [simp]: "rep F (- r) \<longleftrightarrow> rep F r"
  using rep_minus [of F r] rep_minus [of F "- r"] by auto

lemma rep_0 [simp]: "rep F 0"
  using repI [of 0 F "f_emin F"] by simp

lemma rep_fpval: "fp_ok F x \<Longrightarrow> rep F (fpval x)"
  by (cases x) (auto simp: with_sign_def intro!: repI)

lemma one_less_prec: "fmt_ok F \<Longrightarrow> (1::int) < 2 ^ f_prec F"
  by (simp add: fmt_ok_def)

lemma rep_power: "fmt_ok F \<Longrightarrow> f_emin F \<le> e \<Longrightarrow> rep F (2 powi e)"
  using repI [of 1 F e] one_less_prec [of F] by simp

lemma rep_of_int: "fmt_ok F \<Longrightarrow> \<bar>k\<bar> < 2 ^ f_prec F \<Longrightarrow> rep F (of_int k)"
  using repI [of k F 0] by (simp add: fmt_ok_def)

lemma closest_le: "closest F v r \<Longrightarrow> v \<le> b \<Longrightarrow> rep F b \<Longrightarrow> r \<le> b"
  unfolding closest_def by (smt (verit))

lemma closest_ge: "closest F v r \<Longrightarrow> b \<le> v \<Longrightarrow> rep F b \<Longrightarrow> b \<le> r"
  unfolding closest_def by (smt (verit))

lemma closest_exact: "closest F v r \<Longrightarrow> rep F v \<Longrightarrow> r = v"
  by (meson closest_ge closest_le order_antisym order_refl)

lemma closest_minus: "closest F v r \<Longrightarrow> closest F (- v) (- r)"
proof -
  assume c: "closest F v r"
  have "\<bar>- r - - v\<bar> \<le> \<bar>r' - - v\<bar>" if "rep F r'" for r'
  proof -
    have "\<bar>r - v\<bar> \<le> \<bar>- r' - v\<bar>" using c that by (auto simp: closest_def)
    then show ?thesis by linarith
  qed
  with c show ?thesis by (auto simp: closest_def)
qed

section \<open>Rounding is to a closest representable number\<close>

lemma rne_div_closest:
  assumes "0 < d"
  shows "\<bar>rne_div n d * d - n\<bar> \<le> \<bar>k * d - n\<bar>"
proof -
  define q r where "q = n div d" and "r = n mod d"
  have n: "n = q * d + r" and r: "0 \<le> r" "r < d"
    using assms by (auto simp: q_def r_def)
  have lo: "r \<le> \<bar>k * d - n\<bar>" if "k \<le> q"
  proof -
    have "k * d \<le> q * d" using that assms by (simp add: mult_right_mono)
    then show ?thesis using n r by linarith
  qed
  have hi: "d - r \<le> \<bar>k * d - n\<bar>" if "q < k"
  proof -
    have "(q + 1) * d \<le> k * d" using that assms by (intro mult_right_mono) auto
    then show ?thesis using n r by (simp add: algebra_simps)
  qed
  have "\<bar>rne_div n d * d - n\<bar> = (if 2 * r < d \<or> (2 * r = d \<and> even q) then r else d - r)"
    using n r by (auto simp: rne_div_def Let_def q_def [symmetric] r_def [symmetric] algebra_simps)
  then show ?thesis using lo hi by (cases "k \<le> q") (auto split: if_splits)
qed

lemma bitlen_bounds: "0 < n \<Longrightarrow> 1 \<le> bitlen n \<and> 2 ^ nat (bitlen n - 1) \<le> n \<and> n < 2 ^ nat (bitlen n)"
proof (induction n rule: bitlen.induct)
  case (1 n)
  show ?case
  proof (cases "n div 2 = 0")
    case True
    with 1 have "n = 1" by simp
    then show ?thesis by (simp add: bitlen.simps)
  next
    case False
    with 1 have IH: "1 \<le> bitlen (n div 2)" "2 ^ nat (bitlen (n div 2) - 1) \<le> n div 2"
      "n div 2 < 2 ^ nat (bitlen (n div 2))" by auto
    have b: "bitlen n = 1 + bitlen (n div 2)" using 1 by (simp add: bitlen.simps [of n])
    define k where "k = nat (bitlen (n div 2) - 1)"
    have "nat (bitlen (n div 2)) = Suc k" "nat (bitlen n - 1) = Suc k" "nat (bitlen n) = Suc (Suc k)"
      using b IH(1) by (auto simp: k_def)
    moreover have "2 ^ k \<le> n div 2" "n div 2 < 2 ^ Suc k"
      using IH calculation(1) by (auto simp: k_def)
    moreover from this have "2 ^ Suc k \<le> n" "n < 2 ^ Suc (Suc k)" by auto
    ultimately show ?thesis using b IH(1) by simp
  qed
qed

lemma powi_nat: "0 \<le> e \<Longrightarrow> (2::real) powi e = 2 ^ nat e"
  by (simp add: power_int_def)

lemma powi_neg: "e < 0 \<Longrightarrow> (2::real) powi e * 2 ^ nat (- e) = 1"
  by (simp add: power_int_def power_one_over)

lemma powi_pos [simp]: "0 < (2::real) powi e"
  by simp

lemma powi_plus: "(2::real) powi (a + b) = 2 powi a * 2 powi b"
  by (simp add: power_int_add)

lemma powi_shift: "l \<le> e \<Longrightarrow> (2::real) ^ nat (e - l) * 2 powi l = 2 powi e"
  using powi_nat [of "e - l"] powi_plus [of "e - l" l] by simp

lemma bitlen_real:
  assumes "0 < n"
  shows "2 powi (bitlen n - 1) \<le> real_of_int n" and "real_of_int n < 2 powi (bitlen n)"
proof -
  have b: "1 \<le> bitlen n" "2 ^ nat (bitlen n - 1) \<le> n" "n < 2 ^ nat (bitlen n)"
    using bitlen_bounds [OF assms] by auto
  have "real_of_int (2 ^ nat (bitlen n - 1)) \<le> real_of_int n" using b(2) by (simp only: of_int_le_iff)
  then show "2 powi (bitlen n - 1) \<le> real_of_int n" using b(1) by (simp add: powi_nat)
  have "real_of_int n < real_of_int (2 ^ nat (bitlen n))" using b(3) by (simp only: of_int_less_iff)
  then show "real_of_int n < 2 powi (bitlen n)" using b(1) by (simp add: powi_nat)
qed

lemma scale_ratio:
  "0 < d \<Longrightarrow> real_of_int (scale_num n e) * real_of_int d * 2 powi e
     = real_of_int n * real_of_int (scale_den d e)"
  by (auto simp: scale_num_def scale_den_def powi_nat powi_neg algebra_simps mult.commute)

lemma scale_den_pos [simp]: "0 < d \<Longrightarrow> 0 < scale_den d e"
  by (simp add: scale_den_def)

lemma scale_num_nonneg [simp]: "0 \<le> n \<Longrightarrow> 0 \<le> scale_num n e"
  by (simp add: scale_num_def)

lemma lsb_exp_spec:
  assumes F: "fmt_ok F" and n: "0 < n" and d: "0 < d"
  defines "e \<equiv> lsb_exp F n d" and "p \<equiv> int (f_prec F)"
  shows "f_emin F \<le> e"
    and "real_of_int n < of_int d * 2 powi (p + e)"
    and "e = f_emin F \<or> of_int d * 2 powi (p - 1 + e) \<le> real_of_int n"
proof -
  define e0 where "e0 = max (f_emin F) (bitlen n - bitlen d - p)"
  define C where "C \<longleftrightarrow> scale_den d e0 * 2 ^ f_prec F \<le> scale_num n e0"
  have e: "e = (if C then e0 + 1 else e0)"
    by (simp add: e_def lsb_exp_def Let_def C_def e0_def p_def)
  have pp: "(2::real) ^ f_prec F = 2 powi p" by (simp add: p_def)
  have dp: "0 < real_of_int d" using d by simp
  note nb = bitlen_real [OF n] and db = bitlen_real [OF d]
  have C_iff: "C \<longleftrightarrow> of_int d * 2 powi (p + e0) \<le> real_of_int n"
  proof -
    have s: "real_of_int (scale_num n e0) * (of_int d * 2 powi e0) = of_int n * of_int (scale_den d e0)"
      using scale_ratio [OF d, of n e0] by (simp add: mult.assoc)
    have "C \<longleftrightarrow> of_int (scale_den d e0) * 2 ^ f_prec F \<le> real_of_int (scale_num n e0)"
      unfolding C_def by (metis of_int_le_iff of_int_mult of_int_numeral of_int_power)
    also have "\<dots> \<longleftrightarrow> of_int (scale_den d e0) * 2 powi p * (of_int d * 2 powi e0)
        \<le> real_of_int (scale_num n e0) * (of_int d * 2 powi e0)"
      using dp by (simp add: pp)
    also have "\<dots> \<longleftrightarrow> of_int (scale_den d e0) * (of_int d * 2 powi (p + e0))
        \<le> of_int (scale_den d e0) * real_of_int n"
      unfolding s by (simp add: powi_plus mult_ac)
    also have "\<dots> \<longleftrightarrow> of_int d * 2 powi (p + e0) \<le> real_of_int n"
      using d by (subst mult_le_cancel_left_pos) auto
    finally show ?thesis .
  qed
  have "f_emin F \<le> e0" by (simp add: e0_def)
  then show "f_emin F \<le> e" by (simp add: e)
  show "real_of_int n < of_int d * 2 powi (p + e)"
  proof (cases C)
    case True
    have "real_of_int n < 2 powi (bitlen d - 1) * 2 powi (p + e)"
    proof -
      have "bitlen n \<le> bitlen d - 1 + (p + e)" using True by (simp add: e e0_def)
      then have "(2::real) powi bitlen n \<le> 2 powi (bitlen d - 1 + (p + e))"
        by (intro power_int_increasing) auto
      then show ?thesis using nb(2) by (simp only: powi_plus)
    qed
    also have "\<dots> \<le> of_int d * 2 powi (p + e)" using db(1) by (intro mult_right_mono) auto
    finally show ?thesis .
  next
    case False
    then show ?thesis using C_iff e by simp
  qed
  show "e = f_emin F \<or> of_int d * 2 powi (p - 1 + e) \<le> real_of_int n"
  proof (cases C)
    case True
    then show ?thesis using C_iff e by simp
  next
    case False
    have "of_int d * 2 powi (p - 1 + e) \<le> real_of_int n" if ne: "e \<noteq> f_emin F"
    proof -
      have e1: "e = bitlen n - bitlen d - p" using ne False by (auto simp: e e0_def max_def split: if_splits)
      have "of_int d * 2 powi (p - 1 + e) \<le> 2 powi bitlen d * (2::real) powi (p - 1 + e)"
        using db(2) by (intro mult_right_mono) auto
      also have "\<dots> = 2 powi (bitlen n - 1)" by (simp add: e1 flip: powi_plus)
      finally show ?thesis using nb(1) by simp
    qed
    then show ?thesis by blast
  qed
qed

lemma round_pos_spec:
  assumes F: "fmt_ok F" and n: "0 < n" and d: "0 < d"
    and me: "round_pos F n d = (m, e)"
  defines "v \<equiv> real_of_int n / real_of_int d"
  shows "0 \<le> m" and "m < 2 ^ f_prec F" and "f_emin F \<le> e"
    and "e = f_emin F \<or> 2 ^ (f_prec F - 1) \<le> m"
    and "closest F v (of_int m * 2 powi e)"
proof -
  define l where "l = lsb_exp F n d"
  define N D where "N = scale_num n l" and "D = scale_den d l"
  define w where "w = v / 2 powi l"
  define k where "k = rne_div N D"
  have p1: "1 \<le> f_prec F" using F by (simp add: fmt_ok_def)
  have pp: "(2::real) powi (int (f_prec F) + l) = 2 ^ f_prec F * 2 powi l"
    "(2::real) powi (int (f_prec F) - 1 + l) = 2 ^ (f_prec F - 1) * 2 powi l"
    using p1 by (simp_all add: powi_plus power_int_diff power_diff)
  have D: "0 < D" and dr: "0 < real_of_int d" using d by (simp_all add: D_def)
  have wND: "w = of_int N / of_int D"
    using scale_ratio [OF d, of n l, folded N_def D_def] D dr
    by (simp add: w_def v_def field_simps)
  note L = lsb_exp_spec [OF F n d, folded l_def]
  have w_lt: "w < 2 ^ f_prec F" using L(2) [unfolded pp] dr by (simp add: w_def v_def field_simps)
  have w_ge: "l = f_emin F \<or> 2 ^ (f_prec F - 1) \<le> w"
    using L(3) [unfolded pp] dr by (auto simp: w_def v_def field_simps)
  have w0: "0 \<le> w" using n dr by (simp add: w_def v_def)
  have k_near: "\<bar>of_int k - w\<bar> \<le> \<bar>of_int j - w\<bar>" for j
  proof -
    have "real_of_int \<bar>k * D - N\<bar> \<le> real_of_int \<bar>j * D - N\<bar>"
      unfolding k_def of_int_le_iff by (rule rne_div_closest [OF D])
    moreover have "real_of_int \<bar>i * D - N\<bar> = \<bar>of_int i - w\<bar> * of_int D" for i
    proof -
      have "of_int i - w = of_int (i * D - N) / of_int D" using D by (simp add: wND field_simps)
      then show ?thesis using D by (simp add: abs_divide)
    qed
    ultimately show ?thesis using D by simp
  qed
  have k_le: "k \<le> j" if "w \<le> of_int j" for j
  proof -
    have "real_of_int k \<le> of_int j" using k_near [of j] that by linarith
    then show ?thesis by (simp only: of_int_le_iff)
  qed
  have k_ge: "j \<le> k" if "of_int j \<le> w" for j
  proof -
    have "real_of_int j \<le> of_int k" using k_near [of j] that by linarith
    then show ?thesis by (simp only: of_int_le_iff)
  qed
  have k_le: "k \<le> 2 ^ f_prec F" using k_le [of "2 ^ f_prec F"] w_lt by simp
  have k_ge: "2 ^ (f_prec F - 1) \<le> w \<Longrightarrow> 2 ^ (f_prec F - 1) \<le> k"
    using k_ge [of "2 ^ (f_prec F - 1)"] by simp
  have k0: "0 \<le> k" using k_near [of 0] w0 by simp
  have me_eq: "(m, e) = (if k = 2 ^ f_prec F then (2 ^ (f_prec F - 1), l + 1) else (k, l))"
    using me by (auto simp: round_pos_def Let_def l_def N_def D_def k_def split: if_splits)
  have val: "real_of_int m * 2 powi e = of_int k * 2 powi l"
    using me_eq p1 by (auto simp: powi_plus power_eq_if split: if_splits)
  have "(2::int) ^ (f_prec F - 1) < 2 ^ f_prec F" using p1 by (intro power_strict_increasing) auto
  with me_eq k0 k_le L(1) show "0 \<le> m" and "m < 2 ^ f_prec F" and "f_emin F \<le> e"
    by (simp_all split: if_splits)
  then have r: "rep F (of_int m * 2 powi e)" by (intro repI) auto
  show "e = f_emin F \<or> 2 ^ (f_prec F - 1) \<le> m"
    using me_eq k_ge w_ge by (auto split: if_splits)
  have v: "v = w * 2 powi l" by (simp add: w_def)
  have mult: "\<bar>of_int k * 2 powi l - v\<bar> \<le> \<bar>of_int j * 2 powi l - v\<bar>" for j
    using mult_right_mono [OF k_near [of j], of "2 powi l"]
    by (simp add: v abs_mult flip: left_diff_distrib)
  have "\<bar>of_int k * 2 powi l - v\<bar> \<le> \<bar>r' - v\<bar>" if "rep F r'" for r'
  proof -
    obtain m' e' where r': "\<bar>m'\<bar> < 2 ^ f_prec F" "f_emin F \<le> e'" "r' = of_int m' * 2 powi e'"
      using \<open>rep F r'\<close> by (auto simp: rep_def)
    show ?thesis
    proof (cases "l \<le> e'")
      case True
      then have "r' = of_int (m' * 2 ^ nat (e' - l)) * 2 powi l"
        by (simp add: r' mult.assoc powi_shift)
      then show ?thesis using mult [of "m' * 2 ^ nat (e' - l)"] by simp
    next
      case False
      then have "2 ^ (f_prec F - 1) \<le> w" using w_ge r'(2) by auto
      then have lo: "2 ^ (f_prec F - 1) * 2 powi l \<le> v" by (simp add: v)
      have "r' \<le> 2 ^ f_prec F * 2 powi (l - 1)"
      proof -
        have "real_of_int m' \<le> of_int (2 ^ f_prec F)" using r'(1) by (simp only: of_int_le_iff)
        then have "r' \<le> 2 ^ f_prec F * 2 powi e'" using r'(3) by (simp add: mult_right_mono)
        also have "\<dots> \<le> 2 ^ f_prec F * 2 powi (l - 1)"
          using False by (intro mult_left_mono power_int_increasing) auto
        finally show ?thesis .
      qed
      also have "\<dots> = 2 ^ (f_prec F - 1) * 2 powi l"
        using p1 by (simp add: power_int_diff power_eq_if)
      finally show ?thesis using mult [of "2 ^ (f_prec F - 1)"] lo by simp
    qed
  qed
  then show "closest F v (of_int m * 2 powi e)" using r by (simp add: closest_def val)
qed

section \<open>The operations on finite values\<close>

lemma fpval_minus: "fpval (FFin (\<not> s) m e) = - fpval (FFin s m e)"
  by (simp add: with_sign_def)

text \<open>
  \<open>round_ratio\<close> returns a closest representable number, unless the value exceeds every
  representable bound below the overflow threshold.
\<close>

lemma round_ratio_rounds:
  assumes F: "fmt_ok F" and n: "0 \<le> n" and d: "0 < d"
    and B: "real_of_int n / of_int d \<le> B" "rep F B" "B < 2 powi (int (f_prec F) + f_emax F)"
  shows "rounds_to F (of_int (with_sign s n) / of_int d) (round_ratio F s n d)"
proof (cases "n = 0")
  case True
  then show ?thesis using F
    by (simp add: round_ratio_def rounds_to_def with_sign_def closest_def fmt_ok_def)
next
  case False
  define v where "v = real_of_int n / of_int d"
  obtain m e where me: "round_pos F n d = (m, e)" by fastforce
  have n': "0 < n" using n False by simp
  have spec: "0 \<le> m" "m < 2 ^ f_prec F" "f_emin F \<le> e" "e = f_emin F \<or> 2 ^ (f_prec F - 1) \<le> m"
    "closest F v (of_int m * 2 powi e)"
    using round_pos_spec [OF F n' d me] by (simp_all add: v_def)
  have e: "e \<le> f_emax F"
  proof (rule ccontr)
    assume "\<not> e \<le> f_emax F"
    then have m: "2 ^ (f_prec F - 1) \<le> m" and lt: "f_emax F + 1 \<le> e"
      using spec(4) F by (auto simp: fmt_ok_def)
    have "int (f_prec F) - 1 = int (f_prec F - 1)" using F by (simp add: fmt_ok_def)
    then have "2 powi (int (f_prec F) - 1) = real_of_int (2 ^ (f_prec F - 1))"
      by (simp only: power_int_of_nat of_int_power of_int_numeral)
    also have "\<dots> \<le> of_int m" using m by (simp only: of_int_le_iff)
    finally have "2 powi (int (f_prec F) - 1) * 2 powi (f_emax F + 1) \<le> real_of_int m * 2 powi e"
      using lt spec(1) by (intro mult_mono power_int_increasing) auto
    also have "\<dots> \<le> B" using closest_le [OF spec(5) _ B(2)] B(1) by (simp add: v_def)
    also note B(3)
    finally show False by (simp flip: powi_plus)
  qed
  have rr: "round_ratio F s n d = FFin s m e"
    using False me e by (simp add: round_ratio_def)
  have "closest F (of_int (with_sign s n) / of_int d) (fpval (FFin s m e))"
    using spec(5) closest_minus [OF spec(5)] by (cases s) (simp_all add: with_sign_def v_def)
  then show ?thesis using spec e by (simp add: rr rounds_to_def)
qed

lemma round_ratio_ok:
  assumes F: "fmt_ok F" and n: "0 \<le> n" and d: "0 < d"
  shows "fp_ok F (round_ratio F s n d)"
proof (cases "n = 0")
  case True
  then show ?thesis using F by (simp add: round_ratio_def fmt_ok_def)
next
  case False
  obtain m e where me: "round_pos F n d = (m, e)" by fastforce
  from False n have "0 < n" by simp
  from round_pos_spec [OF F this d me] False show ?thesis by (simp add: round_ratio_def me)
qed

lemma round_dyadic_ok: "fmt_ok F \<Longrightarrow> 0 \<le> m \<Longrightarrow> fp_ok F (round_dyadic F s m e)"
  by (simp add: round_dyadic_def round_ratio_ok)

lemma round_dyadic_rounds:
  assumes F: "fmt_ok F" and m: "0 \<le> m"
    and B: "real_of_int m * 2 powi e \<le> B" "rep F B" "B < 2 powi (int (f_prec F) + f_emax F)"
  shows "rounds_to F (of_int (with_sign s m) * 2 powi e) (round_dyadic F s m e)"
proof (cases "0 \<le> e")
  case True
  have "real_of_int (m * 2 ^ nat e) / of_int 1 \<le> B" using B(1) True by (simp add: powi_nat)
  from round_ratio_rounds [OF F _ _ this B(2,3), of s] m True
  show ?thesis by (simp add: round_dyadic_def powi_nat with_sign_def split: if_splits)
next
  case False
  have p: "(2::real) powi e = 1 / 2 ^ nat (- e)" using powi_neg [of e] False by (simp add: field_simps)
  have "real_of_int m / of_int (2 ^ nat (- e)) \<le> B" using B(1) by (simp add: p)
  from round_ratio_rounds [OF F m _ this B(2,3), of s] False
  show ?thesis by (simp add: round_dyadic_def p)
qed

text \<open>Every operation stays in its format.\<close>

lemma fp_ok_zero: "fmt_ok F \<Longrightarrow> fp_ok F (FFin s 0 (f_emin F))"
  by (simp add: fmt_ok_def)

lemma fp_of_int_ok: "fmt_ok F \<Longrightarrow> fp_ok F (fp_of_int F k)"
  by (simp add: fp_of_int_def round_ratio_ok)

lemma fp_lit_ok: "fmt_ok F \<Longrightarrow> 0 < d \<Longrightarrow> fp_ok F (fp_lit F n d)"
  by (simp add: fp_lit_def round_ratio_ok)

lemma fp_add_ok: "fmt_ok F \<Longrightarrow> fp_ok F x \<Longrightarrow> fp_ok F y \<Longrightarrow> fp_ok F (fp_add F x y)"
  by (induction F x y rule: fp_add.induct) (simp_all add: Let_def fp_ok_zero round_dyadic_ok del: fp_ok.simps(1))

lemma fp_mul_ok: "fmt_ok F \<Longrightarrow> fp_ok F x \<Longrightarrow> fp_ok F y \<Longrightarrow> fp_ok F (fp_mul F x y)"
  by (induction F x y rule: fp_mul.induct) (simp_all add: round_dyadic_ok)

lemma fp_div_ok: "fmt_ok F \<Longrightarrow> fp_ok F x \<Longrightarrow> fp_ok F y \<Longrightarrow> fp_ok F (fp_div F x y)"
proof (induction F x y rule: fp_div.induct)
  case (6 F s1 m1 e1 s2 m2 e2)
  then have "0 \<le> m1" "0 \<le> m2" by simp_all
  then show ?case
    using 6(1) by (auto intro!: round_ratio_ok simp: scale_num_def scale_den_def)
qed (simp_all add: fp_ok_zero del: fp_ok.simps(1))

text \<open>Bounds under which no operation of format \<open>F\<close> overflows.\<close>

definition in_range :: "fmt \<Rightarrow> real \<Rightarrow> bool" where
  "in_range F B \<longleftrightarrow> fmt_ok F \<and> rep F B \<and> B < 2 powi (int (f_prec F) + f_emax F)"

lemma at_exp_val: "e \<le> e' \<Longrightarrow> real_of_int (at_exp s m e' e) * 2 powi e = fpval (FFin s m e')"
  by (simp add: at_exp_def mult.assoc powi_shift)

lemma fp_fin_cases:
  assumes "fp_fin x"
  obtains s m e where "x = FFin s m e"
  using assms by (cases x) auto

lemma fp_lt_val: "fp_fin x \<Longrightarrow> fp_fin y \<Longrightarrow> fp_lt x y \<longleftrightarrow> fpval x < fpval y"
proof -
  assume "fp_fin x" "fp_fin y"
  then obtain s1 m1 e1 s2 m2 e2 where xy: "x = FFin s1 m1 e1" "y = FFin s2 m2 e2"
    by (metis fp_fin_cases)
  define e where "e = min e1 e2"
  have v: "fpval x = of_int (at_exp s1 m1 e1 e) * 2 powi e" "fpval y = of_int (at_exp s2 m2 e2 e) * 2 powi e"
    using at_exp_val [of e e1 s1 m1] at_exp_val [of e e2 s2 m2] xy by (simp_all add: e_def)
  show ?thesis unfolding v by (simp add: xy Let_def flip: e_def)
qed

lemma fp_eq_val: "fp_fin x \<Longrightarrow> fp_fin y \<Longrightarrow> fp_eq x y \<longleftrightarrow> fpval x = fpval y"
proof -
  assume "fp_fin x" "fp_fin y"
  then obtain s1 m1 e1 s2 m2 e2 where xy: "x = FFin s1 m1 e1" "y = FFin s2 m2 e2"
    by (metis fp_fin_cases)
  define e where "e = min e1 e2"
  have v: "fpval x = of_int (at_exp s1 m1 e1 e) * 2 powi e" "fpval y = of_int (at_exp s2 m2 e2 e) * 2 powi e"
    using at_exp_val [of e e1 s1 m1] at_exp_val [of e e2 s2 m2] xy by (simp_all add: e_def)
  show ?thesis unfolding v by (simp add: xy Let_def flip: e_def)
qed

lemma fp_le_val: "fp_fin x \<Longrightarrow> fp_fin y \<Longrightarrow> fp_le x y \<longleftrightarrow> fpval x \<le> fpval y"
  by (auto simp: fp_le_def fp_lt_val fp_eq_val)

lemma fp_lt_irrefl [simp]: "\<not> fp_lt x x"
  by (cases x) (auto simp: Let_def)

lemma signed_abs [simp]: "with_sign (k < 0) \<bar>k\<bar> = k"
  by (simp add: with_sign_def)

lemma rounds_to_0 [simp]: "fmt_ok F \<Longrightarrow> rounds_to F 0 (FFin s 0 (f_emin F))"
  by (simp add: rounds_to_def with_sign_def closest_def fmt_ok_def)

lemma fp_add_rounds:
  assumes x: "fp_fin x" and y: "fp_fin y" and B: "in_range F B" "\<bar>fpval x + fpval y\<bar> \<le> B"
  shows "rounds_to F (fpval x + fpval y) (fp_add F x y)"
proof -
  from x y obtain s1 m1 e1 s2 m2 e2 where xy: "x = FFin s1 m1 e1" "y = FFin s2 m2 e2"
    by (metis fp_fin_cases)
  define e where "e = min e1 e2"
  define k where "k = at_exp s1 m1 e1 e + at_exp s2 m2 e2 e"
  have v: "fpval x + fpval y = of_int k * 2 powi e"
    using at_exp_val [of e e1 s1 m1] at_exp_val [of e e2 s2 m2] xy
    by (simp add: e_def k_def distrib_right)
  have "real_of_int \<bar>k\<bar> * 2 powi e \<le> B" using B(2) by (simp add: v abs_mult)
  then have "rounds_to F (of_int (with_sign (k < 0) \<bar>k\<bar>) * 2 powi e) (round_dyadic F (k < 0) \<bar>k\<bar> e)"
    using B(1) by (intro round_dyadic_rounds) (auto simp: in_range_def)
  then show ?thesis
    using B(1) by (simp add: v) (simp add: xy Let_def in_range_def flip: e_def k_def)
qed

lemma fp_sub_eq: "fp_fin x \<Longrightarrow> fp_fin y \<Longrightarrow> fp_sub F x y = fp_add F x (fp_neg y)"
  by (cases x; cases y) auto

lemma fp_neg_val [simp]: "fpval (fp_neg x) = - fpval x" "fp_fin (fp_neg x) = fp_fin x"
  by (cases x; simp add: with_sign_def)+

lemma fp_sub_rounds:
  assumes "fp_fin x" and "fp_fin y" and "in_range F B" "\<bar>fpval x - fpval y\<bar> \<le> B"
  shows "rounds_to F (fpval x - fpval y) (fp_sub F x y)"
  using fp_add_rounds [of x "fp_neg y" F B] assms by (simp add: fp_sub_eq)

lemma signed_mult: "with_sign (a \<noteq> b) (m * n) = with_sign a m * with_sign b n"
  by (auto simp: with_sign_def)

lemma abs_signed_nonneg: "0 \<le> m \<Longrightarrow> \<bar>with_sign s m\<bar> = m"
  by (auto simp: with_sign_def)

lemma fp_mul_rounds:
  assumes x: "fp_fin x" "fp_ok F x" and y: "fp_fin y" "fp_ok F y"
    and B: "in_range F B" "\<bar>fpval x * fpval y\<bar> \<le> B"
  shows "rounds_to F (fpval x * fpval y) (fp_mul F x y)"
proof -
  from x y obtain s1 m1 e1 s2 m2 e2 where xy: "x = FFin s1 m1 e1" "y = FFin s2 m2 e2"
    and m: "0 \<le> m1" "0 \<le> m2"
    by (metis fp_fin_cases fp_ok.simps(1))
  have v: "fpval x * fpval y = of_int (with_sign (s1 \<noteq> s2) (m1 * m2)) * 2 powi (e1 + e2)"
    by (simp only: xy fpval.simps signed_mult powi_plus of_int_mult mult_ac)
  have "\<bar>with_sign (s1 \<noteq> s2) (m1 * m2)\<bar> = m1 * m2" using m by (simp add: abs_signed_nonneg)
  then have "real_of_int (m1 * m2) * 2 powi (e1 + e2) \<le> B"
    using B(2) by (simp add: v abs_mult flip: of_int_abs)
  then have "rounds_to F (of_int (with_sign (s1 \<noteq> s2) (m1 * m2)) * 2 powi (e1 + e2))
      (round_dyadic F (s1 \<noteq> s2) (m1 * m2) (e1 + e2))"
    using B(1) m by (intro round_dyadic_rounds) (auto simp: in_range_def)
  then show ?thesis by (simp only: v) (simp add: xy)
qed

lemma fp_div_rounds:
  assumes x: "fp_fin x" "fp_ok F x" and y: "fp_fin y" "fp_ok F y" "fpval y \<noteq> 0"
    and B: "in_range F B" "\<bar>fpval x / fpval y\<bar> \<le> B"
  shows "rounds_to F (fpval x / fpval y) (fp_div F x y)"
proof -
  from x y obtain s1 m1 e1 s2 m2 e2 where xy: "x = FFin s1 m1 e1" "y = FFin s2 m2 e2"
    and m: "0 \<le> m1" "0 \<le> m2"
    by (metis fp_fin_cases fp_ok.simps(1))
  have m2: "0 < m2" using y(3) m(2) by (cases "m2 = 0"; cases s2) (auto simp: xy with_sign_def)
  define N D where "N = scale_num m1 (e2 - e1)" and "D = scale_den m2 (e2 - e1)"
  have D: "0 < D" and N: "0 \<le> N" using m m2 by (simp_all add: N_def D_def)
  have "real_of_int N * of_int m2 * 2 powi (e2 - e1) = of_int m1 * of_int D"
    using scale_ratio [OF m2, of m1 "e2 - e1"] by (simp add: N_def D_def)
  then have nd: "real_of_int N / of_int D = of_int m1 * 2 powi e1 / (of_int m2 * 2 powi e2)"
    using D m2 by (simp add: field_simps power_int_diff)
  have v: "fpval x / fpval y = of_int (with_sign (s1 \<noteq> s2) N) / of_int D"
    using nd m2 by (cases s1; cases s2) (simp_all add: xy with_sign_def)
  have "real_of_int N / of_int D \<le> B"
    using B(2) N D by (simp add: v abs_signed_nonneg flip: of_int_abs)
  then have "rounds_to F (of_int (with_sign (s1 \<noteq> s2) N) / of_int D) (round_ratio F (s1 \<noteq> s2) N D)"
    using B(1) N D by (intro round_ratio_rounds) (auto simp: in_range_def)
  then show ?thesis using m2 by (simp only: v) (simp add: xy N_def D_def)
qed

lemma isqrt_spec: "0 \<le> n \<Longrightarrow> 0 \<le> isqrt n \<and> isqrt n * isqrt n \<le> n \<and> n < (isqrt n + 1) * (isqrt n + 1)"
proof (induction n rule: isqrt.induct)
  case (1 n)
  show ?case
  proof (cases "n = 0")
    case True
    then show ?thesis by (simp add: isqrt.simps)
  next
    case False
    define r where "r = isqrt (n div 4)"
    have r: "0 \<le> r" "r * r \<le> n div 4" "n div 4 < (r + 1) * (r + 1)"
      using 1 False by (auto simp: r_def)
    have "4 * (r * r) \<le> n" and "n < 4 * ((r + 1) * (r + 1))" using r by linarith+
    moreover have "isqrt n = (if (2 * r + 1) * (2 * r + 1) \<le> n then 2 * r + 1 else 2 * r)"
      using False 1 by (simp add: isqrt.simps [of n] Let_def r_def)
    ultimately show ?thesis using r(1) by (auto simp: algebra_simps)
  qed
qed

text \<open>
  The number that \<open>fp_sqrt\<close> rounds: the root cut off after two more bits than the format has,
  with a half of the last unit when it is not exact.
\<close>

lemma fp_sqrt_spec:
  assumes x: "fp_fin x" "fp_ok F x" "0 \<le> fpval x"
  shows "\<exists>c. 0 \<le> c \<and> \<bar>c - sqrt (fpval x)\<bar> * 2 ^ (f_prec F + 2) \<le> sqrt (fpval x) \<and>
    (\<forall>B. in_range F B \<longrightarrow> c \<le> B \<longrightarrow> rounds_to F c (fp_sqrt F x))"
proof -
  from x obtain s m e where xe: "x = FFin s m e" and m: "0 \<le> m"
    by (metis fp_fin_cases fp_ok.simps(1))
  show ?thesis
  proof (cases "m = 0")
    case True
    then show ?thesis by (auto simp: xe in_range_def with_sign_def intro!: exI [of _ 0])
  next
    case False
    have s: "\<not> s"
    proof
      assume s
      then have "fpval x < 0" using False m by (simp add: xe with_sign_def mult_neg_pos)
      with x(3) show False by simp
    qed
    define k where "k = 2 * int (f_prec F) + 4 + e mod 2"
    define M where "M = m * 2 ^ nat k"
    define r where "r = isqrt M"
    define E where "E = (e - k) div 2"
    define S where "S = 2 * r + (if r * r = M then 0 else 1)"
    define u where "u = (2::real) powi E"
    have k0: "0 \<le> k" by (simp add: k_def)
    have E: "2 * E = e - k"
    proof -
      have "even (e - k)" by (simp add: k_def)
      then show ?thesis by (simp add: E_def)
    qed
    have "2 * (f_prec F + 2) \<le> nat k" by (simp add: k_def)
    then have "(2::int) ^ (2 * (f_prec F + 2)) \<le> 2 ^ nat k" by (intro power_increasing) auto
    also have "\<dots> \<le> M" using False m by (simp add: M_def int_one_le_iff_zero_less)
    finally have M: "(2 ^ (f_prec F + 2)) * (2 ^ (f_prec F + 2)) \<le> M"
      by (simp only: mult_2 power_add)
    have "0 \<le> M" using m by (simp add: M_def)
    from isqrt_spec [OF this] have r: "0 \<le> r" "r * r \<le> M" "M < (r + 1) * (r + 1)" by (simp_all add: r_def)
    have rbig: "2 ^ (f_prec F + 2) \<le> r"
    proof (rule ccontr)
      assume "\<not> 2 ^ (f_prec F + 2) \<le> r"
      then have "r + 1 \<le> 2 ^ (f_prec F + 2)" by simp
      then have "(r + 1) * (r + 1) \<le> 2 ^ (f_prec F + 2) * 2 ^ (f_prec F + 2)" using r(1) by (intro mult_mono) auto
      with M r(3) show False by simp
    qed
    have u: "0 < u" by (simp add: u_def)
    have "u * u * 2 ^ nat k = 2 powi e" using E k0 by (simp add: u_def flip: powi_plus powi_nat)
    then have v: "fpval x = of_int M * (u * u)" using s by (simp add: M_def xe with_sign_def mult_ac)
    have lo: "of_int r * u \<le> sqrt (fpval x)"
    proof (rule real_le_rsqrt)
      have "(of_int r * u)\<^sup>2 = of_int (r * r) * (u * u)" by (simp add: power2_eq_square)
      also have "\<dots> \<le> fpval x" unfolding v using r(2) u by (intro mult_right_mono) (auto simp del: of_int_mult)
      finally show "(of_int r * u)\<^sup>2 \<le> fpval x" .
    qed
    have hi: "sqrt (fpval x) \<le> (of_int r + 1) * u"
    proof (rule real_le_lsqrt)
      have "fpval x \<le> of_int ((r + 1) * (r + 1)) * (u * u)"
        unfolding v using r(3) u by (intro mult_right_mono) (simp_all only: of_int_le_iff, auto)
      then show "fpval x \<le> ((of_int r + 1) * u)\<^sup>2" by (simp add: power2_eq_square mult_ac)
    qed (use r(1) u in auto)
    define c where "c = real_of_int S * 2 powi (E - 1)"
    have c: "c = (if r * r = M then of_int r * u else (of_int r + 1 / 2) * u)"
      by (simp add: c_def S_def u_def power_int_diff algebra_simps)
    have "c = sqrt (fpval x)" if "r * r = M"
    proof -
      have "fpval x = (of_int r * u)\<^sup>2" by (simp add: v power2_eq_square flip: that)
      then show ?thesis using c that r(1) u by simp
    qed
    then have "\<bar>c - sqrt (fpval x)\<bar> \<le> u" using c lo hi u by (auto simp: algebra_simps)
    then have "\<bar>c - sqrt (fpval x)\<bar> * 2 ^ (f_prec F + 2) \<le> u * of_int r"
      using rbig u by (intro mult_mono) (simp_all add: of_int_le_iff [of "2 ^ (f_prec F + 2)" r, simplified])
    then have close: "\<bar>c - sqrt (fpval x)\<bar> * 2 ^ (f_prec F + 2) \<le> sqrt (fpval x)" using lo by (simp add: mult.commute)
    have S0: "0 \<le> S" using r(1) by (simp add: S_def)
    then have "0 \<le> c" by (simp add: c_def)
    moreover have "fp_sqrt F x = round_dyadic F False S (E - 1)"
      using False s by (simp add: xe Let_def S_def E_def r_def M_def k_def)
    then have "rounds_to F c (fp_sqrt F x)" if "in_range F B" "c \<le> B" for B
      using round_dyadic_rounds [of F S "E - 1" B False] S0 that by (simp add: in_range_def c_def with_sign_def)
    ultimately show ?thesis using close by blast
  qed
qed

text \<open>The square root of a value in range is finite and at most twice any bound of the root.\<close>

lemma fp_sqrt_rounds:
  assumes x: "fp_fin x" "fp_ok F x" "0 \<le> fpval x" and b: "fpval x \<le> b * b" "0 \<le> b"
    and B: "in_range F (2 * b)"
  shows "\<exists>c. 0 \<le> c \<and> c \<le> 2 * b \<and> rounds_to F c (fp_sqrt F x)"
proof -
  obtain c where c: "0 \<le> c" "\<bar>c - sqrt (fpval x)\<bar> * 2 ^ (f_prec F + 2) \<le> sqrt (fpval x)"
    "\<And>B. in_range F B \<Longrightarrow> c \<le> B \<Longrightarrow> rounds_to F c (fp_sqrt F x)"
    using fp_sqrt_spec [OF x] by blast
  have "sqrt (fpval x) \<le> b" using b by (intro real_le_lsqrt) (simp_all add: power2_eq_square)
  moreover have "\<bar>c - sqrt (fpval x)\<bar> * 1 \<le> \<bar>c - sqrt (fpval x)\<bar> * 2 ^ (f_prec F + 2)"
    by (intro mult_left_mono one_le_power) auto
  then have "\<bar>c - sqrt (fpval x)\<bar> \<le> sqrt (fpval x)" using c(2) by simp
  ultimately have "c \<le> 2 * b" by linarith
  with c B show ?thesis by blast
qed

end
