(* ===== verification/CText.thy ===== *)
theory CText
  imports Fp_Value "HOL-Library.Char_ord"
begin

text \<open>
  The C string library as the code uses it: zero-terminated strings, \<open>snprintf\<close> truncation, the
  \<open>printf\<close> conversions \<open>%d\<close> and \<open>%.nf\<close>, and \<open>sscanf\<close> with the conversions \<open>%s\<close> (with a
  width), \<open>%c\<close>, \<open>%d\<close>, \<open>%ld\<close> and \<open>%f\<close>. The scanner follows the C11 text: the input item is the
  longest prefix of a matching sequence and the conversion fails when the item itself is none.
\<close>

section \<open>Characters and zero-terminated strings\<close>

abbreviation NUL :: char where "NUL \<equiv> CHR 0x00"
abbreviation newline :: char where "newline \<equiv> CHR 0x0A"
abbreviation cret :: char where "cret \<equiv> CHR 0x0D"

definition char_code :: "char \<Rightarrow> int" where
  "char_code c = of_char c"

text \<open>The string that a buffer holding these bytes denotes: everything before the first zero.\<close>

definition cstr :: "string \<Rightarrow> string" where
  "cstr s = takeWhile (\<lambda>c. c \<noteq> NUL) s"

text \<open>\<open>snprintf(buf, n, "%s", s)\<close> leaves at most \<open>n - 1\<close> characters.\<close>

definition snprintf_str :: "nat \<Rightarrow> string \<Rightarrow> string" where
  "snprintf_str n s = take (n - 1) s"

definition is_space :: "char \<Rightarrow> bool" where
  "is_space c \<longleftrightarrow> char_code c = 32 \<or> (9 \<le> char_code c \<and> char_code c \<le> 13)"

definition is_digit :: "char \<Rightarrow> bool" where
  "is_digit c \<longleftrightarrow> 48 \<le> char_code c \<and> char_code c \<le> 57"

definition is_alpha :: "char \<Rightarrow> bool" where
  "is_alpha c \<longleftrightarrow> (65 \<le> char_code c \<and> char_code c \<le> 90) \<or> (97 \<le> char_code c \<and> char_code c \<le> 122)"

definition to_lower :: "char \<Rightarrow> char" where
  "to_lower c = (if 65 \<le> char_code c \<and> char_code c \<le> 90 then char_of (char_code c + 32) else c)"

definition to_upper :: "char \<Rightarrow> char" where
  "to_upper c = (if 97 \<le> char_code c \<and> char_code c \<le> 122 then char_of (char_code c - 32) else c)"

definition digit_val :: "char \<Rightarrow> int" where
  "digit_val c = char_code c - 48"

definition digit_char :: "int \<Rightarrow> char" where
  "digit_char d = char_of (48 + d)"

definition is_hex :: "char \<Rightarrow> bool" where
  "is_hex c \<longleftrightarrow> is_digit c \<or> (97 \<le> char_code (to_lower c) \<and> char_code (to_lower c) \<le> 102)"

definition hex_val :: "char \<Rightarrow> int" where
  "hex_val c = (if is_digit c then digit_val c else char_code (to_lower c) - 87)"

section \<open>Printing\<close>

fun nat_str :: "int \<Rightarrow> string" where
  "nat_str n = (if n < 10 then [digit_char n] else nat_str (n div 10) @ [digit_char (n mod 10)])"

declare nat_str.simps [simp del]

text \<open>\<open>%d\<close> and \<open>%ld\<close>.\<close>

definition int_str :: "int \<Rightarrow> string" where
  "int_str k = (if k < 0 then CHR ''-'' # nat_str (- k) else nat_str k)"

text \<open>The last \<open>p\<close> decimal digits of \<open>n\<close>, with leading zeros.\<close>

primrec pad_digits :: "nat \<Rightarrow> int \<Rightarrow> string" where
  "pad_digits 0 n = []"
| "pad_digits (Suc p) n = pad_digits p (n div 10) @ [digit_char (n mod 10)]"

text \<open>\<open>%.pf\<close>: the exact value rounded to \<open>p\<close> decimals, ties to even.\<close>

definition fixed_int :: "nat \<Rightarrow> int \<Rightarrow> int \<Rightarrow> int" where
  "fixed_int p m e = rne_div (scale_num (m * 10 ^ p) (- e)) (scale_den 1 (- e))"

fun fixed_str :: "nat \<Rightarrow> fp \<Rightarrow> string" where
  "fixed_str p (FNaN s) = (if s then ''-nan'' else ''nan'')"
| "fixed_str p (FInf s) = (if s then ''-inf'' else ''inf'')"
| "fixed_str p (FFin s m e) =
     (let k = fixed_int p m e
      in (if s then ''-'' else '''') @ nat_str (k div 10 ^ p) @ ''.'' @ pad_digits p k)"

section \<open>Scanning\<close>

definition skip_ws :: "string \<Rightarrow> string" where
  "skip_ws s = dropWhile is_space s"

definition digits_val :: "string \<Rightarrow> int" where
  "digits_val ds = foldl (\<lambda>a c. 10 * a + digit_val c) 0 ds"

definition hex_digits_val :: "string \<Rightarrow> int" where
  "hex_digits_val ds = foldl (\<lambda>a c. 16 * a + hex_val c) 0 ds"

fun split_sign :: "string \<Rightarrow> bool \<times> string" where
  "split_sign [] = (False, [])"
| "split_sign (c # s) =
     (if c = CHR ''-'' then (True, s) else if c = CHR ''+'' then (False, s) else (False, c # s))"

definition LONG_MAX :: int where "LONG_MAX = 2 ^ 63 - 1"

definition clamp_long :: "int \<Rightarrow> int" where
  "clamp_long k = max (- LONG_MAX - 1) (min LONG_MAX k)"

definition wrap_int :: "int \<Rightarrow> int" where
  "wrap_int k = (k + 2 ^ 31) mod 2 ^ 32 - 2 ^ 31"

text \<open>\<open>%ld\<close> saturates; \<open>%d\<close> keeps the low 32 bits of that (the C library's behaviour).\<close>

definition scan_long :: "string \<Rightarrow> (int \<times> string) option" where
  "scan_long s =
     (case split_sign (skip_ws s) of (neg, r) \<Rightarrow>
        let ds = takeWhile is_digit r
        in if ds = [] then None
           else Some (clamp_long (if neg then - digits_val ds else digits_val ds), dropWhile is_digit r))"

definition scan_int :: "string \<Rightarrow> (int \<times> string) option" where
  "scan_int s = map_option (\<lambda>(k, r). (wrap_int k, r)) (scan_long s)"

definition starts_ci :: "string \<Rightarrow> string \<Rightarrow> bool" where
  "starts_ci w s \<longleftrightarrow> map to_lower (take (length w) s) = w"

text \<open>
  An optional exponent part introduced by the (lower-case) letter \<open>ec\<close>: \<open>None\<close> when the letter is
  there and the digits are not.
\<close>

definition scan_exp :: "char \<Rightarrow> string \<Rightarrow> (int \<times> string) option" where
  "scan_exp ec s =
     (case s of [] \<Rightarrow> Some (0, s)
      | c # r \<Rightarrow>
          if to_lower c \<noteq> ec then Some (0, s)
          else case split_sign r of (neg, r') \<Rightarrow>
            let ds = takeWhile is_digit r'
            in if ds = [] then None
               else Some (if neg then - digits_val ds else digits_val ds, dropWhile is_digit r'))"

text \<open>Integer digits, an optional point and fraction digits: both digit strings and the rest.\<close>

definition scan_frac :: "(char \<Rightarrow> bool) \<Rightarrow> string \<Rightarrow> string \<times> string \<times> string" where
  "scan_frac dig s =
     (let ip = takeWhile dig s; r = dropWhile dig s
      in case r of [] \<Rightarrow> (ip, [], [])
         | c # r' \<Rightarrow> if c = CHR ''.'' then (ip, takeWhile dig r', dropWhile dig r') else (ip, [], r))"

definition scan_dec_flt :: "bool \<Rightarrow> string \<Rightarrow> (fp \<times> string) option" where
  "scan_dec_flt neg s =
     (case scan_frac is_digit s of (ip, fds, r) \<Rightarrow>
        if ip @ fds = [] then None
        else case scan_exp (CHR ''e'') r of None \<Rightarrow> None
             | Some (x, r') \<Rightarrow>
                 let k = x - int (length fds); n = digits_val (ip @ fds)
                 in Some (if 0 \<le> k then round_ratio F32 neg (n * 10 ^ nat k) 1
                          else round_ratio F32 neg n (10 ^ nat (- k)), r'))"

definition scan_hex_flt :: "bool \<Rightarrow> string \<Rightarrow> (fp \<times> string) option" where
  "scan_hex_flt neg s =
     (case scan_frac is_hex s of (ip, fds, r) \<Rightarrow>
        if ip @ fds = [] then None
        else case scan_exp (CHR ''p'') r of None \<Rightarrow> None
             | Some (x, r') \<Rightarrow>
                 Some (round_dyadic F32 neg (hex_digits_val (ip @ fds)) (x - 4 * int (length fds)), r'))"

definition scan_nan_tail :: "string \<Rightarrow> string option" where
  "scan_nan_tail s =
     (case s of [] \<Rightarrow> Some s
      | c # r \<Rightarrow>
          if c \<noteq> CHR ''('' then Some s
          else case dropWhile (\<lambda>d. is_alpha d \<or> is_digit d \<or> d = CHR ''_'') r of
                 [] \<Rightarrow> None
               | d # r' \<Rightarrow> if d = CHR '')'' then Some r' else None)"

text \<open>\<open>%f\<close>: everything \<open>strtof\<close> accepts.\<close>

definition scan_flt :: "string \<Rightarrow> (fp \<times> string) option" where
  "scan_flt s =
     (case split_sign (skip_ws s) of (neg, r) \<Rightarrow>
        if starts_ci ''n'' r then
          (if starts_ci ''nan'' r then map_option (Pair (FNaN neg)) (scan_nan_tail (drop 3 r)) else None)
        else if starts_ci ''i'' r then
          (if starts_ci ''infi'' r then
             (if starts_ci ''infinity'' r then Some (FInf neg, drop 8 r) else None)
           else if starts_ci ''inf'' r then Some (FInf neg, drop 3 r) else None)
        else if starts_ci ''0x'' r then scan_hex_flt neg (drop 2 r)
        else scan_dec_flt neg r)"

datatype directive = DLit char | DWs | DStr nat | DChr | DInt | DLong | DFlt

datatype scanval = VStr string | VChr char | VInt int | VFlt fp

text \<open>The directives of a format string.\<close>

fun fmt_dirs :: "string \<Rightarrow> directive list" where
  "fmt_dirs [] = []"
| "fmt_dirs (c # s) =
     (if is_space c then DWs # fmt_dirs s
      else if c \<noteq> CHR ''%'' then DLit c # fmt_dirs s
      else if take 3 s = ''31s'' then DStr 31 # fmt_dirs (drop 3 s)
      else if take 2 s = ''ld'' then DLong # fmt_dirs (drop 2 s)
      else if take 1 s = ''d'' then DInt # fmt_dirs (drop 1 s)
      else if take 1 s = ''f'' then DFlt # fmt_dirs (drop 1 s)
      else if take 1 s = ''c'' then DChr # fmt_dirs (drop 1 s)
      else [])"

text \<open>The values assigned before the first directive that fails; their number is what \<open>sscanf\<close> returns.\<close>

fun scan_dirs :: "directive list \<Rightarrow> string \<Rightarrow> scanval list" where
  "scan_dirs [] s = []"
| "scan_dirs (DWs # ds) s = scan_dirs ds (skip_ws s)"
| "scan_dirs (DLit c # ds) s = (case s of [] \<Rightarrow> [] | x # r \<Rightarrow> if x = c then scan_dirs ds r else [])"
| "scan_dirs (DChr # ds) s = (case s of [] \<Rightarrow> [] | x # r \<Rightarrow> VChr x # scan_dirs ds r)"
| "scan_dirs (DStr w # ds) s =
     (let r = skip_ws s; tok = takeWhile (\<lambda>c. \<not> is_space c) (take w r)
      in if tok = [] then [] else VStr tok # scan_dirs ds (drop (length tok) r))"
| "scan_dirs (DInt # ds) s =
     (case scan_int s of None \<Rightarrow> [] | Some (k, r) \<Rightarrow> VInt k # scan_dirs ds r)"
| "scan_dirs (DLong # ds) s =
     (case scan_long s of None \<Rightarrow> [] | Some (k, r) \<Rightarrow> VInt k # scan_dirs ds r)"
| "scan_dirs (DFlt # ds) s =
     (case scan_flt s of None \<Rightarrow> [] | Some (x, r) \<Rightarrow> VFlt x # scan_dirs ds r)"

definition sscanf :: "string \<Rightarrow> string \<Rightarrow> scanval list" where
  "sscanf fmt s = scan_dirs (fmt_dirs fmt) s"

section \<open>What the scanner returns\<close>

lemma digit_val_nonneg: "is_digit c \<Longrightarrow> 0 \<le> digit_val c"
  by (simp add: is_digit_def digit_val_def)

lemma hex_val_nonneg: "is_hex c \<Longrightarrow> 0 \<le> hex_val c"
  by (auto simp: is_hex_def hex_val_def digit_val_nonneg)

lemma foldl_nonneg:
  "(\<And>c. c \<in> set ds \<Longrightarrow> 0 \<le> f c) \<Longrightarrow> 0 \<le> a \<Longrightarrow> 0 \<le> b \<Longrightarrow> 0 \<le> foldl (\<lambda>a c. b * a + f c) (a::int) ds"
  by (induction ds arbitrary: a) auto

lemma digits_val_nonneg: "(\<And>c. c \<in> set ds \<Longrightarrow> is_digit c) \<Longrightarrow> 0 \<le> digits_val ds"
  unfolding digits_val_def by (rule foldl_nonneg) (auto intro: digit_val_nonneg)

lemma hex_digits_val_nonneg: "(\<And>c. c \<in> set ds \<Longrightarrow> is_hex c) \<Longrightarrow> 0 \<le> hex_digits_val ds"
  unfolding hex_digits_val_def by (rule foldl_nonneg) (auto intro: hex_val_nonneg)

lemma scan_frac_digits: "scan_frac dig s = (ip, fds, r) \<Longrightarrow> c \<in> set (ip @ fds) \<Longrightarrow> dig c"
  by (auto simp: scan_frac_def Let_def split: list.splits if_splits dest: set_takeWhileD)

lemma scan_flt_ok: "scan_flt s = Some (x, r) \<Longrightarrow> fp_ok F32 x"
proof -
  have dec: "fp_ok F32 x" if "scan_dec_flt neg t = Some (x, r)" for neg t
  proof -
    obtain ip fds r' where f: "scan_frac is_digit t = (ip, fds, r')" by (metis prod_cases3)
    have "0 \<le> digits_val (ip @ fds)" using scan_frac_digits [OF f] by (rule digits_val_nonneg)
    with that show ?thesis
      by (auto simp: scan_dec_flt_def f Let_def intro!: round_ratio_ok split: if_splits option.splits)
  qed
  have hex: "fp_ok F32 x" if "scan_hex_flt neg t = Some (x, r)" for neg t
  proof -
    obtain ip fds r' where f: "scan_frac is_hex t = (ip, fds, r')" by (metis prod_cases3)
    have "0 \<le> hex_digits_val (ip @ fds)" using scan_frac_digits [OF f] by (rule hex_digits_val_nonneg)
    with that show ?thesis
      by (auto simp: scan_hex_flt_def f intro!: round_dyadic_ok split: if_splits option.splits)
  qed
  assume "scan_flt s = Some (x, r)"
  then show ?thesis
    by (auto simp: scan_flt_def split: prod.splits if_splits intro: dec hex)
qed

end
