(* ===== verification/Common.thy ===== *)
theory Common
  imports CText
begin

text \<open>
  The shared types of \<open>src/src/common.h\<close>: phases, players, the server state. A fixed array of
  \<open>MAX_PLAYERS\<close> slots is a function on slot numbers; the code only uses indices below
  \<open>MAX_PLAYERS\<close>. A byte buffer with its \<open>used\<close> counter is the list of its used bytes. The C
  flags hold 0 or 1 only and are \<open>bool\<close>.

  \<open>World\<close> adds to \<open>ServerState\<close> what the server's functions do to the operating system: the
  readings that successive calls of \<open>time(NULL)\<close> return (an arbitrary stream and the number of
  readings taken so far) and the descriptors passed to \<open>close\<close>, latest first.
\<close>

section \<open>Constants\<close>

definition MAX_PLAYERS :: nat where "MAX_PLAYERS = 32"
definition MAX_NAME_LENGTH :: nat where "MAX_NAME_LENGTH = 32"
definition MAX_LINE :: nat where "MAX_LINE = 256"
definition INBUF_SIZE :: nat where "INBUF_SIZE = 1024"
definition OUTBUF_SIZE :: nat where "OUTBUF_SIZE = 8192"
definition INVALID_SOCKET :: int where "INVALID_SOCKET = - 1"
definition GRID_W :: int where "GRID_W = 10"
definition GRID_H :: int where "GRID_H = 10"
definition JOIN_WINDOW_SECONDS :: int where "JOIN_WINDOW_SECONDS = 60"
definition SETUP_SECONDS :: int where "SETUP_SECONDS = 20"
definition ROUND_SECONDS :: int where "ROUND_SECONDS = 5"

lemmas const_defs = MAX_PLAYERS_def MAX_NAME_LENGTH_def MAX_LINE_def INBUF_SIZE_def OUTBUF_SIZE_def
  GRID_W_def GRID_H_def JOIN_WINDOW_SECONDS_def SETUP_SECONDS_def ROUND_SECONDS_def

section \<open>Phases, players, server state\<close>

datatype Phase = PHASE_LOBBY_OPEN | PHASE_SETUP | PHASE_ROUND_ACTIVE | PHASE_REPICK | PHASE_GAME_OVER

text \<open>The enumerators are the integers from 0; their order is the course of a match.\<close>

primrec phase_number :: "Phase \<Rightarrow> nat" where
  "phase_number PHASE_LOBBY_OPEN = 0"
| "phase_number PHASE_SETUP = 1"
| "phase_number PHASE_ROUND_ACTIVE = 2"
| "phase_number PHASE_REPICK = 3"
| "phase_number PHASE_GAME_OVER = 4"

lemma phase_number_eq [simp]: "phase_number p = phase_number q \<longleftrightarrow> p = q"
  by (cases p; cases q) simp_all

instantiation Phase :: linorder
begin

definition less_eq_Phase :: "Phase \<Rightarrow> Phase \<Rightarrow> bool" where
  "less_eq_Phase p q \<longleftrightarrow> phase_number p \<le> phase_number q"

definition less_Phase :: "Phase \<Rightarrow> Phase \<Rightarrow> bool" where
  "less_Phase p q \<longleftrightarrow> phase_number p < phase_number q"

instance
  by standard (auto simp: less_eq_Phase_def less_Phase_def)

end

lemma phase_order [simp]: "PHASE_LOBBY_OPEN \<le> p" "p \<le> PHASE_GAME_OVER"
  by (cases p; simp add: less_eq_Phase_def)+

record Player =
  p_fd :: int
  p_id :: int
  p_connected :: bool
  p_registered :: bool
  p_admitted :: bool
  p_alive :: bool
  p_waiting :: bool
  p_in_round :: bool
  p_choice_chosen :: bool
  p_spawn_chosen :: bool
  p_repick_submitted :: bool
  p_repick_choice :: char
  p_name :: string
  p_choice :: char
  p_x :: fp
  p_y :: fp
  p_inbuf :: string
  p_outbuf :: string

record ServerState =
  players :: "nat \<Rightarrow> Player"
  next_id :: int
  round_no :: int
  phase :: Phase
  join_deadline :: int
  setup_deadline :: int
  round_deadline :: int

record World = ServerState +
  time_src :: "nat \<Rightarrow> int"
  time_pos :: nat
  closed_fds :: "int list"

record Pair =
  pair_a :: nat
  pair_b :: nat

definition fp_zero :: fp where "fp_zero = FFin False 0 (- 149)"
definition fp_minus_one :: fp where "fp_minus_one = FFin True 8388608 (- 23)"

text \<open>\<open>memset(p, 0, sizeof(Player))\<close>.\<close>

definition zero_player :: Player where
  "zero_player = \<lparr>p_fd = 0, p_id = 0, p_connected = False, p_registered = False, p_admitted = False,
     p_alive = False, p_waiting = False, p_in_round = False, p_choice_chosen = False,
     p_spawn_chosen = False, p_repick_submitted = False, p_repick_choice = NUL, p_name = [],
     p_choice = NUL, p_x = fp_zero, p_y = fp_zero, p_inbuf = [], p_outbuf = []\<rparr>"

section \<open>System calls\<close>

text \<open>
  The switch to non-blocking mode: what \<open>fcntl\<close> returned for \<open>F_GETFL\<close>, and what it returns when
  these flags and \<open>O_NONBLOCK\<close> are set.
\<close>

datatype status = Success | Failure

definition net_set_nonblocking :: "int \<Rightarrow> (int \<Rightarrow> int) \<Rightarrow> status" where
  "net_set_nonblocking getfl setfl =
     (let flags = getfl
      in if flags < 0 then Failure else if setfl flags < 0 then Failure else Success)"

text \<open>A reading of the wall clock: what \<open>timespec_get\<close> stored, or the seconds when it failed.\<close>

datatype time_reading = Timespec int int | TimeOnly int

fun rps_now_seconds :: "time_reading \<Rightarrow> fp" where
  "rps_now_seconds (Timespec sec nsec) =
     fp_add F64 (fp_of_int F64 sec) (fp_div F64 (fp_of_int F64 nsec) (fp_lit F64 1000000000 1))"
| "rps_now_seconds (TimeOnly sec) = fp_of_int F64 sec"

text \<open>Whatever the system stored, the reading is a \<open>double\<close>.\<close>

lemma rps_now_seconds_ok [simp]: "fp_ok F64 (rps_now_seconds r)"
  by (cases r) (simp_all add: fp_add_ok fp_div_ok fp_of_int_ok fp_lit_ok)

section \<open>Access to a slot and to the clock\<close>

definition upd_player :: "nat \<Rightarrow> (Player \<Rightarrow> Player) \<Rightarrow> World \<Rightarrow> World" where
  "upd_player i f w = w\<lparr>players := (players w)(i := f (players w i))\<rparr>"

text \<open>\<open>time(NULL)\<close>: the next reading of the clock.\<close>

definition time_now :: "World \<Rightarrow> int" where
  "time_now w = time_src w (time_pos w)"

definition time_tick :: "World \<Rightarrow> World" where
  "time_tick w = w\<lparr>time_pos := time_pos w + 1\<rparr>"

lemma players_upd_player [simp]:
  "players (upd_player i f w) j = (if j = i then f (players w i) else players w j)"
  by (simp add: upd_player_def)

lemma upd_player_frame [simp]:
  "next_id (upd_player i f w) = next_id w" "round_no (upd_player i f w) = round_no w"
  "phase (upd_player i f w) = phase w" "join_deadline (upd_player i f w) = join_deadline w"
  "setup_deadline (upd_player i f w) = setup_deadline w"
  "round_deadline (upd_player i f w) = round_deadline w"
  "time_src (upd_player i f w) = time_src w" "time_pos (upd_player i f w) = time_pos w"
  "closed_fds (upd_player i f w) = closed_fds w"
  by (simp_all add: upd_player_def)

lemma time_tick_frame [simp]:
  "players (time_tick w) = players w" "next_id (time_tick w) = next_id w"
  "round_no (time_tick w) = round_no w"
  "phase (time_tick w) = phase w" "join_deadline (time_tick w) = join_deadline w"
  "setup_deadline (time_tick w) = setup_deadline w" "round_deadline (time_tick w) = round_deadline w"
  "time_src (time_tick w) = time_src w" "time_pos (time_tick w) = time_pos w + 1"
  "closed_fds (time_tick w) = closed_fds w"
  by (simp_all add: time_tick_def)

end
