(* ===== verification/Protocol.thy ===== *)
theory Protocol
  imports Common "HOL-Library.Word"
begin

text \<open>
  The line transport of \<open>src/src/protocol.c\<close>: queueing a line, flushing the output buffer,
  reading bytes into the input buffer, popping lines from it, and connecting. A formatted message is the
  string \<open>vsnprintf\<close> would produce; the results of \<open>send\<close> and \<open>recv\<close> are inputs.
\<close>

section \<open>Operations\<close>

definition queue_line :: "string \<Rightarrow> Player \<Rightarrow> status \<times> Player" where
  "queue_line text p =
     (if MAX_LINE - 2 \<le> length text then (Failure, p)
      else let line = text @ [newline]
           in if OUTBUF_SIZE < length (p_outbuf p) + length line then (Failure, p)
              else (Success, p\<lparr>p_outbuf := p_outbuf p @ line\<rparr>))"

definition player_has_pending_output :: "Player \<Rightarrow> bool" where
  "player_has_pending_output p \<longleftrightarrow> 0 < length (p_outbuf p)"

text \<open>What one call of \<open>send\<close> did: sent a number of bytes, would block, or failed.\<close>

datatype send_result = Sent nat | SendWouldBlock | SendError

datatype flush_result = AllFlushed | FlushBlocked | FlushError

text \<open>
  The flush loop over the results \<open>src k\<close>, \<open>src (k + 1)\<close>, ... of the successive calls. It ends
  because every iteration that goes on has removed at least one byte.
\<close>

function flush_loop :: "(nat \<Rightarrow> send_result) \<Rightarrow> nat \<Rightarrow> string \<Rightarrow> flush_result \<times> string" where
  "flush_loop src k buf =
     (if buf = [] then (AllFlushed, buf)
      else case src k of
        Sent n \<Rightarrow> if 0 < n then flush_loop src (Suc k) (drop n buf) else (FlushError, buf)
      | SendWouldBlock \<Rightarrow> (FlushBlocked, buf)
      | SendError \<Rightarrow> (FlushError, buf))"
  by pat_completeness auto
termination
  by (relation "measure (\<lambda>(src, k, buf). length buf)") auto

declare flush_loop.simps [simp del]

definition flush_player_output :: "(nat \<Rightarrow> send_result) \<Rightarrow> Player \<Rightarrow> flush_result \<times> Player" where
  "flush_player_output src p =
     (case flush_loop src 0 (p_outbuf p) of (r, buf) \<Rightarrow> (r, p\<lparr>p_outbuf := buf\<rparr>))"

text \<open>What one call of \<open>recv\<close> on a 256-byte buffer did.\<close>

datatype recv_result = RecvData string | RecvEof | RecvWouldBlock | RecvError

datatype read_result = ReadBytes nat | ReadNothing | ReadClosed | ReadError

definition read_into_player_buffer :: "recv_result \<Rightarrow> Player \<Rightarrow> read_result \<times> Player" where
  "read_into_player_buffer r p =
     (case r of
        RecvEof \<Rightarrow> (ReadClosed, p)
      | RecvWouldBlock \<Rightarrow> (ReadNothing, p)
      | RecvError \<Rightarrow> (ReadError, p)
      | RecvData tmp \<Rightarrow>
          if INBUF_SIZE \<le> length (p_inbuf p) + length tmp then (ReadError, p)
          else (ReadBytes (length tmp), p\<lparr>p_inbuf := p_inbuf p @ tmp\<rparr>))"

text \<open>\<open>rc <= 0\<close> in the callers: the connection is gone.\<close>

fun read_failed :: "read_result \<Rightarrow> bool" where
  "read_failed (ReadBytes n) \<longleftrightarrow> n = 0"
| "read_failed ReadNothing \<longleftrightarrow> False"
| "read_failed ReadClosed \<longleftrightarrow> True"
| "read_failed ReadError \<longleftrightarrow> True"

text \<open>
  \<open>pop_line\<close> on the bytes of the buffer: the extracted bytes (up to \<open>out_sz - 1\<close>, without the
  line end) and the bytes that remain.
\<close>

definition pop_line :: "nat \<Rightarrow> string \<Rightarrow> (string \<times> string) option" where
  "pop_line out_sz buf =
     (let i = length (takeWhile (\<lambda>c. c \<noteq> newline) buf)
      in if i < length buf then
           let len = (if 0 < i \<and> buf ! (i - 1) = cret then i - 1 else i);
               len' = (if out_sz \<le> len then out_sz - 1 else len)
           in Some (take len' buf, drop (i + 1) buf)
         else None)"

text \<open>The blocking \<open>send_line\<close> of the client and of the "server full" path: the bytes put on the wire.\<close>

function send_loop :: "(nat \<Rightarrow> send_result) \<Rightarrow> nat \<Rightarrow> string \<Rightarrow> string \<Rightarrow> status \<times> string" where
  "send_loop src k done buf =
     (if buf = [] then (Success, done)
      else case src k of
        Sent n \<Rightarrow> if 0 < n then send_loop src (Suc k) (done @ take n buf) (drop n buf) else (Failure, done)
      | _ \<Rightarrow> (Failure, done))"
  by pat_completeness auto
termination
  by (relation "measure (\<lambda>(src, k, done, buf). length buf)") auto

declare send_loop.simps [simp del]

definition send_line :: "(nat \<Rightarrow> send_result) \<Rightarrow> string \<Rightarrow> status \<times> string" where
  "send_line src text =
     (if MAX_LINE - 2 \<le> length text then (Failure, [])
      else send_loop src 0 [] (text @ [newline]))"

section \<open>Connecting\<close>

text \<open>Both programs use this port; in a socket address it is converted to 16 bits.\<close>

definition PORT :: int where "PORT = 4242"

definition sin_port :: "int \<Rightarrow> 16 word" where "sin_port port = word_of_int port"

text \<open>What \<open>socket\<close>, \<open>inet_pton\<close> and \<open>connect\<close> return.\<close>

record ConnectCalls =
  cc_socket :: int
  cc_pton :: "string \<Rightarrow> int"
  cc_connect :: "string \<Rightarrow> 16 word \<Rightarrow> int"

text \<open>The connected descriptor or \<open>INVALID_SOCKET\<close>, and the descriptors closed.\<close>

definition connect_to_server :: "ConnectCalls \<Rightarrow> string \<Rightarrow> int \<Rightarrow> int \<times> int list" where
  "connect_to_server calls host port =
     (let fd = cc_socket calls
      in if fd = INVALID_SOCKET then (INVALID_SOCKET, [])
         else if cc_pton calls host \<le> 0 then (INVALID_SOCKET, [fd])
         else if cc_connect calls host (sin_port port) < 0 then (INVALID_SOCKET, [fd])
         else (fd, []))"

end
