(* ===== verification/Game.thy ===== *)
theory Game
  imports Protocol
begin

text \<open>
  The match computations of \<open>src/src/game.h\<close> and \<open>src/src/game.c\<close>: the player predicates, the
  counts and readiness checks, the start of a round, nearest-neighbour pairing and the
  rock-paper-scissors relation.
\<close>

section \<open>Predicates on a player\<close>

definition player_is_registered :: "Player \<Rightarrow> bool" where
  "player_is_registered p \<longleftrightarrow> p_connected p \<and> p_registered p"

definition player_is_admitted :: "Player \<Rightarrow> bool" where
  "player_is_admitted p \<longleftrightarrow> p_connected p \<and> p_registered p \<and> p_admitted p"

definition player_is_alive :: "Player \<Rightarrow> bool" where
  "player_is_alive p \<longleftrightarrow> p_connected p \<and> p_registered p \<and> p_admitted p \<and> p_alive p"

lemmas player_preds = player_is_registered_def player_is_admitted_def player_is_alive_def

section \<open>Initial state, counts, readiness\<close>

text \<open>The initial state over a given clock (\<open>srand\<close> seeds a generator the server never uses).\<close>

definition init_server_state :: "(nat \<Rightarrow> int) \<Rightarrow> World" where
  "init_server_state clock = \<lparr>players = (\<lambda>_. zero_player), next_id = 1, round_no = 0,
     phase = PHASE_LOBBY_OPEN, join_deadline = 0, setup_deadline = 0, round_deadline = 0,
     time_src = clock, time_pos = 1, closed_fds = []\<rparr>"

definition count_players :: "(Player \<Rightarrow> bool) \<Rightarrow> World \<Rightarrow> nat" where
  "count_players P w = for_upto MAX_PLAYERS (\<lambda>i n. if P (players w i) then n + 1 else n) 0"

definition admitted_count :: "World \<Rightarrow> nat" where
  "admitted_count w = count_players player_is_admitted w"

definition active_alive_count :: "World \<Rightarrow> nat" where
  "active_alive_count w = count_players player_is_alive w"

text \<open>The scan stops with 0 at the first admitted player that is not ready.\<close>

definition all_admitted_ready :: "World \<Rightarrow> bool" where
  "all_admitted_ready w =
     (case for_upto MAX_PLAYERS (\<lambda>i r. case r of None \<Rightarrow> None | Some n \<Rightarrow>
          if player_is_admitted (players w i) then
            (if \<not> p_choice_chosen (players w i) \<or> \<not> p_spawn_chosen (players w i) then None
             else Some (n + 1))
          else Some n) (Some (0::nat))
      of None \<Rightarrow> False | Some n \<Rightarrow> 2 \<le> n)"

text \<open>The state of the scan: \<open>None\<close> after a mismatch, else the first choice seen (if any).\<close>

definition all_alive_same_choice :: "World \<Rightarrow> bool" where
  "all_alive_same_choice w =
     (case for_upto MAX_PLAYERS (\<lambda>i r. case r of None \<Rightarrow> None | Some seen \<Rightarrow>
          if player_is_alive (players w i) then
            (case seen of
               None \<Rightarrow> Some (Some (p_choice (players w i)))
             | Some first \<Rightarrow> if p_choice (players w i) \<noteq> first then None else Some (Some first))
          else Some seen) (Some None)
      of None \<Rightarrow> False | Some seen \<Rightarrow> seen \<noteq> None \<and> 2 \<le> active_alive_count w)"

section \<open>Starting a round\<close>

definition start_round_player :: "Player \<Rightarrow> Player" where
  "start_round_player p =
     (let p = p\<lparr>p_in_round := False, p_repick_submitted := False, p_repick_choice := NUL\<rparr>
      in if \<not> player_is_admitted p then p
         else if p_alive p \<or> p_waiting p then
           (if p_waiting p then p\<lparr>p_alive := True, p_waiting := False\<rparr> else p)\<lparr>p_in_round := True\<rparr>
         else p)"

definition start_round :: "World \<Rightarrow> World" where
  "start_round w =
     (let w = w\<lparr>phase := PHASE_ROUND_ACTIVE, round_no := round_no w + 1\<rparr>;
          w = time_tick (w\<lparr>round_deadline := time_now w + ROUND_SECONDS\<rparr>)
      in for_upto MAX_PLAYERS (\<lambda>i. upd_player i start_round_player) w)"

section \<open>Pairing\<close>

definition rps_result :: "char \<Rightarrow> char \<Rightarrow> int" where
  "rps_result a b =
     (if a = b then 0
      else if (a = CHR ''R'' \<and> b = CHR ''S'') \<or> (a = CHR ''S'' \<and> b = CHR ''P'') \<or>
              (a = CHR ''P'' \<and> b = CHR ''R'') then 1
      else - 1)"

definition dist2 :: "Player \<Rightarrow> Player \<Rightarrow> int" where
  "dist2 a b =
     (let dx = fp_sub F32 (p_x a) (p_x b); dy = fp_sub F32 (p_y a) (p_y b)
      in fp_to_int (fp_add F32 (fp_mul F32 dx dx) (fp_mul F32 dy dy)))"

text \<open>
  The search state is the best pair of positions in \<open>unmatched\<close> with its distance, \<open>None\<close>
  before the first pair (\<open>best_i == -1\<close>).
\<close>

definition better_pair ::
  "World \<Rightarrow> nat list \<Rightarrow> nat \<Rightarrow> nat \<Rightarrow> (nat \<times> nat \<times> int) option \<Rightarrow> (nat \<times> nat \<times> int) option" where
  "better_pair w unmatched i j best =
     (let pi = unmatched ! i; pj = unmatched ! j;
          d = dist2 (players w pi) (players w pj);
          id_i = p_id (players w pi); id_j = p_id (players w pj)
      in case best of
           None \<Rightarrow> Some (i, j, d)
         | Some (bi, bj, bd) \<Rightarrow>
             let best_id_i = p_id (players w (unmatched ! bi));
                 best_id_j = p_id (players w (unmatched ! bj))
             in if d < bd \<or> (d = bd \<and> (id_i < best_id_i \<or> (id_i = best_id_i \<and> id_j < best_id_j)))
                then Some (i, j, d) else best)"

definition best_pair :: "World \<Rightarrow> nat list \<Rightarrow> (nat \<times> nat \<times> int) option" where
  "best_pair w unmatched =
     fold (\<lambda>i. fold (\<lambda>j. better_pair w unmatched i j) [i + 1..<length unmatched])
       [0..<length unmatched] None"

text \<open>\<open>unmatched[k] = unmatched[k + 1]\<close> from position \<open>i\<close> on.\<close>

definition remove_at :: "nat \<Rightarrow> 'a list \<Rightarrow> 'a list" where
  "remove_at i xs = take i xs @ drop (i + 1) xs"

lemma length_remove_at_less: "xs \<noteq> [] \<Longrightarrow> length (remove_at i xs) < length xs \<or> length xs \<le> i"
  by (auto simp: remove_at_def)

function pair_loop :: "World \<Rightarrow> nat \<Rightarrow> nat list \<Rightarrow> Pair list \<Rightarrow> Pair list \<times> nat list" where
  "pair_loop w max_pairs unmatched pairs =
     (if 2 \<le> length unmatched \<and> length pairs < max_pairs then
        (case best_pair w unmatched of
           None \<Rightarrow> (pairs, unmatched)
         | Some (bi, bj, bd) \<Rightarrow>
             pair_loop w max_pairs (remove_at bi (remove_at bj unmatched))
               (pairs @ [\<lparr>pair_a = unmatched ! bi, pair_b = unmatched ! bj\<rparr>]))
      else (pairs, unmatched))"
  by pat_completeness auto
termination
  by (relation "measure (\<lambda>(w, mp, unmatched, pairs). mp - length pairs)") auto

declare pair_loop.simps [simp del]

definition round_participants :: "World \<Rightarrow> nat list" where
  "round_participants w =
     filter (\<lambda>i. player_is_alive (players w i) \<and> p_in_round (players w i)) [0..<MAX_PLAYERS]"

text \<open>The pairs, and the index of the player with a bye (\<open>None\<close> for \<open>bye_index == -1\<close>).\<close>

definition build_pairs :: "World \<Rightarrow> nat \<Rightarrow> Pair list \<times> nat option" where
  "build_pairs w max_pairs =
     (case pair_loop w max_pairs (round_participants w) [] of (pairs, unmatched) \<Rightarrow>
        (pairs, if length unmatched = 1 then Some (unmatched ! 0) else None))"

end
