(* ===== verification/Chase.thy ===== *)
theory Chase
  imports Game
begin

text \<open>
  The chase simulation of \<open>src/src/chase_simulation.c\<close>: who eats whom, the nearest prey, one
  tick of movement and capture, and the end test.
\<close>

section \<open>Definitions\<close>

definition CHASE_SPEED :: fp where "CHASE_SPEED = fp_lit F32 8 10"
definition CAPTURE_RADIUS :: fp where "CAPTURE_RADIUS = fp_lit F32 5 10"

definition can_eat :: "char \<Rightarrow> char \<Rightarrow> bool" where
  "can_eat eater prey =
     (if eater = CHR ''R'' then prey = CHR ''S''
      else if eater = CHR ''S'' then prey = CHR ''P''
      else if eater = CHR ''P'' then prey = CHR ''R''
      else False)"

text \<open>\<open>sqrtf(dx * dx + dy * dy)\<close>.\<close>

definition fp_hypot :: "fp \<Rightarrow> fp \<Rightarrow> fp" where
  "fp_hypot dx dy = fp_sqrt F32 (fp_add F32 (fp_mul F32 dx dx) (fp_mul F32 dy dy))"

definition distance :: "Player \<Rightarrow> Player \<Rightarrow> fp" where
  "distance from to =
     (let dx = fp_sub F32 (p_x to) (p_x from); dy = fp_sub F32 (p_y to) (p_y from)
      in fp_hypot dx dy)"

text \<open>The candidates the loop does not skip.\<close>

definition is_prey :: "World \<Rightarrow> nat \<Rightarrow> nat \<Rightarrow> bool" where
  "is_prey w hunter_idx i \<longleftrightarrow>
     player_is_alive (players w i) \<and> i \<noteq> hunter_idx \<and>
     p_choice (players w i) \<noteq> p_choice (players w hunter_idx) \<and>
     can_eat (p_choice (players w hunter_idx)) (p_choice (players w i))"

definition nearest_step ::
  "World \<Rightarrow> nat \<Rightarrow> nat \<Rightarrow> (nat \<times> fp) option \<Rightarrow> (nat \<times> fp) option" where
  "nearest_step w hunter_idx i best =
     (if \<not> is_prey w hunter_idx i then best
      else let dist = distance (players w hunter_idx) (players w i)
           in case best of
                None \<Rightarrow> Some (i, dist)
              | Some (bi, best_dist) \<Rightarrow> if fp_lt dist best_dist then Some (i, dist) else best)"

definition find_nearest_prey :: "World \<Rightarrow> nat \<Rightarrow> nat option" where
  "find_nearest_prey w hunter_idx =
     (if \<not> player_is_alive (players w hunter_idx) then None
      else map_option fst (for_upto MAX_PLAYERS (nearest_step w hunter_idx) None))"

definition count_choice_types_alive :: "World \<Rightarrow> nat" where
  "count_choice_types_alive w =
     (case for_upto MAX_PLAYERS (\<lambda>i (has_r, has_s, has_p).
          if \<not> player_is_alive (players w i) then (has_r, has_s, has_p)
          else if p_choice (players w i) = CHR ''R'' then (True, has_s, has_p)
          else if p_choice (players w i) = CHR ''S'' then (has_r, True, has_p)
          else if p_choice (players w i) = CHR ''P'' then (has_r, has_s, True)
          else (has_r, has_s, has_p)) (False, False, False)
      of (has_r, has_s, has_p) \<Rightarrow> of_bool has_r + of_bool has_s + of_bool has_p)"

definition capture :: "Player \<Rightarrow> Player" where
  "capture p = p\<lparr>p_alive := False, p_x := fp_minus_one, p_y := fp_minus_one\<rparr>"

text \<open>The hunter's new position for a prey at distance \<open>dist\<close> beyond the capture radius.\<close>

definition move_toward :: "fp \<Rightarrow> Player \<Rightarrow> Player \<Rightarrow> Player" where
  "move_toward dt prey hunter =
     (let dx = fp_sub F32 (p_x prey) (p_x hunter);
          dy = fp_sub F32 (p_y prey) (p_y hunter);
          dist = fp_hypot dx dy;
          move_dist = fp_mul F32 CHASE_SPEED dt;
          move_dist = (if fp_lt dist move_dist then dist else move_dist);
          ux = fp_div F32 dx dist;
          uy = fp_div F32 dy dist
      in hunter\<lparr>p_x := fp_add F32 (p_x hunter) (fp_mul F32 ux move_dist),
                p_y := fp_add F32 (p_y hunter) (fp_mul F32 uy move_dist)\<rparr>)"

definition hunt :: "fp \<Rightarrow> nat \<Rightarrow> World \<Rightarrow> World" where
  "hunt dt i w =
     (if \<not> player_is_alive (players w i) then w
      else case find_nearest_prey w i of
        None \<Rightarrow> w
      | Some prey_idx \<Rightarrow>
          if fp_le (distance (players w i) (players w prey_idx)) CAPTURE_RADIUS then
            upd_player prey_idx capture w
          else
            let w' = upd_player i (move_toward dt (players w prey_idx)) w
            in if fp_le (distance (players w' i) (players w' prey_idx)) CAPTURE_RADIUS
               then upd_player prey_idx capture w' else w')"

definition simulate_chase_tick :: "World \<Rightarrow> fp \<Rightarrow> bool \<times> World" where
  "simulate_chase_tick w dt_seconds =
     (let dt = (if fp_lt dt_seconds fp_zero then fp_zero else dt_seconds);
          w' = for_upto MAX_PLAYERS (hunt dt) w
      in (count_choice_types_alive w' \<le> 1, w'))"

end
