(* ===== verification/ServerState.thy ===== *)
theory ServerState
  imports Chase
begin

text \<open>
  The state engine of \<open>src/src/server_state.c\<close>: broadcasts, snapshots, admission, phase
  transitions, round resolution.

  A broadcast that finds a client whose output buffer is full drops that client and calls
  \<open>reevaluate_state\<close>, which may itself broadcast: the C functions are mutually recursive. Each
  of them is written here once with that call as a parameter \<open>re\<close> (suffix \<open>_with\<close>), and the
  knot is tied by \<open>reevaluate_fuel\<close>, whose fuel is the nesting depth. A nested call happens only
  after a client has been dropped, so one more than the number of connected clients is enough:
  \<open>Recursion\<close> proves that \<open>reevaluate_state\<close> satisfies the code's recursive equation.
\<close>

section \<open>Queueing to one player\<close>

definition seconds_left :: "int \<Rightarrow> World \<Rightarrow> int" where
  "seconds_left deadline w = (let rem = deadline - time_now w in if 0 < rem then rem else 0)"

definition queue_line_checked :: "string \<Rightarrow> Player \<Rightarrow> status \<times> Player" where
  "queue_line_checked text p =
     (if MAX_LINE \<le> length text then (Failure, p) else queue_line (cstr text) p)"

definition queue_to :: "nat \<Rightarrow> string \<Rightarrow> World \<Rightarrow> status \<times> World" where
  "queue_to i text w =
     (case queue_line_checked text (players w i) of (r, p) \<Rightarrow> (r, upd_player i (\<lambda>_. p) w))"

text \<open>\<open>if (... < 0) return -1;\<close> between two steps.\<close>

definition and_then :: "status \<times> World \<Rightarrow> (World \<Rightarrow> status \<times> World) \<Rightarrow> status \<times> World" where
  "and_then r f = (case r of (Success, w) \<Rightarrow> f w | (Failure, w) \<Rightarrow> (Failure, w))"

section \<open>Snapshots and game results\<close>

definition bool_int :: "bool \<Rightarrow> int" where
  "bool_int b = (if b then 1 else 0)"

definition player_line :: "Player \<Rightarrow> string" where
  "player_line p = ''PLAYER '' @ p_name p @ '' '' @
     [if p_choice_chosen p then p_choice p else CHR ''?''] @ '' '' @
     fixed_str 3 (p_x p) @ '' '' @ fixed_str 3 (p_y p) @ '' '' @
     int_str (bool_int (p_alive p)) @ '' '' @ int_str (bool_int (p_waiting p))"

definition player_won_match :: "Player \<Rightarrow> bool" where
  "player_won_match p \<longleftrightarrow> player_is_admitted p \<and> (p_alive p \<or> p_waiting p)"

definition game_over_line :: "Player \<Rightarrow> string" where
  "game_over_line p =
     (if player_won_match p then ''GAME_OVER WIN''
      else if player_is_admitted p then ''GAME_OVER LOSE''
      else ''GAME_OVER'')"

definition queue_game_over_result :: "nat \<Rightarrow> World \<Rightarrow> status \<times> World" where
  "queue_game_over_result i w =
     (let p = players w i
      in if \<not> p_connected p \<or> \<not> p_registered p then (Success, w)
         else queue_to i (game_over_line p) w)"

text \<open>The lines about the phase; the clock is read when a countdown is formatted.\<close>

definition queue_phase_lines :: "nat \<Rightarrow> World \<Rightarrow> status \<times> World" where
  "queue_phase_lines dst w =
     (case phase w of
        PHASE_LOBBY_OPEN \<Rightarrow>
          if join_deadline w = 0 then queue_to dst ''LOBBY_WAITING'' w
          else queue_to dst (''LOBBY_OPEN '' @ int_str (seconds_left (join_deadline w) w)) (time_tick w)
      | PHASE_SETUP \<Rightarrow>
          and_then (queue_to dst ''LOBBY_CLOSED'' w) (\<lambda>w.
            queue_to dst (''SETUP_OPEN '' @ int_str (wrap_int (seconds_left (setup_deadline w) w))) (time_tick w))
      | PHASE_ROUND_ACTIVE \<Rightarrow>
          and_then (queue_to dst ''LOBBY_CLOSED'' w) (\<lambda>w.
            queue_to dst (''ROUND_START '' @ int_str (round_no w) @ '' '' @
              int_str (wrap_int (seconds_left (round_deadline w) w))) (time_tick w))
      | PHASE_REPICK \<Rightarrow>
          and_then (queue_to dst ''LOBBY_CLOSED'' w) (queue_to dst ''REPICK_START'')
      | PHASE_GAME_OVER \<Rightarrow> queue_game_over_result dst w)"

definition queue_player_lines :: "nat \<Rightarrow> World \<Rightarrow> status \<times> World" where
  "queue_player_lines dst w =
     for_upto MAX_PLAYERS (\<lambda>i r. and_then r (\<lambda>w.
       if player_is_admitted (players w i) then queue_to dst (player_line (players w i)) w
       else (Success, w))) (Success, w)"

definition queue_game_state_for_player :: "nat \<Rightarrow> World \<Rightarrow> status \<times> World" where
  "queue_game_state_for_player dst w =
     and_then (queue_to dst ''STATE_BEGIN'' w) (\<lambda>w.
     and_then (queue_phase_lines dst w) (\<lambda>w.
     and_then (queue_player_lines dst w) (queue_to dst ''STATE_END'')))"

section \<open>Dropping a player, broadcasts\<close>

text \<open>\<open>drop_player(s, idx, 0)\<close>.\<close>

definition drop_slot :: "nat \<Rightarrow> World \<Rightarrow> World" where
  "drop_slot idx w =
     (if \<not> p_connected (players w idx) then w
      else upd_player idx (\<lambda>_. zero_player\<lparr>p_x := fp_minus_one, p_y := fp_minus_one\<rparr>)
             (w\<lparr>closed_fds := p_fd (players w idx) # closed_fds w\<rparr>))"

text \<open>The queueing loop of \<open>queue_broadcast\<close>: the new state and the slots to drop, in order.\<close>

definition broadcast_loop :: "string \<Rightarrow> World \<Rightarrow> World \<times> nat list" where
  "broadcast_loop line w =
     for_upto MAX_PLAYERS (\<lambda>i (w, to_drop).
       if \<not> p_connected (players w i) then (w, to_drop)
       else case queue_line line (players w i) of
              (Success, p) \<Rightarrow> (upd_player i (\<lambda>_. p) w, to_drop)
            | (Failure, p) \<Rightarrow> (w, to_drop @ [i])) (w, [])"

definition queue_broadcast_with :: "(World \<Rightarrow> World) \<Rightarrow> string \<Rightarrow> World \<Rightarrow> World" where
  "queue_broadcast_with re text w =
     (case broadcast_loop (cstr (snprintf_str MAX_LINE text)) w of (w', to_drop) \<Rightarrow>
        let w'' = fold drop_slot to_drop w'
        in if to_drop \<noteq> [] then re w'' else w'')"

definition state_loop :: "World \<Rightarrow> World \<times> bool" where
  "state_loop w =
     for_upto MAX_PLAYERS (\<lambda>i (w, dropped).
       if player_is_registered (players w i) then
         (case queue_game_state_for_player i w of
            (Success, w') \<Rightarrow> (w', dropped)
          | (Failure, w') \<Rightarrow> (drop_slot i w', True))
       else (w, dropped)) (w, False)"

definition broadcast_game_state_with :: "(World \<Rightarrow> World) \<Rightarrow> World \<Rightarrow> World" where
  "broadcast_game_state_with re w =
     (case state_loop w of (w', dropped) \<Rightarrow> if dropped then re w' else w')"

definition broadcast_positions_with :: "(World \<Rightarrow> World) \<Rightarrow> World \<Rightarrow> World" where
  "broadcast_positions_with re w =
     for_upto MAX_PLAYERS (\<lambda>i w.
       if player_is_admitted (players w i)
       then queue_broadcast_with re (player_line (players w i)) w else w) w"

definition drop_player_with :: "(World \<Rightarrow> World) \<Rightarrow> nat \<Rightarrow> bool \<Rightarrow> World \<Rightarrow> World" where
  "drop_player_with re idx announce w =
     (if \<not> p_connected (players w idx) then w
      else
        let should_announce = (announce \<and> p_registered (players w idx));
            name = snprintf_str MAX_NAME_LENGTH (p_name (players w idx));
            w' = drop_slot idx w
        in if should_announce then
             broadcast_game_state_with re (queue_broadcast_with re (''LEFT '' @ name) w')
           else w')"

section \<open>Rounds, repicks, end of the game\<close>

definition start_active_round_with :: "(World \<Rightarrow> World) \<Rightarrow> World \<Rightarrow> World" where
  "start_active_round_with re w =
     (let w = start_round w;
          w = queue_broadcast_with re
                (''ROUND_START '' @ int_str (round_no w) @ '' '' @ int_str ROUND_SECONDS) w
      in broadcast_positions_with re w)"

definition apply_repick :: "Player \<Rightarrow> Player" where
  "apply_repick p =
     (if player_is_alive p then
        p\<lparr>p_choice := p_repick_choice p, p_repick_submitted := False, p_repick_choice := NUL\<rparr>
      else p)"

definition finish_repicks_with :: "(World \<Rightarrow> World) \<Rightarrow> World \<Rightarrow> World" where
  "finish_repicks_with re w =
     (let w = for_upto MAX_PLAYERS (\<lambda>i. upd_player i apply_repick) w;
          w = queue_broadcast_with re ''REPICK_DONE'' w;
          w = broadcast_positions_with re w
      in start_active_round_with re w)"

definition clear_repick :: "Player \<Rightarrow> Player" where
  "clear_repick p = p\<lparr>p_in_round := False, p_repick_submitted := False, p_repick_choice := NUL\<rparr>"

definition begin_repicks_with :: "(World \<Rightarrow> World) \<Rightarrow> World \<Rightarrow> World" where
  "begin_repicks_with re w =
     (let w = w\<lparr>phase := PHASE_REPICK\<rparr>;
          w = for_upto MAX_PLAYERS (\<lambda>i. upd_player i clear_repick) w;
          w = queue_broadcast_with re ''REPICK_START'' w
      in broadcast_positions_with re w)"

text \<open>The scan stops at the first alive player that has not submitted.\<close>

definition all_alive_repicked :: "World \<Rightarrow> bool" where
  "all_alive_repicked w =
     (case for_upto MAX_PLAYERS (\<lambda>i r. case r of None \<Rightarrow> None | Some alive \<Rightarrow>
          if player_is_alive (players w i) then
            (if \<not> p_repick_submitted (players w i) then None else Some (alive + 1))
          else Some alive) (Some (0::nat))
      of None \<Rightarrow> False | Some alive \<Rightarrow> 0 < alive)"

definition end_game :: "World \<Rightarrow> World" where
  "end_game w =
     for_upto MAX_PLAYERS (\<lambda>i w.
       if \<not> p_connected (players w i) then w
       else case queue_game_over_result i w of
              (Success, w') \<Rightarrow> w'
            | (Failure, w') \<Rightarrow> drop_slot i w') (w\<lparr>phase := PHASE_GAME_OVER\<rparr>)"

definition count_alive_choice_types :: "World \<Rightarrow> nat" where
  "count_alive_choice_types w =
     (case for_upto MAX_PLAYERS (\<lambda>i (has_r, has_p, has_s).
          if \<not> player_is_alive (players w i) then (has_r, has_p, has_s)
          else if p_choice (players w i) = CHR ''R'' then (True, has_p, has_s)
          else if p_choice (players w i) = CHR ''P'' then (has_r, True, has_s)
          else if p_choice (players w i) = CHR ''S'' then (has_r, has_p, True)
          else (has_r, has_p, has_s)) (False, False, False)
      of (has_r, has_p, has_s) \<Rightarrow> of_bool has_r + of_bool has_p + of_bool has_s)"

section \<open>Re-evaluation\<close>

definition reevaluate_lobby_open :: "World \<Rightarrow> World" where
  "reevaluate_lobby_open w = (if admitted_count w = 0 then w\<lparr>join_deadline := 0\<rparr> else w)"

definition reevaluate_setup_with :: "(World \<Rightarrow> World) \<Rightarrow> World \<Rightarrow> World" where
  "reevaluate_setup_with re w =
     (if admitted_count w < 2 then end_game w
      else if all_admitted_ready w then start_active_round_with re w
      else w)"

definition reevaluate_repick_with :: "(World \<Rightarrow> World) \<Rightarrow> World \<Rightarrow> World" where
  "reevaluate_repick_with re w =
     (if active_alive_count w \<le> 1 then end_game w
      else if all_alive_repicked w then finish_repicks_with re w
      else w)"

definition reevaluate_round_active :: "World \<Rightarrow> World" where
  "reevaluate_round_active w =
     (if active_alive_count w \<le> 1 \<or> count_alive_choice_types w \<le> 1 then end_game w else w)"

definition reevaluate_with :: "(World \<Rightarrow> World) \<Rightarrow> World \<Rightarrow> World" where
  "reevaluate_with re w =
     (case phase w of
        PHASE_GAME_OVER \<Rightarrow> w
      | PHASE_LOBBY_OPEN \<Rightarrow> reevaluate_lobby_open w
      | PHASE_SETUP \<Rightarrow> reevaluate_setup_with re w
      | PHASE_REPICK \<Rightarrow> reevaluate_repick_with re w
      | PHASE_ROUND_ACTIVE \<Rightarrow> reevaluate_round_active w)"

primrec reevaluate_fuel :: "nat \<Rightarrow> World \<Rightarrow> World" where
  "reevaluate_fuel 0 w = w"
| "reevaluate_fuel (Suc n) w = reevaluate_with (reevaluate_fuel n) w"

definition connected_player_count :: "World \<Rightarrow> nat" where
  "connected_player_count w = count_players p_connected w"

definition reevaluate_state :: "World \<Rightarrow> World" where
  "reevaluate_state w = reevaluate_fuel (Suc (connected_player_count w)) w"

section \<open>The functions of the module\<close>

definition queue_broadcast :: "string \<Rightarrow> World \<Rightarrow> World" where
  "queue_broadcast = queue_broadcast_with reevaluate_state"

definition broadcast_game_state :: "World \<Rightarrow> World" where
  "broadcast_game_state = broadcast_game_state_with reevaluate_state"

definition broadcast_positions :: "World \<Rightarrow> World" where
  "broadcast_positions = broadcast_positions_with reevaluate_state"

definition drop_player :: "nat \<Rightarrow> bool \<Rightarrow> World \<Rightarrow> World" where
  "drop_player = drop_player_with reevaluate_state"

definition start_active_round :: "World \<Rightarrow> World" where
  "start_active_round = start_active_round_with reevaluate_state"

definition finish_repicks :: "World \<Rightarrow> World" where
  "finish_repicks = finish_repicks_with reevaluate_state"

definition begin_repicks :: "World \<Rightarrow> World" where
  "begin_repicks = begin_repicks_with reevaluate_state"

text \<open>A checked line whose failure drops the player and re-evaluates.\<close>

definition queue_or_drop :: "nat \<Rightarrow> string \<Rightarrow> World \<Rightarrow> status \<times> World" where
  "queue_or_drop idx text w =
     (case queue_to idx text w of
        (Success, w') \<Rightarrow> (Success, w')
      | (Failure, w') \<Rightarrow> (Failure, reevaluate_state (drop_slot idx w')))"

definition admit_player :: "nat \<Rightarrow> World \<Rightarrow> World" where
  "admit_player idx w =
     (let w = upd_player idx (\<lambda>p. p\<lparr>p_admitted := True, p_waiting := True\<rparr>) w
      in case queue_or_drop idx ''JOINED_MATCH'' w of
           (Failure, w') \<Rightarrow> w'
         | (Success, w') \<Rightarrow>
             broadcast_game_state (queue_broadcast (''JOINED '' @ p_name (players w' idx)) w'))"

definition maybe_admit_player :: "nat \<Rightarrow> World \<Rightarrow> World" where
  "maybe_admit_player idx w =
     (let p = players w idx
      in if \<not> p_connected p \<or> \<not> p_registered p then w
         else if p_admitted p then w
         else if \<not> p_choice_chosen p \<or> \<not> p_spawn_chosen p then w
         else if phase w \<noteq> PHASE_LOBBY_OPEN then snd (queue_or_drop idx ''ERROR lobby_closed'' w)
         else if join_deadline w = 0 then
           admit_player idx
             (queue_broadcast (''LOBBY_OPEN '' @ int_str JOIN_WINDOW_SECONDS)
               (time_tick (w\<lparr>join_deadline := time_now w + JOIN_WINDOW_SECONDS\<rparr>)))
         else if join_deadline w \<le> time_now w then
           snd (queue_or_drop idx ''ERROR lobby_closed'' (time_tick w))
         else admit_player idx (time_tick w))"

definition reset_match_player :: "Player \<Rightarrow> Player" where
  "reset_match_player p =
     p\<lparr>p_admitted := False, p_alive := False, p_waiting := False, p_in_round := False,
       p_choice_chosen := False, p_spawn_chosen := False, p_repick_submitted := False,
       p_repick_choice := NUL, p_choice := NUL, p_x := fp_minus_one, p_y := fp_minus_one\<rparr>"

definition queue_reset_lines :: "nat \<Rightarrow> World \<Rightarrow> status \<times> World" where
  "queue_reset_lines i w =
     and_then (queue_to i ''MATCH_RESET'' w) (\<lambda>w.
     and_then (queue_to i ''SPECTATING'' w) (\<lambda>w.
     and_then (queue_to i ''CHOOSE_TYPE'' w) (\<lambda>w.
     and_then (queue_to i (''CHOOSE_SPAWN '' @ int_str GRID_W @ '' '' @ int_str GRID_H) w)
       (queue_to i ''LOBBY_WAITING''))))"

definition reset_match :: "World \<Rightarrow> World" where
  "reset_match w =
     for_upto MAX_PLAYERS (\<lambda>i w.
       if \<not> player_is_registered (players w i) then w
       else case queue_reset_lines i (upd_player i reset_match_player w) of
              (Success, w') \<Rightarrow> w'
            | (Failure, w') \<Rightarrow> drop_slot i w')
       (w\<lparr>phase := PHASE_LOBBY_OPEN, join_deadline := 0, setup_deadline := 0,
          round_deadline := 0, round_no := 0\<rparr>)"

text \<open>The lobby closes: \<open>PHASE_SETUP\<close>, its deadline and the two announcements.\<close>

definition announce_setup :: "World \<Rightarrow> World" where
  "announce_setup w =
     (let w = w\<lparr>phase := PHASE_SETUP\<rparr>;
          w = time_tick (w\<lparr>setup_deadline := time_now w + SETUP_SECONDS\<rparr>);
          w = queue_broadcast ''LOBBY_CLOSED'' w
      in queue_broadcast (''SETUP_OPEN '' @ int_str SETUP_SECONDS) w)"

definition close_lobby_if_needed :: "World \<Rightarrow> World" where
  "close_lobby_if_needed w =
     (if phase w \<noteq> PHASE_LOBBY_OPEN then w
      else if join_deadline w = 0 then w
      else if time_now w < join_deadline w then time_tick w
      else
        let w = announce_setup (time_tick w)
        in if admitted_count w < 2 then end_game w
           else if all_admitted_ready w then start_active_round w
           else queue_broadcast ''WAITING_FOR_OTHERS'' w)"

definition drop_unready :: "World \<Rightarrow> World" where
  "drop_unready w =
     for_upto MAX_PLAYERS (\<lambda>i w.
       if player_is_admitted (players w i) \<and>
          (\<not> p_choice_chosen (players w i) \<or> \<not> p_spawn_chosen (players w i))
       then drop_player i True w else w) w"

definition expire_unready_setup_players :: "World \<Rightarrow> World" where
  "expire_unready_setup_players w =
     (if phase w \<noteq> PHASE_SETUP then w
      else if setup_deadline w = 0 then w
      else if time_now w < setup_deadline w then time_tick w
      else
        let w = drop_unready (time_tick w)
        in if admitted_count w < 2 then end_game w
           else if all_admitted_ready w then start_active_round w
           else w)"

text \<open>The new state and the new value of \<open>*last_chase_tick\<close>.\<close>

definition advance_match_timers :: "fp \<Rightarrow> fp \<Rightarrow> World \<times> fp \<Rightarrow> World \<times> fp" where
  "advance_match_timers now chase_tick_seconds s =
     (case s of (w, last_chase_tick) \<Rightarrow>
        let w = expire_unready_setup_players (close_lobby_if_needed w)
        in if phase w \<noteq> PHASE_ROUND_ACTIVE then (w, last_chase_tick)
           else if fp_lt (fp_sub F64 now last_chase_tick) chase_tick_seconds then (w, last_chase_tick)
           else case simulate_chase_tick w (fp_convert F32 chase_tick_seconds) of (match_ended, w) \<Rightarrow>
             let w = broadcast_positions w
             in (if match_ended then reevaluate_state w else w, now))"

section \<open>Round resolution\<close>

definition pair_line :: "Player \<Rightarrow> Player \<Rightarrow> string" where
  "pair_line a b = ''PAIR '' @ p_name a @ '' '' @ p_name b @ '' '' @ [p_choice a] @ '' '' @ [p_choice b]"

definition winner_line :: "Player \<Rightarrow> Player \<Rightarrow> Player \<Rightarrow> string" where
  "winner_line a b win = pair_line a b @ '' WINNER '' @ p_name win @ '' MOVE '' @
     fixed_str 3 (p_x win) @ '' '' @ fixed_str 3 (p_y win)"

definition eliminate :: "Player \<Rightarrow> Player" where
  "eliminate p = p\<lparr>p_alive := False, p_in_round := False, p_x := fp_minus_one, p_y := fp_minus_one\<rparr>"

definition tell_eliminated :: "nat \<Rightarrow> World \<Rightarrow> World" where
  "tell_eliminated i w =
     (if \<not> p_connected (players w i) then w
      else case queue_to i ''ELIMINATED lost'' w of
             (Success, w') \<Rightarrow> w' | (Failure, w') \<Rightarrow> drop_slot i w')"

text \<open>The winner takes the loser's place; \<open>lines a b\<close> are the pair in the order of the message.\<close>

definition resolve_pair :: "Pair \<Rightarrow> World \<Rightarrow> World" where
  "resolve_pair pr w =
     (let ia = pair_a pr; ib = pair_b pr; a = players w ia; b = players w ib;
          r = rps_result (p_choice a) (p_choice b)
      in if r = 1 then
           let w = upd_player ib eliminate
                     (upd_player ia (\<lambda>p. p\<lparr>p_x := p_x b, p_y := p_y b\<rparr>) w);
               w = queue_broadcast (winner_line (players w ia) (players w ib) (players w ia)) w
           in tell_eliminated ib w
         else if r = - 1 then
           let w = upd_player ia eliminate
                     (upd_player ib (\<lambda>p. p\<lparr>p_x := p_x a, p_y := p_y a\<rparr>) w);
               w = queue_broadcast (winner_line (players w ia) (players w ib) (players w ib)) w
           in tell_eliminated ia w
         else queue_broadcast (pair_line a b @ '' TIE'') w)"

definition resolve_round :: "World \<Rightarrow> World" where
  "resolve_round w =
     (case build_pairs w (MAX_PLAYERS div 2) of (pairs, bye_index) \<Rightarrow>
        let w = fold resolve_pair pairs w;
            w = (case bye_index of None \<Rightarrow> w
                 | Some i \<Rightarrow> queue_broadcast (''BYE '' @ p_name (players w i)) w);
            w = for_upto MAX_PLAYERS (\<lambda>i. upd_player i (\<lambda>p. p\<lparr>p_in_round := False\<rparr>)) w;
            w = broadcast_positions w
        in if active_alive_count w \<le> 1 then end_game w
           else if all_alive_same_choice w then begin_repicks w
           else start_active_round w)"

end
