(* ===== verification/Engine_Inv.thy ===== *)
theory Engine_Inv
  imports ServerState
begin

text \<open>
  The contract between the broadcasting functions and what they preserve. An invariant that
  survives the primitive state changes of the engine (a queued line, a dropped slot, a reading
  of the clock, the start of a round, the end of the game, ...) survives every composed function
  and the recursion through \<open>reevaluate_state\<close>. The locale proves this once; the components
  interpret it with their own invariants.
\<close>

section \<open>What the elementary operations do\<close>

text \<open>A queued line is appended to the output buffer of one slot and fits into it.\<close>

definition append_out :: "nat \<Rightarrow> string \<Rightarrow> World \<Rightarrow> World" where
  "append_out i bytes w = upd_player i (\<lambda>p. p\<lparr>p_outbuf := p_outbuf p @ bytes\<rparr>) w"

definition fits_out :: "nat \<Rightarrow> string \<Rightarrow> World \<Rightarrow> bool" where
  "fits_out i bytes w \<longleftrightarrow> length (p_outbuf (players w i)) + length bytes \<le> OUTBUF_SIZE"

lemma upd_player_id [simp]: "upd_player i (\<lambda>_. players w i) w = w"
  by (simp add: upd_player_def)

lemma upd_player_same: "f (players w i) = g (players w i) \<Longrightarrow> upd_player i f w = upd_player i g w"
  by (simp add: upd_player_def)

lemma queue_line_cases:
  obtains "queue_line t p = (Failure, p)"
  | "queue_line t p = (Success, p\<lparr>p_outbuf := p_outbuf p @ t @ [newline]\<rparr>)"
    "length (p_outbuf p) + length (t @ [newline]) \<le> OUTBUF_SIZE"
proof (cases "MAX_LINE - 2 \<le> length t \<or> OUTBUF_SIZE < length (p_outbuf p) + length (t @ [newline])")
  case True
  then show ?thesis using that(1) by (auto simp: queue_line_def Let_def)
next
  case False
  then show ?thesis using that(2) by (auto simp: queue_line_def Let_def)
qed

lemma queue_line_checked_cases:
  obtains "queue_line_checked t p = (Failure, p)"
  | "queue_line_checked t p = (Success, p\<lparr>p_outbuf := p_outbuf p @ cstr t @ [newline]\<rparr>)"
    "length (p_outbuf p) + length (cstr t @ [newline]) \<le> OUTBUF_SIZE"
proof (cases "MAX_LINE \<le> length t")
  case True
  then show ?thesis using that(1) by (simp add: queue_line_checked_def)
next
  case False
  then have eq: "queue_line_checked t p = queue_line (cstr t) p" by (simp add: queue_line_checked_def)
  show ?thesis
  proof (cases "cstr t" p rule: queue_line_cases)
    case 1
    then show ?thesis using that(1) eq by simp
  next
    case 2
    then show ?thesis using that(2) eq by simp
  qed
qed

lemma queue_to_cases:
  obtains "queue_to i t w = (Failure, w)"
  | "queue_to i t w = (Success, append_out i (cstr t @ [newline]) w)" "fits_out i (cstr t @ [newline]) w"
proof (cases t "players w i" rule: queue_line_checked_cases)
  case 1
  then show ?thesis using that(1) by (simp add: queue_to_def)
next
  case 2
  then have "queue_to i t w = (Success, append_out i (cstr t @ [newline]) w)"
    unfolding queue_to_def append_out_def by (simp add: upd_player_def)
  with 2 show ?thesis using that(2) by (simp add: fits_out_def)
qed

section \<open>The contract\<close>

locale engine_inv =
  fixes I :: "World \<Rightarrow> bool"
  assumes inv_out: "I w \<Longrightarrow> fits_out i bytes w \<Longrightarrow> I (append_out i bytes w)"
    and inv_drop: "I w \<Longrightarrow> I (drop_slot i w)"
    and inv_tick: "I w \<Longrightarrow> I (time_tick w)"
begin

lemma queue_to_inv: "I w \<Longrightarrow> I (snd (queue_to i t w))"
  by (cases i t w rule: queue_to_cases) (auto intro: inv_out)

lemma and_then_inv: "I (snd r) \<Longrightarrow> (\<And>w. I w \<Longrightarrow> I (snd (f w))) \<Longrightarrow> I (snd (and_then r f))"
  by (cases r; cases "fst r") (auto simp: and_then_def)

lemma queue_game_over_result_inv: "I w \<Longrightarrow> I (snd (queue_game_over_result i w))"
  by (auto simp: queue_game_over_result_def Let_def intro: queue_to_inv)

lemma queue_phase_lines_inv: "I w \<Longrightarrow> I (snd (queue_phase_lines dst w))"
  by (cases "phase w")
    (auto simp: queue_phase_lines_def intro!: and_then_inv queue_to_inv inv_tick queue_game_over_result_inv)

lemma queue_player_lines_inv: "I w \<Longrightarrow> I (snd (queue_player_lines dst w))"
  unfolding queue_player_lines_def
  by (rule for_upto_inv [where I = "\<lambda>r. I (snd r)"], simp, rule and_then_inv) (auto intro: queue_to_inv)

lemma queue_game_state_for_player_inv: "I w \<Longrightarrow> I (snd (queue_game_state_for_player dst w))"
  unfolding queue_game_state_for_player_def
  by (intro and_then_inv queue_to_inv queue_phase_lines_inv queue_player_lines_inv)

lemma queue_reset_lines_inv: "I w \<Longrightarrow> I (snd (queue_reset_lines i w))"
  unfolding queue_reset_lines_def by (intro and_then_inv queue_to_inv)

lemma queue_line_inv:
  "I w \<Longrightarrow> queue_line t (players w i) = (r, p) \<Longrightarrow> I (upd_player i (\<lambda>_. p) w)"
proof (cases t "players w i" rule: queue_line_cases)
  case 2
  assume w: "I w" and q: "queue_line t (players w i) = (r, p)"
  have "upd_player i (\<lambda>_. p) w = append_out i (t @ [newline]) w"
    using 2 q by (simp add: append_out_def upd_player_def)
  moreover have "fits_out i (t @ [newline]) w" using 2 by (simp add: fits_out_def)
  ultimately show ?thesis using w by (simp add: inv_out)
qed auto

lemma broadcast_loop_inv: "I w \<Longrightarrow> I (fst (broadcast_loop line w))"
  unfolding broadcast_loop_def
  by (rule for_upto_inv [where I = "\<lambda>r. I (fst r)"])
    (auto split: prod.splits status.splits intro: queue_line_inv)

lemma fold_drop_inv: "I w \<Longrightarrow> I (fold drop_slot is w)"
  by (rule fold_inv) (auto intro: inv_drop)

lemma queue_broadcast_with_inv:
  "(\<And>w. I w \<Longrightarrow> I (re w)) \<Longrightarrow> I w \<Longrightarrow> I (queue_broadcast_with re t w)"
  using broadcast_loop_inv [of w "cstr (snprintf_str MAX_LINE t)"]
  by (auto simp: queue_broadcast_with_def Let_def fold_drop_inv split: prod.splits)

lemma status_case_inv:
  "I (snd r) \<Longrightarrow> I (case r of (Success, w') \<Rightarrow> w' | (Failure, w') \<Rightarrow> drop_slot i w')"
  by (cases r; cases "fst r") (auto intro: inv_drop)

lemma state_loop_inv: "I w \<Longrightarrow> I (fst (state_loop w))"
proof -
  assume w: "I w"
  have step: "I (fst (case queue_game_state_for_player i v of
      (Success, w') \<Rightarrow> (w', d) | (Failure, w') \<Rightarrow> (drop_slot i w', True)))" if "I v" for i v d
  proof -
    obtain r v' where q: "queue_game_state_for_player i v = (r, v')" by fastforce
    have "I v'" using queue_game_state_for_player_inv [OF that, of i] q by simp
    then show ?thesis by (cases r) (simp_all add: q inv_drop)
  qed
  show ?thesis
    unfolding state_loop_def
    by (rule for_upto_inv [where I = "\<lambda>r. I (fst r)"]) (use w step in \<open>auto split del: prod.splits\<close>)
qed

lemma broadcast_game_state_with_inv:
  "(\<And>w. I w \<Longrightarrow> I (re w)) \<Longrightarrow> I w \<Longrightarrow> I (broadcast_game_state_with re w)"
  using state_loop_inv [of w] by (auto simp: broadcast_game_state_with_def split: prod.splits)

lemma broadcast_positions_with_inv:
  "(\<And>w. I w \<Longrightarrow> I (re w)) \<Longrightarrow> I w \<Longrightarrow> I (broadcast_positions_with re w)"
  unfolding broadcast_positions_with_def by (rule for_upto_inv) (auto intro: queue_broadcast_with_inv)

lemma drop_player_with_inv:
  "(\<And>w. I w \<Longrightarrow> I (re w)) \<Longrightarrow> I w \<Longrightarrow> I (drop_player_with re i announce w)"
  by (auto simp: drop_player_with_def Let_def
      intro!: broadcast_game_state_with_inv queue_broadcast_with_inv inv_drop)

end

text \<open>The contract of the whole recursion: the phase changes too preserve the invariant.\<close>

locale engine_phase_inv = engine_inv +
  assumes inv_start_round: "I w \<Longrightarrow> I (start_round w)"
    and inv_game_over: "I w \<Longrightarrow> I (w\<lparr>phase := PHASE_GAME_OVER\<rparr>)"
    and inv_lobby_reset:
      "I w \<Longrightarrow> phase w = PHASE_LOBBY_OPEN \<Longrightarrow> admitted_count w = 0 \<Longrightarrow> I (w\<lparr>join_deadline := 0\<rparr>)"
    and inv_apply_repicks:
      "I w \<Longrightarrow> phase w = PHASE_REPICK \<Longrightarrow> all_alive_repicked w \<Longrightarrow>
       I (for_upto MAX_PLAYERS (\<lambda>i. upd_player i apply_repick) w)"
begin

lemma end_game_inv: "I w \<Longrightarrow> I (end_game w)"
  unfolding end_game_def
  by (rule for_upto_inv)
    (auto intro!: inv_game_over status_case_inv queue_game_over_result_inv)

lemma start_active_round_with_inv:
  "(\<And>w. I w \<Longrightarrow> I (re w)) \<Longrightarrow> I w \<Longrightarrow> I (start_active_round_with re w)"
  by (auto simp: start_active_round_with_def Let_def
      intro!: broadcast_positions_with_inv queue_broadcast_with_inv inv_start_round)

lemma finish_repicks_with_inv:
  "(\<And>w. I w \<Longrightarrow> I (re w)) \<Longrightarrow> I w \<Longrightarrow> phase w = PHASE_REPICK \<Longrightarrow> all_alive_repicked w \<Longrightarrow>
   I (finish_repicks_with re w)"
  by (auto simp: finish_repicks_with_def Let_def
      intro!: start_active_round_with_inv broadcast_positions_with_inv queue_broadcast_with_inv
        inv_apply_repicks)

lemma reevaluate_with_inv: "(\<And>w. I w \<Longrightarrow> I (re w)) \<Longrightarrow> I w \<Longrightarrow> I (reevaluate_with re w)"
  by (cases "phase w")
    (auto simp: reevaluate_with_def reevaluate_lobby_open_def reevaluate_setup_with_def
      reevaluate_repick_with_def reevaluate_round_active_def
      intro: inv_lobby_reset end_game_inv start_active_round_with_inv finish_repicks_with_inv)

lemma reevaluate_fuel_inv: "I w \<Longrightarrow> I (reevaluate_fuel n w)"
  by (induction n arbitrary: w) (auto intro: reevaluate_with_inv)

lemma reevaluate_state_inv: "I w \<Longrightarrow> I (reevaluate_state w)"
  by (simp add: reevaluate_state_def reevaluate_fuel_inv del: reevaluate_fuel.simps)

end

text \<open>
  What the handlers and the connections need of the engine: an assertion kept by its elementary
  steps and by the phase changes as a whole.
\<close>

locale reeval_inv = engine_inv +
  assumes reevaluate_state_inv: "I w \<Longrightarrow> I (reevaluate_state w)"
    and finish_repicks_inv: "I w \<Longrightarrow> phase w = PHASE_REPICK \<Longrightarrow> all_alive_repicked w \<Longrightarrow> I (finish_repicks w)"
begin

lemma queue_broadcast_inv: "I w \<Longrightarrow> I (queue_broadcast t w)"
  unfolding queue_broadcast_def by (intro queue_broadcast_with_inv reevaluate_state_inv)

lemma broadcast_game_state_inv: "I w \<Longrightarrow> I (broadcast_game_state w)"
  unfolding broadcast_game_state_def by (intro broadcast_game_state_with_inv reevaluate_state_inv)

lemma broadcast_positions_inv: "I w \<Longrightarrow> I (broadcast_positions w)"
  unfolding broadcast_positions_def by (intro broadcast_positions_with_inv reevaluate_state_inv)

lemma drop_player_inv: "I w \<Longrightarrow> I (drop_player i announce w)"
  unfolding drop_player_def by (intro drop_player_with_inv reevaluate_state_inv)

lemma queue_or_drop_inv: "I w \<Longrightarrow> I (snd (queue_or_drop i t w))"
  by (cases i t w rule: queue_to_cases)
    (auto simp: queue_or_drop_def intro: inv_out reevaluate_state_inv inv_drop)

end

text \<open>
  The contract the server's invariants meet: the phase changes happen only after the lobby. The
  engine never returns to the lobby, so this contract for \<open>I\<close> is the previous one for \<open>I\<close>
  outside the lobby; inside it \<open>reevaluate_state\<close> only resets the join deadline.
\<close>

locale engine_step_inv = engine_inv +
  assumes step_start_round: "I w \<Longrightarrow> phase w \<noteq> PHASE_LOBBY_OPEN \<Longrightarrow> I (start_round w)"
    and step_game_over: "I w \<Longrightarrow> phase w \<noteq> PHASE_LOBBY_OPEN \<Longrightarrow> I (w\<lparr>phase := PHASE_GAME_OVER\<rparr>)"
    and step_lobby_reset:
      "I w \<Longrightarrow> phase w = PHASE_LOBBY_OPEN \<Longrightarrow> admitted_count w = 0 \<Longrightarrow> I (w\<lparr>join_deadline := 0\<rparr>)"
    and step_apply_repicks:
      "I w \<Longrightarrow> phase w = PHASE_REPICK \<Longrightarrow> all_alive_repicked w \<Longrightarrow>
       I (for_upto MAX_PLAYERS (\<lambda>i. upd_player i apply_repick) w)"

lemma phase_append_out [simp]: "phase (append_out i t w) = phase w"
  by (simp add: append_out_def)

lemma phase_drop_slot [simp]: "phase (drop_slot i w) = phase w"
  by (simp add: drop_slot_def)

lemma phase_for_upto_upd [simp]: "phase (for_upto n (\<lambda>i. upd_player i f) w) = phase w"
  by (induction n) (simp_all add: for_upto_Suc)

lemma phase_start_round [simp]: "phase (start_round w) = PHASE_ROUND_ACTIVE"
  by (simp add: start_round_def Let_def)

sublocale engine_step_inv \<subseteq> started: engine_phase_inv "\<lambda>w. I w \<and> phase w \<noteq> PHASE_LOBBY_OPEN"
  by unfold_locales
    (auto intro: inv_out inv_drop inv_tick step_start_round step_game_over step_apply_repicks)

context engine_step_inv
begin

lemma step_reevaluate: "I w \<Longrightarrow> I (reevaluate_state w)"
proof (cases "phase w = PHASE_LOBBY_OPEN")
  case True
  assume "I w"
  with True show ?thesis
    by (auto simp: reevaluate_state_def reevaluate_with_def reevaluate_lobby_open_def intro: step_lobby_reset)
next
  case False
  assume "I w"
  with False started.reevaluate_state_inv [of w] show ?thesis by blast
qed

lemma end_game_inv: "I w \<Longrightarrow> phase w \<noteq> PHASE_LOBBY_OPEN \<Longrightarrow> I (end_game w)"
  using started.end_game_inv [of w] by blast

lemma started_reevaluate:
  "I w \<and> phase w \<noteq> PHASE_LOBBY_OPEN \<Longrightarrow>
   I (reevaluate_state w) \<and> phase (reevaluate_state w) \<noteq> PHASE_LOBBY_OPEN"
  by (rule started.reevaluate_state_inv)

lemma start_active_round_inv: "I w \<Longrightarrow> phase w \<noteq> PHASE_LOBBY_OPEN \<Longrightarrow> I (start_active_round w)"
  using started.start_active_round_with_inv [of reevaluate_state w, OF started_reevaluate]
  by (simp add: start_active_round_def)

lemma step_finish_repicks:
  "I w \<Longrightarrow> phase w = PHASE_REPICK \<Longrightarrow> all_alive_repicked w \<Longrightarrow> I (finish_repicks w)"
  using started.finish_repicks_with_inv [of reevaluate_state w, OF started_reevaluate]
  by (simp add: finish_repicks_def)

end

sublocale engine_step_inv \<subseteq> reeval_inv
  by unfold_locales (auto intro: step_reevaluate step_finish_repicks)

text \<open>The engine never returns to the lobby, and never leaves it by itself.\<close>

interpretation started_phase: engine_phase_inv "\<lambda>w. phase w \<noteq> PHASE_LOBBY_OPEN"
  by unfold_locales auto

interpretation lobby_phase: engine_step_inv "\<lambda>w. phase w = PHASE_LOBBY_OPEN"
  by unfold_locales auto

end
