(* ===== verification/Recursion.thy ===== *)
theory Recursion
  imports Engine_Inv
begin

text \<open>
  The recursion between broadcasting and \<open>reevaluate_state\<close> ends, and the fuel of the model is
  enough: a nested re-evaluation happens only after a connected client has been dropped.
\<close>

section \<open>Counting players\<close>

lemma for_upto_count:
  "for_upto n (\<lambda>i c. if Q i then c + 1 else c) 0 = card {i. i < n \<and> Q i}"
proof (induction n)
  case (Suc n)
  have "{i. i < Suc n \<and> Q i} = (if Q n then insert n {i. i < n \<and> Q i} else {i. i < n \<and> Q i})"
    by (auto simp: less_Suc_eq)
  then show ?case using Suc by (simp add: for_upto_Suc)
qed simp

lemma count_players_card: "count_players P w = card {i. i < MAX_PLAYERS \<and> P (players w i)}"
  unfolding count_players_def by (rule for_upto_count)

lemma count_players_le: "count_players P w \<le> MAX_PLAYERS"
  using card_mono [of "{..<MAX_PLAYERS}" "{i. i < MAX_PLAYERS \<and> P (players w i)}"]
  by (auto simp: count_players_card)

lemma count_players_mono:
  assumes "\<And>i. i < MAX_PLAYERS \<Longrightarrow> P (players v i) \<Longrightarrow> Q (players w i)"
  shows "count_players P v \<le> count_players Q w"
  unfolding count_players_card using assms by (intro card_mono) auto

lemma count_players_cong:
  assumes "\<And>i. i < MAX_PLAYERS \<Longrightarrow> P (players v i) = Q (players w i)"
  shows "count_players P v = count_players Q w"
  unfolding count_players_card using assms by (metis (no_types, lifting))

lemma count_players_less:
  assumes "\<And>i. i < MAX_PLAYERS \<Longrightarrow> P (players v i) \<Longrightarrow> P (players w i)"
    and "k < MAX_PLAYERS" "P (players w k)" "\<not> P (players v k)"
  shows "count_players P v < count_players P w"
  unfolding count_players_card using assms by (intro psubset_card_mono) auto

section \<open>No function connects a client\<close>

lemma connected_drop_slot: "p_connected (players (drop_slot i w) j) \<longleftrightarrow> p_connected (players w j) \<and> j \<noteq> i"
  by (auto simp: drop_slot_def zero_player_def)

lemma connected_append_out [simp]: "p_connected (players (append_out i t w) j) = p_connected (players w j)"
  by (simp add: append_out_def)

lemma for_upto_upd_players:
  "players (for_upto n (\<lambda>i. upd_player i f) w) j = (if j < n then f (players w j) else players w j)"
  by (induction n) (auto simp: for_upto_Suc less_Suc_eq)

lemma for_upto_upd_frame [simp]:
  "next_id (for_upto n (\<lambda>i. upd_player i f) w) = next_id w"
  "round_no (for_upto n (\<lambda>i. upd_player i f) w) = round_no w"
  "join_deadline (for_upto n (\<lambda>i. upd_player i f) w) = join_deadline w"
  "setup_deadline (for_upto n (\<lambda>i. upd_player i f) w) = setup_deadline w"
  "round_deadline (for_upto n (\<lambda>i. upd_player i f) w) = round_deadline w"
  "time_src (for_upto n (\<lambda>i. upd_player i f) w) = time_src w"
  "time_pos (for_upto n (\<lambda>i. upd_player i f) w) = time_pos w"
  "closed_fds (for_upto n (\<lambda>i. upd_player i f) w) = closed_fds w"
  by (induction n) (simp_all add: for_upto_Suc)

lemma players_start_round:
  "players (start_round w) j = (if j < MAX_PLAYERS then start_round_player (players w j) else players w j)"
  by (simp add: start_round_def Let_def for_upto_upd_players)

lemma round_no_start_round [simp]: "round_no (start_round w) = round_no w + 1"
  and join_deadline_start_round [simp]: "join_deadline (start_round w) = join_deadline w"
  and next_id_start_round [simp]: "next_id (start_round w) = next_id w"
  by (simp_all add: start_round_def Let_def)

lemma connected_start_round_player [simp]: "p_connected (start_round_player p) = p_connected p"
  by (simp add: start_round_player_def Let_def)

lemma connected_apply_repick [simp]: "p_connected (apply_repick p) = p_connected p"
  by (simp add: apply_repick_def)

text \<open>Every function of the engine leaves a subset of the connected slots connected.\<close>

definition conn_in :: "nat set \<Rightarrow> World \<Rightarrow> bool" where
  "conn_in C w \<longleftrightarrow> (\<forall>i. p_connected (players w i) \<longrightarrow> i \<in> C)"

interpretation conn: engine_phase_inv "conn_in C" for C
  by unfold_locales
    (auto simp: conn_in_def connected_drop_slot players_start_round for_upto_upd_players split: if_splits)

abbreviation conn_set :: "World \<Rightarrow> nat set" where
  "conn_set w \<equiv> {i. p_connected (players w i)}"

lemma connected_count_mono: "conn_set v \<subseteq> conn_set w \<Longrightarrow> connected_player_count v \<le> connected_player_count w"
  unfolding connected_player_count_def by (rule count_players_mono) auto

definition shrinking :: "(World \<Rightarrow> World) \<Rightarrow> bool" where
  "shrinking re \<longleftrightarrow> (\<forall>C w. conn_in C w \<longrightarrow> conn_in C (re w))"

lemma shrinkingI: "(\<And>C w. conn_in C w \<Longrightarrow> conn_in C (re w)) \<Longrightarrow> shrinking re"
  by (simp add: shrinking_def)

lemma shrinkingD: "shrinking re \<Longrightarrow> conn_in C w \<Longrightarrow> conn_in C (re w)"
  by (simp add: shrinking_def)

lemma shrinking_count:
  assumes "shrinking re"
  shows "connected_player_count (re w) \<le> connected_player_count w"
proof -
  have "conn_in (conn_set w) (re w)" using assms by (rule shrinkingD) (simp add: conn_in_def)
  then show ?thesis by (intro connected_count_mono) (auto simp: conn_in_def)
qed

lemma shrinking_reevaluate_fuel: "shrinking (reevaluate_fuel n)"
  by (intro shrinkingI conn.reevaluate_fuel_inv)

lemma shrinking_reevaluate_state: "shrinking reevaluate_state"
  by (intro shrinkingI conn.reevaluate_state_inv)

lemma shrinking_queue_broadcast_with: "shrinking re \<Longrightarrow> shrinking (queue_broadcast_with re t)"
  by (intro shrinkingI conn.queue_broadcast_with_inv) (auto intro: shrinkingD)

lemma shrinking_broadcast_positions_with: "shrinking re \<Longrightarrow> shrinking (broadcast_positions_with re)"
  by (intro shrinkingI conn.broadcast_positions_with_inv) (auto intro: shrinkingD)

section \<open>A nested re-evaluation sees fewer clients\<close>

lemma drop_slot_count:
  assumes "i < MAX_PLAYERS" and "p_connected (players w i)"
  shows "connected_player_count (drop_slot i w) < connected_player_count w"
  unfolding connected_player_count_def
  by (rule count_players_less [of _ _ _ i]) (use assms in \<open>auto simp: connected_drop_slot\<close>)

lemma broadcast_loop_spec:
  "(\<forall>j. p_connected (players (fst (broadcast_loop t w)) j) = p_connected (players w j)) \<and>
   (\<forall>j \<in> set (snd (broadcast_loop t w)). j < MAX_PLAYERS \<and> p_connected (players w j))"
  unfolding broadcast_loop_def
proof (rule for_upto_rule [where P = "\<lambda>n r. n \<le> MAX_PLAYERS \<longrightarrow>
    (\<forall>j. p_connected (players (fst r) j) = p_connected (players w j)) \<and>
    (\<forall>j \<in> set (snd r). j < MAX_PLAYERS \<and> p_connected (players w j))", THEN mp])
  fix i and r :: "World \<times> nat list"
  let ?P = "\<lambda>r. (\<forall>j. p_connected (players (fst r) j) = p_connected (players w j)) \<and>
    (\<forall>j \<in> set (snd r). j < MAX_PLAYERS \<and> p_connected (players w j))"
  assume i: "i < MAX_PLAYERS" and P: "i \<le> MAX_PLAYERS \<longrightarrow> ?P r"
  obtain v d where r: "r = (v, d)" by fastforce
  have "?P (case r of (w, to_drop) \<Rightarrow>
       if \<not> p_connected (players w i) then (w, to_drop)
       else case queue_line t (players w i) of
              (Success, p) \<Rightarrow> (upd_player i (\<lambda>_. p) w, to_drop)
            | (Failure, p) \<Rightarrow> (w, to_drop @ [i]))"
    using P i by (cases t "players v i" rule: queue_line_cases) (auto simp: r)
  then show "Suc i \<le> MAX_PLAYERS \<longrightarrow> ?P (case r of (w, to_drop) \<Rightarrow>
       if \<not> p_connected (players w i) then (w, to_drop)
       else case queue_line t (players w i) of
              (Success, p) \<Rightarrow> (upd_player i (\<lambda>_. p) w, to_drop)
            | (Failure, p) \<Rightarrow> (w, to_drop @ [i]))" by simp
qed auto

lemma connected_fold_drop:
  "p_connected (players (fold drop_slot is w) j) \<longleftrightarrow> p_connected (players w j) \<and> j \<notin> set is"
  by (induction "is" arbitrary: w) (auto simp: connected_drop_slot)

lemma broadcast_drops_less:
  assumes "snd (broadcast_loop t w) \<noteq> []"
  shows "connected_player_count (fold drop_slot (snd (broadcast_loop t w)) (fst (broadcast_loop t w)))
    < connected_player_count w"
proof -
  obtain k where "k \<in> set (snd (broadcast_loop t w))" using assms by (meson list.set_sel(1))
  then show ?thesis
    using broadcast_loop_spec [of t w] unfolding connected_player_count_def
    by (intro count_players_less [of _ _ _ k]) (auto simp: connected_fold_drop)
qed

section \<open>The recursive equation\<close>

definition agree :: "nat \<Rightarrow> (World \<Rightarrow> World) \<Rightarrow> (World \<Rightarrow> World) \<Rightarrow> bool" where
  "agree N re re' \<longleftrightarrow> shrinking re \<and> (\<forall>w. connected_player_count w < N \<longrightarrow> re w = re' w)"

lemma queue_broadcast_with_cong:
  assumes "agree N re re'" and "connected_player_count w \<le> N"
  shows "queue_broadcast_with re t w = queue_broadcast_with re' t w"
proof -
  define r where "r = broadcast_loop (cstr (snprintf_str MAX_LINE t)) w"
  have "re (fold drop_slot (snd r) (fst r)) = re' (fold drop_slot (snd r) (fst r))" if "snd r \<noteq> []"
    using assms broadcast_drops_less [of _ w] that by (fastforce simp: agree_def r_def)
  then show ?thesis by (cases r) (simp add: queue_broadcast_with_def Let_def flip: r_def)
qed

lemma connected_count_cong:
  "(\<And>i. p_connected (players v i) = p_connected (players w i)) \<Longrightarrow>
   connected_player_count v = connected_player_count w"
  unfolding connected_player_count_def by (rule count_players_cong) simp

lemma broadcast_positions_with_cong:
  assumes "agree N re re'" and "connected_player_count w \<le> N"
  shows "broadcast_positions_with re w = broadcast_positions_with re' w"
  unfolding broadcast_positions_with_def
proof (rule for_upto_cong [where I = "\<lambda>w. connected_player_count w \<le> N"])
  fix i v
  assume v: "connected_player_count v \<le> N"
  show "(if player_is_admitted (players v i) then queue_broadcast_with re (player_line (players v i)) v else v)
      = (if player_is_admitted (players v i) then queue_broadcast_with re' (player_line (players v i)) v else v)"
    using assms(1) v by (simp add: queue_broadcast_with_cong)
  have "shrinking re" using assms(1) by (simp add: agree_def)
  from shrinking_count [OF shrinking_queue_broadcast_with [OF this], of "player_line (players v i)" v] v
  show "connected_player_count (if player_is_admitted (players v i)
      then queue_broadcast_with re (player_line (players v i)) v else v) \<le> N"
    by simp
qed (use assms in simp)

lemma start_active_round_with_cong:
  assumes a: "agree N re re'" and w: "connected_player_count w \<le> N"
  shows "start_active_round_with re w = start_active_round_with re' w"
proof -
  have s: "shrinking re" using a by (simp add: agree_def)
  have c: "connected_player_count (start_round w) = connected_player_count w"
    by (rule connected_count_cong) (simp add: players_start_round)
  have "connected_player_count (queue_broadcast_with re t (start_round w)) \<le> N" for t
    using shrinking_count [OF shrinking_queue_broadcast_with [OF s], of t "start_round w"] c w by linarith
  then show ?thesis
    using a w c by (simp add: start_active_round_with_def Let_def queue_broadcast_with_cong [of N re re']
        broadcast_positions_with_cong [of N re re'])
qed

lemma finish_repicks_with_cong:
  assumes a: "agree N re re'" and w: "connected_player_count w \<le> N"
  shows "finish_repicks_with re w = finish_repicks_with re' w"
proof -
  define v where "v = for_upto MAX_PLAYERS (\<lambda>i. upd_player i apply_repick) w"
  have s: "shrinking re" using a by (simp add: agree_def)
  have v: "connected_player_count v \<le> N"
    using w connected_count_cong [of v w] by (simp add: v_def for_upto_upd_players)
  define u where "u = queue_broadcast_with re ''REPICK_DONE'' v"
  have u: "connected_player_count u \<le> N"
    using shrinking_count [OF shrinking_queue_broadcast_with [OF s]] v order_trans
    unfolding u_def by blast
  have "connected_player_count (broadcast_positions_with re u) \<le> N"
    using shrinking_count [OF shrinking_broadcast_positions_with [OF s]] u order_trans by blast
  moreover have "queue_broadcast_with re' ''REPICK_DONE'' v = u"
    using queue_broadcast_with_cong [OF a v] by (simp add: u_def)
  ultimately show ?thesis
    using broadcast_positions_with_cong [OF a u] start_active_round_with_cong [OF a]
    by (simp add: finish_repicks_with_def Let_def v_def [symmetric] u_def [symmetric])
qed

lemma reevaluate_with_cong:
  assumes "agree N re re'" and "connected_player_count w \<le> N"
  shows "reevaluate_with re w = reevaluate_with re' w"
  using assms start_active_round_with_cong finish_repicks_with_cong
  by (auto simp: reevaluate_with_def reevaluate_setup_with_def reevaluate_repick_with_def split: Phase.split)

lemma reevaluate_fuel_Suc:
  "connected_player_count w < n \<Longrightarrow> reevaluate_fuel (Suc n) w = reevaluate_fuel n w"
proof (induction n arbitrary: w)
  case (Suc n)
  have "agree n (reevaluate_fuel (Suc n)) (reevaluate_fuel n)"
    using Suc.IH by (simp add: agree_def shrinking_reevaluate_fuel del: reevaluate_fuel.simps)
  from reevaluate_with_cong [OF this, of w] Suc.prems show ?case by simp
qed simp

lemma reevaluate_fuel_enough:
  assumes "connected_player_count w < n"
  shows "reevaluate_fuel n w = reevaluate_state w"
proof -
  have "reevaluate_fuel (Suc (connected_player_count w) + k) w = reevaluate_state w" for k
    by (induction k) (simp_all add: reevaluate_state_def reevaluate_fuel_Suc del: reevaluate_fuel.simps)
  from this [of "n - Suc (connected_player_count w)"] assms show ?thesis by simp
qed

lemma reevaluate_state_eq: "reevaluate_state w = reevaluate_with reevaluate_state w"
proof -
  let ?n = "connected_player_count w"
  have "agree ?n (reevaluate_fuel ?n) reevaluate_state"
    by (simp add: agree_def shrinking_reevaluate_fuel reevaluate_fuel_enough)
  from reevaluate_with_cong [OF this, of w] show ?thesis by (simp add: reevaluate_state_def)
qed

end
