(* ===== verification/Commands.thy ===== *)
theory Commands
  imports ServerState
begin

text \<open>
  Command ingress of \<open>src/src/server_commands.c\<close>: slot allocation, the parser of one client
  line, one handler per command, and the dispatcher. A nullable \<open>const char *\<close> is an option.
\<close>

section \<open>Parsing\<close>

text \<open>The command word (in a buffer of \<open>cmd_sz\<close> bytes) and its arguments.\<close>

definition parse_command :: "string \<Rightarrow> nat \<Rightarrow> (string \<times> string option) option" where
  "parse_command line cmd_sz =
     (if line = [] then None
      else if CHR '' '' \<notin> set line then Some (snprintf_str cmd_sz line, None)
      else
        let cmd = takeWhile (\<lambda>c. c \<noteq> CHR '' '') line;
            args = dropWhile (\<lambda>c. c = CHR '' '') (drop (length cmd) line)
        in if length cmd = 0 \<or> cmd_sz \<le> length cmd then None
           else Some (cmd, if args = [] then None else Some args))"

definition parse_rps_choice_arg :: "string option \<Rightarrow> char option" where
  "parse_rps_choice_arg arg =
     (case arg of
        Some [c] \<Rightarrow>
          let choice = to_upper c
          in if choice \<noteq> CHR ''R'' \<and> choice \<noteq> CHR ''P'' \<and> choice \<noteq> CHR ''S'' then None else Some choice
      | _ \<Rightarrow> None)"

section \<open>Helpers\<close>

text \<open>\<open>(void)queue_line(p, ...)\<close>: a full buffer loses the line.\<close>

definition say :: "nat \<Rightarrow> string \<Rightarrow> World \<Rightarrow> World" where
  "say idx text w = upd_player idx (\<lambda>p. snd (queue_line text p)) w"

definition require_registered_not_admitted :: "nat \<Rightarrow> World \<Rightarrow> bool \<times> World" where
  "require_registered_not_admitted idx w =
     (if \<not> p_registered (players w idx) then (False, say idx ''ERROR register_first'' w)
      else if p_admitted (players w idx) then (False, say idx ''ERROR already_joined'' w)
      else (True, w))"

definition queue_lobby_status_for_player :: "nat \<Rightarrow> World \<Rightarrow> World" where
  "queue_lobby_status_for_player idx w =
     (if phase w = PHASE_LOBBY_OPEN then
        let w = say idx ''CHOOSE_TYPE'' w;
            w = say idx (''CHOOSE_SPAWN '' @ int_str GRID_W @ '' '' @ int_str GRID_H) w
        in if join_deadline w = 0 then say idx ''LOBBY_WAITING'' w
           else say idx (''LOBBY_OPEN '' @ int_str (seconds_left (join_deadline w) w)) (time_tick w)
      else say idx ''LOBBY_CLOSED'' w)"

definition first_slot :: "(nat \<Rightarrow> bool) \<Rightarrow> nat option" where
  "first_slot P = find P [0..<MAX_PLAYERS]"

definition find_name :: "World \<Rightarrow> string \<Rightarrow> nat option" where
  "find_name w name =
     first_slot (\<lambda>i. player_is_registered (players w i) \<and> p_name (players w i) = name)"

definition spawn_taken :: "World \<Rightarrow> int \<Rightarrow> int \<Rightarrow> nat \<Rightarrow> bool" where
  "spawn_taken w x y ignore_idx \<longleftrightarrow>
     first_slot (\<lambda>i. i \<noteq> ignore_idx \<and> player_is_admitted (players w i) \<and>
       p_spawn_chosen (players w i) \<and>
       fp_eq (p_x (players w i)) (fp_of_int F32 x) \<and> fp_eq (p_y (players w i)) (fp_of_int F32 y))
     \<noteq> None"

definition reset_player_progress :: "Player \<Rightarrow> Player" where
  "reset_player_progress p =
     p\<lparr>p_admitted := False, p_alive := False, p_waiting := False, p_in_round := False,
       p_choice_chosen := False, p_spawn_chosen := False, p_repick_submitted := False,
       p_repick_choice := NUL, p_choice := NUL, p_x := fp_minus_one, p_y := fp_minus_one\<rparr>"

definition init_player_slot :: "int \<Rightarrow> int \<Rightarrow> Player" where
  "init_player_slot fd pid =
     zero_player\<lparr>p_fd := fd, p_id := pid, p_connected := True,
       p_x := fp_minus_one, p_y := fp_minus_one\<rparr>"

text \<open>The index of the slot given to the new connection, if any was free.\<close>

definition add_player :: "int \<Rightarrow> World \<Rightarrow> nat option \<times> World" where
  "add_player fd w =
     (case first_slot (\<lambda>i. \<not> p_connected (players w i)) of
        None \<Rightarrow> (None, w)
      | Some i \<Rightarrow>
          (Some i, upd_player i (\<lambda>_. init_player_slot fd (next_id w)) (w\<lparr>next_id := next_id w + 1\<rparr>)))"

section \<open>Handlers\<close>

definition scan_name :: "string option \<Rightarrow> string option" where
  "scan_name args =
     (case args of None \<Rightarrow> None
      | Some s \<Rightarrow> (case sscanf ''%31s'' s of [VStr name] \<Rightarrow> Some name | _ \<Rightarrow> None))"

definition register_player :: "string \<Rightarrow> Player \<Rightarrow> Player" where
  "register_player name p =
     reset_player_progress (p\<lparr>p_name := snprintf_str MAX_NAME_LENGTH name, p_registered := True\<rparr>)"

definition handle_hello_command :: "nat \<Rightarrow> string option \<Rightarrow> World \<Rightarrow> World" where
  "handle_hello_command idx args w =
     (if p_registered (players w idx) then say idx ''ERROR already_registered'' w
      else case scan_name args of
        None \<Rightarrow> say idx ''ERROR usage_HELLO_name'' w
      | Some name \<Rightarrow>
          if find_name w name \<noteq> None then say idx ''ERROR duplicate_name'' w
          else
            let w = upd_player idx (register_player name) w;
                w = say idx (''WELCOME '' @ int_str (p_id (players w idx))) w;
                w = say idx ''SPECTATING'' w
            in queue_lobby_status_for_player idx w)"

definition handle_choice_command :: "nat \<Rightarrow> string option \<Rightarrow> World \<Rightarrow> World" where
  "handle_choice_command idx args w =
     (case require_registered_not_admitted idx w of
        (False, w) \<Rightarrow> w
      | (True, w) \<Rightarrow>
          (case parse_rps_choice_arg args of
             None \<Rightarrow> say idx ''ERROR bad_choice'' w
           | Some choice \<Rightarrow>
               let w = upd_player idx (\<lambda>p. p\<lparr>p_choice := choice, p_choice_chosen := True\<rparr>) w;
                   w = say idx (''CHOICE_OK '' @ [choice]) w
               in maybe_admit_player idx w))"

definition scan_spawn :: "string option \<Rightarrow> (fp \<times> fp) option" where
  "scan_spawn args =
     (case args of None \<Rightarrow> None
      | Some s \<Rightarrow> (case sscanf ''%f %f'' s of [VFlt x, VFlt y] \<Rightarrow> Some (x, y) | _ \<Rightarrow> None))"

definition spawn_off_grid :: "fp \<Rightarrow> fp \<Rightarrow> bool" where
  "spawn_off_grid x y \<longleftrightarrow>
     fp_lt x fp_zero \<or> fp_le (fp_of_int F32 GRID_W) x \<or>
     fp_lt y fp_zero \<or> fp_le (fp_of_int F32 GRID_H) y"

definition handle_spawn_command :: "nat \<Rightarrow> string option \<Rightarrow> World \<Rightarrow> World" where
  "handle_spawn_command idx args w =
     (case require_registered_not_admitted idx w of
        (False, w) \<Rightarrow> w
      | (True, w) \<Rightarrow>
          (case scan_spawn args of
             None \<Rightarrow> say idx ''ERROR usage_SPAWN_x_y'' w
           | Some (x, y) \<Rightarrow>
               if spawn_off_grid x y then say idx ''ERROR bad_spawn'' w
               else if spawn_taken w (fp_to_int x) (fp_to_int y) idx then
                 say idx ''ERROR spawn_taken'' w
               else
                 let w = upd_player idx (\<lambda>p. p\<lparr>p_x := x, p_y := y, p_spawn_chosen := True\<rparr>) w;
                     w = say idx (''SPAWN_OK '' @ fixed_str 1 x @ '' '' @ fixed_str 1 y) w
                 in maybe_admit_player idx w))"

definition handle_repick_command :: "nat \<Rightarrow> string option \<Rightarrow> World \<Rightarrow> World" where
  "handle_repick_command idx args w =
     (let p = players w idx
      in if phase w \<noteq> PHASE_REPICK then say idx ''ERROR not_in_repick_phase'' w
         else if \<not> p_registered p \<or> \<not> p_admitted p \<or> \<not> p_alive p then say idx ''ERROR not_alive'' w
         else if p_repick_submitted p then say idx ''ERROR already_repicked'' w
         else case parse_rps_choice_arg args of
           None \<Rightarrow> say idx ''ERROR bad_choice'' w
         | Some choice \<Rightarrow>
             let w = upd_player idx (\<lambda>p. p\<lparr>p_repick_choice := choice, p_repick_submitted := True\<rparr>) w;
                 w = say idx (''REPICK_OK '' @ [choice]) w
             in if all_alive_repicked w then finish_repicks w else say idx ''REPICK_WAITING'' w)"

definition handle_get_state_command :: "nat \<Rightarrow> World \<Rightarrow> World" where
  "handle_get_state_command idx w =
     (case queue_game_state_for_player idx w of
        (Success, w') \<Rightarrow> w'
      | (Failure, w') \<Rightarrow> reevaluate_state (drop_player idx False w'))"

definition handle_rematch_command :: "nat \<Rightarrow> World \<Rightarrow> World" where
  "handle_rematch_command idx w =
     (if phase w \<noteq> PHASE_GAME_OVER then say idx ''ERROR rematch_not_available'' w
      else reset_match w)"

definition handle_quit_command :: "nat \<Rightarrow> World \<Rightarrow> World" where
  "handle_quit_command idx w = reevaluate_state (drop_player idx True w)"

definition handle_command :: "nat \<Rightarrow> string \<Rightarrow> World \<Rightarrow> World" where
  "handle_command idx line w =
     (case parse_command line 16 of
        None \<Rightarrow> say idx ''ERROR bad_command'' w
      | Some (cmd, args) \<Rightarrow>
          if cmd = ''HELLO'' then handle_hello_command idx args w
          else if cmd = ''GET_STATE'' then handle_get_state_command idx w
          else if cmd = ''CHOICE'' then handle_choice_command idx args w
          else if cmd = ''SPAWN'' then handle_spawn_command idx args w
          else if cmd = ''REPICK'' then handle_repick_command idx args w
          else if cmd = ''REMATCH'' then handle_rematch_command idx w
          else if cmd = ''QUIT'' then handle_quit_command idx w
          else say idx ''ERROR bad_command'' w)"

end
