(* ===== verification/Server.thy ===== *)
theory Server
  imports Commands
begin

text \<open>
  The event loop of \<open>src/src/server.c\<close>. One iteration takes what the operating system did in it:
  which descriptors \<open>select\<close> reported readable and writable, what \<open>accept\<close> and the
  non-blocking switch returned, what each \<open>recv\<close> and \<open>send\<close> returned, and the time. Around
  the loop are the creation of the listening socket and the ends of the process.
\<close>

section \<open>One iteration\<close>

record Event =
  ev_readable :: "int \<Rightarrow> bool"
  ev_writable :: "int \<Rightarrow> bool"
  ev_accept :: "int option"
  ev_getfl :: int
  ev_setfl :: "int \<Rightarrow> int"
  ev_refuse :: "nat \<Rightarrow> send_result"
  ev_recv :: "nat \<Rightarrow> recv_result"
  ev_send :: "nat \<Rightarrow> nat \<Rightarrow> send_result"
  ev_now :: "int \<times> int"

text \<open>The time as \<open>timespec_get\<close> stored it, in seconds.\<close>

fun now_seconds :: "int \<times> int \<Rightarrow> fp" where
  "now_seconds (sec, nsec) =
     fp_add F64 (fp_of_int F64 sec) (fp_mul F64 (fp_of_int F64 nsec) (fp_lit F64 1 1000000000))"

definition CHASE_TICK_SECONDS :: fp where
  "CHASE_TICK_SECONDS = fp_lit F64 16667 1000000"

text \<open>The read set, the write set and \<open>maxfd\<close>.\<close>

definition build_select_sets :: "int \<Rightarrow> World \<Rightarrow> int list \<times> int list \<times> int" where
  "build_select_sets listen_fd w =
     for_upto MAX_PLAYERS (\<lambda>i (readfds, writefds, maxfd).
       if \<not> p_connected (players w i) then (readfds, writefds, maxfd)
       else (readfds @ [p_fd (players w i)],
             if player_has_pending_output (players w i) then writefds @ [p_fd (players w i)] else writefds,
             if maxfd < p_fd (players w i) then p_fd (players w i) else maxfd))
       ([listen_fd], [], listen_fd)"

text \<open>\<open>saw_client\<close> of the iteration, the new state. A refused connection is closed.\<close>

definition accept_new_clients :: "int \<Rightarrow> Event \<Rightarrow> World \<Rightarrow> bool \<times> World" where
  "accept_new_clients listen_fd ev w =
     (if \<not> ev_readable ev listen_fd then (False, w)
      else case ev_accept ev of
        None \<Rightarrow> (False, w)
      | Some client_fd \<Rightarrow>
          if net_set_nonblocking (ev_getfl ev) (ev_setfl ev) = Failure then (False, w\<lparr>closed_fds := client_fd # closed_fds w\<rparr>)
          else case add_player client_fd w of
            (Some idx, w) \<Rightarrow>
              (True, case queue_line ''INFO connected_send_HELLO_name'' (players w idx) of
                 (Success, p) \<Rightarrow> upd_player idx (\<lambda>_. p) w
               | (Failure, p) \<Rightarrow> drop_player idx False w)
          | (None, w) \<Rightarrow> (False, w\<lparr>closed_fds := client_fd # closed_fds w\<rparr>))"

text \<open>The bytes put on the connection that is refused because every slot is taken.\<close>

definition refused_output :: "int \<Rightarrow> Event \<Rightarrow> World \<Rightarrow> string" where
  "refused_output listen_fd ev w =
     (case ev_accept ev of
        None \<Rightarrow> []
      | Some client_fd \<Rightarrow>
          if ev_readable ev listen_fd \<and> net_set_nonblocking (ev_getfl ev) (ev_setfl ev) = Success \<and>
             fst (add_player client_fd w) = None
          then snd (send_line (ev_refuse ev) ''ERROR server_full'') else [])"

text \<open>
  \<open>while (pop_line(...)) handle_command(...)\<close>. Every iteration pops at least one byte and no
  handler appends to an input buffer, so the length of the buffer is enough fuel
  (\<open>drain_lines_while\<close> in \<open>Server_Props\<close>).
\<close>

primrec drain_lines :: "nat \<Rightarrow> nat \<Rightarrow> World \<Rightarrow> World" where
  "drain_lines 0 i w = w"
| "drain_lines (Suc fuel) i w =
     (case pop_line MAX_LINE (p_inbuf (players w i)) of
        None \<Rightarrow> w
      | Some (line, rest) \<Rightarrow>
          drain_lines fuel i
            (handle_command i (cstr line) (upd_player i (\<lambda>p. p\<lparr>p_inbuf := rest\<rparr>) w)))"

definition process_read :: "Event \<Rightarrow> nat \<Rightarrow> World \<Rightarrow> World" where
  "process_read ev i w =
     (if \<not> p_connected (players w i) then w
      else if \<not> ev_readable ev (p_fd (players w i)) then w
      else case read_into_player_buffer (ev_recv ev i) (players w i) of (rc, p) \<Rightarrow>
        let w = upd_player i (\<lambda>_. p) w
        in if read_failed rc then reevaluate_state (drop_player i True w)
           else drain_lines (length (p_inbuf (players w i))) i w)"

definition process_player_reads :: "Event \<Rightarrow> World \<Rightarrow> World" where
  "process_player_reads ev w = for_upto MAX_PLAYERS (process_read ev) w"

definition process_write :: "Event \<Rightarrow> nat \<Rightarrow> World \<Rightarrow> World" where
  "process_write ev i w =
     (if \<not> p_connected (players w i) then w
      else if \<not> ev_writable ev (p_fd (players w i)) then w
      else case flush_player_output (ev_send ev i) (players w i) of (rc, p) \<Rightarrow>
        let w = upd_player i (\<lambda>_. p) w
        in if rc = FlushError then reevaluate_state (drop_player i True w) else w)"

definition process_player_writes :: "Event \<Rightarrow> World \<Rightarrow> World" where
  "process_player_writes ev w = for_upto MAX_PLAYERS (process_write ev) w"

text \<open>The loop's variables: the state, \<open>last_chase_tick\<close> and \<open>saw_client\<close>.\<close>

record Loop =
  lp_state :: World
  lp_last_chase_tick :: fp
  lp_saw_client :: bool

definition server_iteration :: "int \<Rightarrow> Event \<Rightarrow> Loop \<Rightarrow> Loop" where
  "server_iteration listen_fd ev l =
     (case accept_new_clients listen_fd ev (lp_state l) of (saw, w) \<Rightarrow>
        let w = process_player_writes ev (process_player_reads ev w)
        in case advance_match_timers (now_seconds (ev_now ev)) CHASE_TICK_SECONDS (w, lp_last_chase_tick l) of
          (w, tick) \<Rightarrow> \<lparr>lp_state = w, lp_last_chase_tick = tick, lp_saw_client = lp_saw_client l \<or> saw\<rparr>)"

text \<open>With \<open>RPS_TEST_AUTO_EXIT\<close> set, the loop ends once a client has come and none is left.\<close>

definition auto_exit :: "bool \<Rightarrow> Loop \<Rightarrow> bool" where
  "auto_exit auto_exit_for_tests l \<longleftrightarrow>
     auto_exit_for_tests \<and> lp_saw_client l \<and> connected_player_count (lp_state l) = 0"

text \<open>The variables before the loop.\<close>

definition server_start :: "(nat \<Rightarrow> int) \<Rightarrow> int \<times> int \<Rightarrow> Loop" where
  "server_start clock now =
     \<lparr>lp_state = init_server_state clock, lp_last_chase_tick = now_seconds now, lp_saw_client = False\<rparr>"

section \<open>The process\<close>

text \<open>What the calls that make the listening socket return.\<close>

record ListenCalls =
  lc_socket :: int
  lc_setsockopt :: int
  lc_getfl :: int
  lc_setfl :: "int \<Rightarrow> int"
  lc_bind :: "16 word \<Rightarrow> int"
  lc_listen :: "int \<Rightarrow> int"

text \<open>The socket, or the message of \<open>fatal\<close>.\<close>

definition create_listen_socket :: "ListenCalls \<Rightarrow> string + int" where
  "create_listen_socket calls =
     (let listen_fd = lc_socket calls
      in if listen_fd = INVALID_SOCKET then Inl ''socket''
         else if lc_setsockopt calls < 0 then Inl ''setsockopt''
         else if net_set_nonblocking (lc_getfl calls) (lc_setfl calls) = Failure then Inl ''set_nonblocking''
         else if lc_bind calls (sin_port PORT) < 0 then Inl ''bind''
         else if lc_listen calls 16 < 0 then Inl ''listen''
         else Inr listen_fd)"

text \<open>The variable \<open>RPS_TEST_AUTO_EXIT\<close>, as \<open>getenv\<close> returned it.\<close>

definition auto_exit_setting :: "string option \<Rightarrow> bool" where
  "auto_exit_setting env = (case env of None \<Rightarrow> False | Some v \<Rightarrow> v \<noteq> [] \<and> hd v \<noteq> CHR ''0'')"

text \<open>
  What \<open>select\<close> did: a signal interrupted it, it failed, or it returned and the iteration's
  event is the rest. It only reports descriptors of the sets it was given, up to \<open>maxfd\<close>.
\<close>

datatype wait_outcome = WaitInterrupted | WaitFailed | WaitReady Event

definition selected :: "int \<Rightarrow> World \<Rightarrow> Event \<Rightarrow> Event" where
  "selected listen_fd w ev =
     (case build_select_sets listen_fd w of (readfds, writefds, maxfd) \<Rightarrow>
        ev\<lparr>ev_readable := \<lambda>fd. fd \<in> set readfds \<and> fd < maxfd + 1 \<and> ev_readable ev fd,
           ev_writable := \<lambda>fd. fd \<in> set writefds \<and> fd < maxfd + 1 \<and> ev_writable ev fd\<rparr>)"

text \<open>
  How the server stands after a list of outcomes of \<open>select\<close>: ended by \<open>fatal\<close> with status 1,
  still in its loop, or ended with status 0 and its socket closed.
\<close>

datatype server_outcome = ServerFatal string | ServerRunning Loop | ServerExited Loop

fun server_loop :: "bool \<Rightarrow> int \<Rightarrow> wait_outcome list \<Rightarrow> Loop \<Rightarrow> server_outcome" where
  "server_loop auto listen_fd [] l = ServerRunning l"
| "server_loop auto listen_fd (WaitInterrupted # os) l = server_loop auto listen_fd os l"
| "server_loop auto listen_fd (WaitFailed # os) l = ServerFatal ''select''"
| "server_loop auto listen_fd (WaitReady ev # os) l =
     (let l = server_iteration listen_fd (selected listen_fd (lp_state l) ev) l
      in if auto_exit auto l
         then ServerExited (l\<lparr>lp_state := (lp_state l)\<lparr>closed_fds := listen_fd # closed_fds (lp_state l)\<rparr>\<rparr>)
         else server_loop auto listen_fd os l)"

definition server_process ::
  "ListenCalls \<Rightarrow> string option \<Rightarrow> (nat \<Rightarrow> int) \<Rightarrow> int \<times> int \<Rightarrow> wait_outcome list \<Rightarrow> server_outcome" where
  "server_process calls env clock now os =
     (case create_listen_socket calls of
        Inl msg \<Rightarrow> ServerFatal msg
      | Inr listen_fd \<Rightarrow> server_loop (auto_exit_setting env) listen_fd os (server_start clock now))"

end
