(* ===== verification/Server_Contract.thy ===== *)
theory Server_Contract
  imports Recursion Server
begin

text \<open>
  The contract of a server invariant: what the command handlers, the timers and the event loop
  do to the state beyond the engine. \<open>command_inv\<close> extends \<open>reeval_inv\<close> with the direct
  updates of the handlers, \<open>transport_inv\<close> and \<open>loop_inv\<close> with those of the connections, \<open>timer_inv\<close>
  extends \<open>engine_step_inv\<close>, and \<open>server_inv\<close> joins the two; the conclusions are that every
  command, every iteration and every run preserve the invariant.
\<close>

section \<open>Frame: what the engine leaves alone\<close>

text \<open>
  Against an earlier state \<open>w0\<close>, a slot still connected was connected and kept its identity and
  its setup; an input buffer is unchanged or was emptied with its slot.
\<close>

definition same_setup :: "Player \<Rightarrow> Player \<Rightarrow> bool" where
  "same_setup p q \<longleftrightarrow>
     p_fd p = p_fd q \<and> p_id p = p_id q \<and> p_registered p = p_registered q \<and>
     p_admitted p = p_admitted q \<and> p_choice_chosen p = p_choice_chosen q \<and>
     p_spawn_chosen p = p_spawn_chosen q \<and> p_name p = p_name q \<and> p_x p = p_x q \<and> p_y p = p_y q"

definition keeps :: "World \<Rightarrow> World \<Rightarrow> bool" where
  "keeps w0 w \<longleftrightarrow>
     (\<forall>i. (p_connected (players w i) \<longrightarrow> p_connected (players w0 i) \<and> same_setup (players w i) (players w0 i)) \<and>
          (p_inbuf (players w i) = p_inbuf (players w0 i) \<or> p_inbuf (players w i) = [] \<and> \<not> p_connected (players w i))) \<and>
     next_id w = next_id w0"

lemma keeps_refl [simp]: "keeps w w"
  by (simp add: keeps_def same_setup_def)

lemma keeps_setup:
  "keeps w0 w \<Longrightarrow> p_connected (players w i) \<Longrightarrow>
   p_connected (players w0 i) \<and> same_setup (players w i) (players w0 i)"
  by (simp add: keeps_def)

lemma same_setup_start_round [simp]: "same_setup (start_round_player p) q = same_setup p q"
  by (simp add: same_setup_def start_round_player_def Let_def)

lemma same_setup_apply_repick [simp]: "same_setup (apply_repick p) q = same_setup p q"
  by (simp add: same_setup_def apply_repick_def)

lemma inbuf_round [simp]:
  "p_inbuf (start_round_player p) = p_inbuf p" "p_inbuf (apply_repick p) = p_inbuf p"
  by (simp_all add: start_round_player_def apply_repick_def Let_def)

lemma same_setup_out [simp]: "same_setup (p\<lparr>p_outbuf := b\<rparr>) q = same_setup p q"
  by (simp add: same_setup_def)

lemma players_append_out:
  "players (append_out i t w) j =
     (if j = i then (players w i)\<lparr>p_outbuf := p_outbuf (players w i) @ t\<rparr> else players w j)"
  by (simp add: append_out_def)

definition empty_slot :: Player where
  "empty_slot = zero_player\<lparr>p_x := fp_minus_one, p_y := fp_minus_one\<rparr>"

lemma empty_slot_fields [simp]:
  "p_connected empty_slot = False" "p_registered empty_slot = False" "p_inbuf empty_slot = []"
  "p_outbuf empty_slot = []"
  by (simp_all add: empty_slot_def zero_player_def)

lemma players_drop_slot:
  "players (drop_slot i w) j =
     (if j = i \<and> p_connected (players w i) then empty_slot else players w j)"
  by (simp add: drop_slot_def empty_slot_def)

lemma append_out_frame [simp]:
  "next_id (append_out i t w) = next_id w" "round_no (append_out i t w) = round_no w"
  "join_deadline (append_out i t w) = join_deadline w"
  "setup_deadline (append_out i t w) = setup_deadline w"
  "closed_fds (append_out i t w) = closed_fds w"
  by (simp_all add: append_out_def)

lemma drop_slot_frame [simp]:
  "next_id (drop_slot i w) = next_id w" "round_no (drop_slot i w) = round_no w"
  "join_deadline (drop_slot i w) = join_deadline w"
  "setup_deadline (drop_slot i w) = setup_deadline w"
  by (simp_all add: drop_slot_def)

interpretation frame: engine_step_inv "keeps w0" for w0
  by unfold_locales
    (auto simp: keeps_def players_append_out players_drop_slot players_start_round for_upto_upd_players
      split: if_splits)

section \<open>Command handlers\<close>

definition rps_char :: "char \<Rightarrow> bool" where
  "rps_char c \<longleftrightarrow> c = CHR ''R'' \<or> c = CHR ''P'' \<or> c = CHR ''S''"

definition valid_name :: "string \<Rightarrow> bool" where
  "valid_name n \<longleftrightarrow> n \<noteq> [] \<and> length n < MAX_NAME_LENGTH \<and> (\<forall>c \<in> set n. \<not> is_space c)"

lemma scan_name_eq:
  "scan_name (Some s) =
     (let tok = takeWhile (\<lambda>c. \<not> is_space c) (take 31 (skip_ws s))
      in if tok = [] then None else Some tok)"
  by (simp add: scan_name_def sscanf_def is_space_def char_code_def Let_def)

lemma scan_name_valid: "scan_name args = Some n \<Longrightarrow> valid_name n"
proof -
  assume "scan_name args = Some n"
  then obtain s where s: "n = takeWhile (\<lambda>c. \<not> is_space c) (take 31 (skip_ws s))" "n \<noteq> []"
    by (cases args) (auto simp: scan_name_eq scan_name_def [of None] Let_def split: if_splits)
  have "length n \<le> 31"
    unfolding s(1) using length_takeWhile_le [of _ "take 31 (skip_ws s)"] by (simp add: order_trans)
  moreover have "\<forall>c \<in> set n. \<not> is_space c" unfolding s(1) by (auto dest: set_takeWhileD)
  ultimately show ?thesis using s(2) by (simp add: valid_name_def MAX_NAME_LENGTH_def)
qed

lemma NUL_cstr [simp]: "NUL \<notin> set (cstr s)"
  by (auto simp: cstr_def dest: set_takeWhileD)

lemma set_skip_ws: "set (skip_ws s) \<subseteq> set s"
  by (auto simp: skip_ws_def dest: set_dropWhileD)

lemma scan_name_NUL: "scan_name (Some s) = Some n \<Longrightarrow> NUL \<notin> set s \<Longrightarrow> NUL \<notin> set n"
  using set_skip_ws [of s]
  by (auto simp: scan_name_eq Let_def split: if_splits dest!: set_takeWhileD in_set_takeD)

lemma parse_command_NUL:
  "parse_command line n = Some (cmd, Some args) \<Longrightarrow> NUL \<notin> set line \<Longrightarrow> NUL \<notin> set args"
  by (auto simp: parse_command_def Let_def split: if_splits dest: set_dropWhileD in_set_dropD)

lemma parse_rps_choice_arg_char: "parse_rps_choice_arg arg = Some c \<Longrightarrow> rps_char c"
  by (auto simp: parse_rps_choice_arg_def rps_char_def Let_def
      split: option.splits list.splits if_splits)

lemma scan_spawn_ok: "scan_spawn args = Some (x, y) \<Longrightarrow> fp_ok F32 x \<and> fp_ok F32 y"
  by (auto simp: scan_spawn_def sscanf_def is_space_def char_code_def
      split: option.splits list.splits scanval.splits prod.splits if_splits dest: scan_flt_ok)

locale command_inv = reeval_inv +
  assumes inv_join_deadline: "I w \<Longrightarrow> phase w = PHASE_LOBBY_OPEN \<Longrightarrow> I (w\<lparr>join_deadline := t\<rparr>)"
    and inv_admit:
      "I w \<Longrightarrow> phase w = PHASE_LOBBY_OPEN \<Longrightarrow>
       (p_connected (players w i) \<Longrightarrow> p_registered (players w i) \<and> \<not> p_admitted (players w i) \<and>
          p_choice_chosen (players w i) \<and> p_spawn_chosen (players w i)) \<Longrightarrow>
       I (upd_player i (\<lambda>p. p\<lparr>p_admitted := True, p_waiting := True\<rparr>) w)"
    and inv_register:
      "I w \<Longrightarrow> p_connected (players w i) \<Longrightarrow> \<not> p_registered (players w i) \<Longrightarrow>
       find_name w name = None \<Longrightarrow> valid_name name \<Longrightarrow> NUL \<notin> set name \<Longrightarrow>
       I (upd_player i (register_player name) w)"
    and inv_choice:
      "I w \<Longrightarrow> p_registered (players w i) \<Longrightarrow> \<not> p_admitted (players w i) \<Longrightarrow> rps_char c \<Longrightarrow>
       I (upd_player i (\<lambda>p. p\<lparr>p_choice := c, p_choice_chosen := True\<rparr>) w)"
    and inv_spawn:
      "I w \<Longrightarrow> p_registered (players w i) \<Longrightarrow> \<not> p_admitted (players w i) \<Longrightarrow>
       \<not> spawn_off_grid x y \<Longrightarrow> fp_ok F32 x \<Longrightarrow> fp_ok F32 y \<Longrightarrow>
       I (upd_player i (\<lambda>p. p\<lparr>p_x := x, p_y := y, p_spawn_chosen := True\<rparr>) w)"
    and inv_repick:
      "I w \<Longrightarrow> phase w = PHASE_REPICK \<Longrightarrow> player_is_alive (players w i) \<or> \<not> p_connected (players w i) \<Longrightarrow>
       rps_char c \<Longrightarrow> I (upd_player i (\<lambda>p. p\<lparr>p_repick_choice := c, p_repick_submitted := True\<rparr>) w)"
    and inv_reset_match: "I w \<Longrightarrow> phase w = PHASE_GAME_OVER \<Longrightarrow> I (reset_match w)"
begin

lemma say_inv: "I w \<Longrightarrow> I (say i t w)"
proof (cases t "players w i" rule: queue_line_cases)
  case 1
  assume "I w"
  with 1 show ?thesis by (simp add: say_def upd_player_def)
next
  case 2
  assume w: "I w"
  have "say i t w = append_out i (t @ [newline]) w"
    using 2 by (simp add: say_def append_out_def upd_player_def)
  moreover have "fits_out i (t @ [newline]) w" using 2 by (simp add: fits_out_def)
  ultimately show ?thesis using w by (simp add: inv_out)
qed

lemma lobby_status_inv: "I w \<Longrightarrow> I (queue_lobby_status_for_player i w)"
  by (auto simp: queue_lobby_status_for_player_def Let_def intro!: say_inv inv_tick)

lemma admit_player_inv:
  assumes "I w" and "phase w = PHASE_LOBBY_OPEN"
    and "p_connected (players w i) \<Longrightarrow> p_registered (players w i) \<and> \<not> p_admitted (players w i) \<and>
          p_choice_chosen (players w i) \<and> p_spawn_chosen (players w i)"
  shows "I (admit_player i w)"
proof -
  let ?w = "upd_player i (\<lambda>p. p\<lparr>p_admitted := True, p_waiting := True\<rparr>) w"
  obtain r v where q: "queue_or_drop i ''JOINED_MATCH'' ?w = (r, v)" by fastforce
  have "I ?w" using assms by (rule inv_admit)
  from queue_or_drop_inv [OF this, of i "''JOINED_MATCH''"] have "I v" by (simp add: q)
  then show ?thesis
    by (cases r) (auto simp: admit_player_def q intro!: broadcast_game_state_inv queue_broadcast_inv)
qed

lemma maybe_admit_player_inv:
  assumes w: "I w"
  shows "I (maybe_admit_player i w)"
proof -
  let ?p = "players w i"
  have ready: "I (admit_player i (time_tick w))"
    if "p_connected ?p" "p_registered ?p" "\<not> p_admitted ?p" "p_choice_chosen ?p" "p_spawn_chosen ?p"
      "phase w = PHASE_LOBBY_OPEN"
    using w that by (intro admit_player_inv inv_tick) auto
  have opened: "I (admit_player i (queue_broadcast t v))"
    if "I v" "keeps w v" "p_connected ?p" "p_registered ?p" "\<not> p_admitted ?p" "p_choice_chosen ?p"
      "p_spawn_chosen ?p" "phase v = PHASE_LOBBY_OPEN" for v t
  proof (rule admit_player_inv)
    show "I (queue_broadcast t v)" using that(1) by (rule queue_broadcast_inv)
    show "phase (queue_broadcast t v) = PHASE_LOBBY_OPEN"
      using that(8) by (rule lobby_phase.queue_broadcast_inv)
    have "keeps w (queue_broadcast t v)" using that(2) by (rule frame.queue_broadcast_inv)
    from keeps_setup [OF this, of i] that
    show "p_connected (players (queue_broadcast t v) i) \<Longrightarrow>
      p_registered (players (queue_broadcast t v) i) \<and> \<not> p_admitted (players (queue_broadcast t v) i) \<and>
      p_choice_chosen (players (queue_broadcast t v) i) \<and> p_spawn_chosen (players (queue_broadcast t v) i)"
      by (auto simp: same_setup_def)
  qed
  have v: "I (time_tick (w\<lparr>join_deadline := t\<rparr>))" "keeps w (time_tick (w\<lparr>join_deadline := t\<rparr>))"
    if "phase w = PHASE_LOBBY_OPEN" for t
    using w that by (auto simp: keeps_def same_setup_def intro: inv_tick inv_join_deadline)
  show ?thesis
    using w by (auto simp: maybe_admit_player_def Let_def
        intro!: queue_or_drop_inv inv_tick ready opened v)
qed

lemma require_inv:
  "I w \<Longrightarrow> require_registered_not_admitted i w = (b, v) \<Longrightarrow>
   I v \<and> (b \<longrightarrow> v = w \<and> p_registered (players w i) \<and> \<not> p_admitted (players w i))"
  by (auto simp: require_registered_not_admitted_def intro: say_inv split: if_splits)

lemma handle_hello_inv:
  assumes w: "I w" "p_connected (players w i)" and args: "\<And>s. args = Some s \<Longrightarrow> NUL \<notin> set s"
  shows "I (handle_hello_command i args w)"
proof -
  have "NUL \<notin> set n" if "scan_name args = Some n" for n
    using that args scan_name_NUL by (cases args) (auto simp: scan_name_def)
  with w show ?thesis
    by (auto simp: handle_hello_command_def Let_def split: option.splits
        intro!: say_inv lobby_status_inv inv_register scan_name_valid)
qed

lemma handle_choice_inv: "I w \<Longrightarrow> I (handle_choice_command i args w)"
proof -
  assume w: "I w"
  obtain b v where r: "require_registered_not_admitted i w = (b, v)" by fastforce
  note rv = require_inv [OF w r]
  show ?thesis
  proof (cases b)
    case True
    with rv w show ?thesis
      by (auto simp: handle_choice_command_def r Let_def split: option.splits
          intro!: say_inv maybe_admit_player_inv inv_choice parse_rps_choice_arg_char)
  next
    case False
    with rv show ?thesis by (simp add: handle_choice_command_def r)
  qed
qed

lemma handle_spawn_inv: "I w \<Longrightarrow> I (handle_spawn_command i args w)"
proof -
  assume w: "I w"
  obtain b v where r: "require_registered_not_admitted i w = (b, v)" by fastforce
  note rv = require_inv [OF w r]
  show ?thesis
  proof (cases b)
    case True
    with rv have v: "v = w" "p_registered (players w i)" "\<not> p_admitted (players w i)" by auto
    have "I (upd_player i (\<lambda>p. p\<lparr>p_x := x, p_y := y, p_spawn_chosen := True\<rparr>) w)"
      if "scan_spawn args = Some (x, y)" "\<not> spawn_off_grid x y" for x y
      using w v(2,3) that scan_spawn_ok [OF that(1)] by (intro inv_spawn) auto
    with True v w show ?thesis
      by (simp add: handle_spawn_command_def r Let_def say_inv maybe_admit_player_inv split: option.split prod.split)
  next
    case False
    with rv show ?thesis by (simp add: handle_spawn_command_def r)
  qed
qed

lemma handle_repick_inv: "I w \<Longrightarrow> I (handle_repick_command i args w)"
proof -
  assume w: "I w"
  have rp: "I (upd_player i (\<lambda>p. p\<lparr>p_repick_choice := c, p_repick_submitted := True\<rparr>) w)"
    if "phase w = PHASE_REPICK" "p_registered (players w i)" "p_admitted (players w i)"
      "p_alive (players w i)" "parse_rps_choice_arg args = Some c" for c
    using w that by (intro inv_repick parse_rps_choice_arg_char) (auto simp: player_is_alive_def)
  have ph: "phase (say i t v) = phase v" for t v by (simp add: say_def)
  show ?thesis
    using w by (auto simp: handle_repick_command_def Let_def ph split: option.splits
        intro!: say_inv finish_repicks_inv rp)
qed

lemma handle_get_state_inv: "I w \<Longrightarrow> I (handle_get_state_command i w)"
proof -
  assume w: "I w"
  obtain r v where q: "queue_game_state_for_player i w = (r, v)" by fastforce
  from queue_game_state_for_player_inv [OF w, of i] q have "I v" by simp
  then show ?thesis
    by (cases r) (simp_all add: handle_get_state_command_def q reevaluate_state_inv drop_player_inv)
qed

lemma handle_command_inv:
  assumes w: "I w" "p_connected (players w i)" and line: "NUL \<notin> set line"
  shows "I (handle_command i line w)"
proof (cases "parse_command line 16")
  case None
  with w show ?thesis by (simp add: handle_command_def say_inv)
next
  case (Some ca)
  then obtain cmd args where ca: "parse_command line 16 = Some (cmd, args)" by (cases ca) auto
  have "NUL \<notin> set s" if "args = Some s" for s
    using parse_command_NUL line ca that by blast
  then have "I (handle_hello_command i args w)" by (rule handle_hello_inv [OF w])
  with w show ?thesis
    by (simp add: handle_command_def handle_rematch_command_def handle_quit_command_def ca
        say_inv handle_get_state_inv handle_choice_inv handle_spawn_inv
        handle_repick_inv inv_reset_match reevaluate_state_inv drop_player_inv)
qed

end

section \<open>Timers and the event loop\<close>

definition CHASE_DT :: fp where
  "CHASE_DT = fp_convert F32 CHASE_TICK_SECONDS"

lemma CHASE_DT_nonneg [simp]: "\<not> fp_lt CHASE_DT fp_zero"
  by (simp add: CHASE_DT_def) code_simp

text \<open>The reads and writes of the clients' connections, the timers, and the whole iteration.\<close>

locale transport_inv = command_inv +
  assumes inv_read:
      "I w \<Longrightarrow> p_connected (players w i) \<Longrightarrow> length (p_inbuf (players w i) @ tmp) < INBUF_SIZE \<Longrightarrow>
       I (upd_player i (\<lambda>p. p\<lparr>p_inbuf := p_inbuf p @ tmp\<rparr>) w)"
    and inv_pop:
      "I w \<Longrightarrow> length rest \<le> length (p_inbuf (players w i)) \<Longrightarrow>
       I (upd_player i (\<lambda>p. p\<lparr>p_inbuf := rest\<rparr>) w)"
    and inv_flush:
      "I w \<Longrightarrow> length buf \<le> length (p_outbuf (players w i)) \<Longrightarrow>
       I (upd_player i (\<lambda>p. p\<lparr>p_outbuf := buf\<rparr>) w)"
    and inv_idle: "I w \<Longrightarrow> \<not> p_connected (players w i) \<Longrightarrow> p_inbuf (players w i) = []"

locale loop_inv = transport_inv +
  assumes inv_accept:
      "I w \<Longrightarrow> i < MAX_PLAYERS \<Longrightarrow> \<not> p_connected (players w i) \<Longrightarrow>
       I (upd_player i (\<lambda>_. init_player_slot fd (next_id w)) (w\<lparr>next_id := next_id w + 1\<rparr>))"
    and inv_refuse: "I w \<Longrightarrow> I (w\<lparr>closed_fds := fd # closed_fds w\<rparr>)"

locale timer_inv = engine_step_inv +
  assumes inv_setup: "I w \<Longrightarrow> phase w = PHASE_LOBBY_OPEN \<Longrightarrow> I (w\<lparr>phase := PHASE_SETUP\<rparr>)"
    and inv_setup_deadline: "I w \<Longrightarrow> phase w = PHASE_SETUP \<Longrightarrow> I (w\<lparr>setup_deadline := t\<rparr>)"
    and inv_hunt: "I w \<Longrightarrow> phase w = PHASE_ROUND_ACTIVE \<Longrightarrow> i < MAX_PLAYERS \<Longrightarrow> I (hunt CHASE_DT i w)"

locale server_inv = loop_inv + timer_inv

lemma phase_hunt [simp]: "phase (hunt dt i w) = phase w"
  by (auto simp: hunt_def Let_def split: option.split)

lemma phase_for_upto_hunt [simp]: "phase (for_upto n (hunt dt) w) = phase w"
  by (induction n) (simp_all add: for_upto_Suc)

lemma pop_line_rest: "pop_line n buf = Some (line, rest) \<Longrightarrow> length rest < length buf"
  by (auto simp: pop_line_def Let_def split: if_splits)

lemma flush_loop_length: "length (snd (flush_loop src k buf)) \<le> length buf"
proof (induction src k buf rule: flush_loop.induct)
  case (1 src k buf)
  show ?case
  proof (cases "src k")
    case (Sent n)
    then show ?thesis
      using 1 [of n] by (subst flush_loop.simps) (auto intro: order_trans)
  next
    case SendWouldBlock
    then show ?thesis by (subst flush_loop.simps) simp
  next
    case SendError
    then show ?thesis by (subst flush_loop.simps) simp
  qed
qed

context timer_inv
begin

lemma announce_setup_inv:
  assumes "I w" and "phase w = PHASE_LOBBY_OPEN"
  shows "I (announce_setup w) \<and> phase (announce_setup w) \<noteq> PHASE_LOBBY_OPEN"
proof -
  let ?v = "time_tick (w\<lparr>phase := PHASE_SETUP,
    setup_deadline := time_now (w\<lparr>phase := PHASE_SETUP\<rparr>) + SETUP_SECONDS\<rparr>)"
  let ?u = "queue_broadcast (''SETUP_OPEN '' @ int_str SETUP_SECONDS) (queue_broadcast ''LOBBY_CLOSED'' ?v)"
  have "I (w\<lparr>phase := PHASE_SETUP\<rparr>)" using assms by (rule inv_setup)
  from inv_setup_deadline [OF this] have "I ?v" by (intro inv_tick) simp
  then have "I ?u" by (intro queue_broadcast_inv)
  moreover have "phase ?u \<noteq> PHASE_LOBBY_OPEN"
    unfolding queue_broadcast_def
    by (intro started_phase.queue_broadcast_with_inv started_phase.reevaluate_state_inv) simp_all
  ultimately show ?thesis by (simp add: announce_setup_def Let_def)
qed

lemma close_lobby_inv: "I w \<Longrightarrow> I (close_lobby_if_needed w)"
  using announce_setup_inv [of "time_tick w"]
  by (simp add: close_lobby_if_needed_def Let_def inv_tick end_game_inv start_active_round_inv
      queue_broadcast_inv)

lemma drop_unready_inv:
  assumes "I w" and "phase w \<noteq> PHASE_LOBBY_OPEN"
  shows "I (drop_unready w) \<and> phase (drop_unready w) \<noteq> PHASE_LOBBY_OPEN"
  unfolding drop_unready_def
proof (rule for_upto_inv [where I = "\<lambda>w. I w \<and> phase w \<noteq> PHASE_LOBBY_OPEN"])
  have "I (drop_player i True w) \<and> phase (drop_player i True w) \<noteq> PHASE_LOBBY_OPEN"
    if "I w \<and> phase w \<noteq> PHASE_LOBBY_OPEN" for i w
    using that unfolding drop_player_def by (intro started.drop_player_with_inv started_reevaluate)
  then show "I v \<and> phase v \<noteq> PHASE_LOBBY_OPEN \<Longrightarrow>
      I (if player_is_admitted (players v i) \<and> (\<not> p_choice_chosen (players v i) \<or> \<not> p_spawn_chosen (players v i))
         then drop_player i True v else v) \<and>
      phase (if player_is_admitted (players v i) \<and> (\<not> p_choice_chosen (players v i) \<or> \<not> p_spawn_chosen (players v i))
         then drop_player i True v else v) \<noteq> PHASE_LOBBY_OPEN" for i v
    by simp
qed (use assms in simp)

lemma expire_unready_inv: "I w \<Longrightarrow> I (expire_unready_setup_players w)"
  using drop_unready_inv [of "time_tick w"]
  by (simp add: expire_unready_setup_players_def Let_def inv_tick end_game_inv start_active_round_inv)

lemma chase_inv: "I w \<Longrightarrow> phase w = PHASE_ROUND_ACTIVE \<Longrightarrow> I (for_upto MAX_PLAYERS (hunt CHASE_DT) w)"
  using for_upto_inv [where I = "\<lambda>w. I w \<and> phase w = PHASE_ROUND_ACTIVE" and n = MAX_PLAYERS and s = w
      and body = "hunt CHASE_DT"] inv_hunt by auto

lemma advance_inv: "I w \<Longrightarrow> I (fst (advance_match_timers now CHASE_TICK_SECONDS (w, l)))"
proof -
  assume w: "I w"
  let ?v = "expire_unready_setup_players (close_lobby_if_needed w)"
  have v: "I ?v" using w by (intro expire_unready_inv close_lobby_inv)
  show ?thesis
    using v chase_inv [OF v]
    by (simp add: advance_match_timers_def simulate_chase_tick_def Let_def reevaluate_state_inv
        broadcast_positions_inv flip: CHASE_DT_def)
qed

end

context transport_inv
begin

lemma drain_lines_inv: "I w \<Longrightarrow> I (drain_lines n i w)"
proof (induction n arbitrary: w)
  case (Suc n)
  show ?case
  proof (cases "pop_line MAX_LINE (p_inbuf (players w i))")
    case None
    then show ?thesis using Suc.prems by simp
  next
    case (Some lr)
    obtain line rest where lr: "lr = (line, rest)" by fastforce
    have len: "length rest < length (p_inbuf (players w i))"
      using Some lr by (auto dest: pop_line_rest)
    then have "p_connected (players w i)" using inv_idle [OF Suc.prems, of i] by fastforce
    then have "I (handle_command i (cstr line) (upd_player i (\<lambda>p. p\<lparr>p_inbuf := rest\<rparr>) w))"
      using Suc.prems len by (intro handle_command_inv inv_pop) simp_all
    then show ?thesis using Suc.IH Some lr by simp
  qed
qed simp

lemma process_read_inv: "I w \<Longrightarrow> I (process_read ev i w)"
proof -
  assume w: "I w"
  obtain rc p where rd: "read_into_player_buffer (ev_recv ev i) (players w i) = (rc, p)" by fastforce
  have "I (upd_player i (\<lambda>_. p) w)" if c: "p_connected (players w i)"
  proof (cases "p = players w i")
    case True
    then show ?thesis using w by simp
  next
    case False
    then obtain tmp where "p = (players w i)\<lparr>p_inbuf := p_inbuf (players w i) @ tmp\<rparr>"
      "length (p_inbuf (players w i) @ tmp) < INBUF_SIZE"
      using rd by (auto simp: read_into_player_buffer_def split: recv_result.splits if_splits)
    then have "upd_player i (\<lambda>_. p) w = upd_player i (\<lambda>p. p\<lparr>p_inbuf := p_inbuf p @ tmp\<rparr>) w"
      and "length (p_inbuf (players w i) @ tmp) < INBUF_SIZE"
      by (simp_all add: upd_player_def)
    then show ?thesis using w c by (simp only: inv_read)
  qed
  then show ?thesis
    using w by (auto simp: process_read_def rd Let_def
        intro!: reevaluate_state_inv drop_player_inv drain_lines_inv)
qed

lemma process_write_inv: "I w \<Longrightarrow> I (process_write ev i w)"
proof -
  assume w: "I w"
  obtain rc b where fl: "flush_loop (ev_send ev i) 0 (p_outbuf (players w i)) = (rc, b)" by fastforce
  have "upd_player i (\<lambda>_. (players w i)\<lparr>p_outbuf := b\<rparr>) w = upd_player i (\<lambda>p. p\<lparr>p_outbuf := b\<rparr>) w"
    by (simp add: upd_player_def)
  moreover have "length b \<le> length (p_outbuf (players w i))"
    using flush_loop_length [of "ev_send ev i" 0 "p_outbuf (players w i)"] by (simp add: fl)
  ultimately have "I (upd_player i (\<lambda>_. (players w i)\<lparr>p_outbuf := b\<rparr>) w)"
    using w by (simp only: inv_flush)
  then show ?thesis
    using w by (auto simp: process_write_def flush_player_output_def fl Let_def
        intro!: reevaluate_state_inv drop_player_inv)
qed

lemma process_player_reads_inv: "I w \<Longrightarrow> I (process_player_reads ev w)"
  unfolding process_player_reads_def by (rule for_upto_inv) (auto intro: process_read_inv)

lemma process_player_writes_inv: "I w \<Longrightarrow> I (process_player_writes ev w)"
  unfolding process_player_writes_def by (rule for_upto_inv) (auto intro: process_write_inv)

end

context loop_inv
begin

lemma accept_inv: "I w \<Longrightarrow> I (snd (accept_new_clients listen_fd ev w))"
proof (cases "ev_accept ev")
  case (Some fd)
  assume w: "I w"
  obtain r v where a: "add_player fd w = (r, v)" by fastforce
  have v: "I v"
    using w a by (auto simp: add_player_def first_slot_def find_Some_iff split: option.splits intro: inv_accept)
  have q: "I (case queue_line t (players v i) of (Success, p) \<Rightarrow> upd_player i (\<lambda>_. p) v
      | (Failure, p) \<Rightarrow> drop_player i False v)" for t i
  proof -
    obtain st p where ql: "queue_line t (players v i) = (st, p)" by fastforce
    show ?thesis using queue_line_inv [OF v ql] v by (cases st) (simp_all add: ql drop_player_inv)
  qed
  show ?thesis
    using w v q inv_refuse [OF w] inv_refuse [OF v]
    by (cases r) (simp_all add: accept_new_clients_def Some a)
qed (simp add: accept_new_clients_def)

lemma server_io_inv:
  "I w \<Longrightarrow> I (process_player_writes ev (process_player_reads ev (snd (accept_new_clients listen_fd ev w))))"
  by (intro process_player_writes_inv process_player_reads_inv accept_inv)

end

context server_inv
begin

lemma server_iteration_inv:
  "I (lp_state l) \<Longrightarrow> I (lp_state (server_iteration listen_fd ev l))"
proof -
  assume l: "I (lp_state l)"
  obtain saw w where a: "accept_new_clients listen_fd ev (lp_state l) = (saw, w)" by fastforce
  have "I w" using accept_inv [OF l, of listen_fd ev] by (simp add: a)
  then have "I (process_player_writes ev (process_player_reads ev w))"
    by (intro process_player_writes_inv process_player_reads_inv)
  from advance_inv [OF this] show ?thesis
    by (simp add: server_iteration_def a Let_def split: prod.split) (metis fst_conv)
qed

end

end
