(* ===== verification/Chase_Props.thy ===== *)
theory Chase_Props
  imports Server_Contract
begin

text \<open>
  The arithmetic of the chase: a hunter that moves ends on the segment between its position and
  its prey's, so nobody leaves the board. The proof follows the six roundings of
  \<open>move_toward\<close>; none of them crosses a representable bound.
\<close>

section \<open>One axis\<close>

lemma in_range_F32: "\<bar>k\<bar> < 2 ^ 24 \<Longrightarrow> in_range F32 (of_int k)"
proof -
  assume k: "\<bar>k\<bar> < 2 ^ 24"
  have "rep F32 (of_int k)" by (rule rep_of_int [OF fmt_ok_F32]) (use k in \<open>simp add: F32_def\<close>)
  moreover have "real_of_int k < of_int (2 ^ 24)" using k by (simp only: of_int_less_iff)
  then have "real_of_int k < 2 powi 24" by (simp add: power_int_def)
  moreover have "(2::real) powi 24 \<le> 2 powi (24 + 104)" by (intro power_int_increasing) auto
  moreover have "(2::real) powi (24 + 104) = 2 powi (int (f_prec F32) + f_emax F32)" by (simp add: F32_def)
  ultimately show ?thesis by (auto simp: in_range_def)
qed

lemma closest_scale:
  assumes "s = 1 \<or> s = - 1" and "closest F v r"
  shows "closest F (s * v) (s * r)"
  using assms closest_minus by auto

lemma power_bracket:
  assumes "0 < z"
  shows "\<exists>k. 2 powi k \<le> (z::real) \<and> z < 2 powi (k + 1)"
proof (intro exI conjI)
  have z: "z = 2 powr (log 2 z)" using assms by simp
  have "(2::real) powi \<lfloor>log 2 z\<rfloor> = 2 powr of_int \<lfloor>log 2 z\<rfloor>" by (simp add: powr_real_of_int')
  also have "\<dots> \<le> 2 powr (log 2 z)" by (intro powr_mono) auto
  finally show "2 powi \<lfloor>log 2 z\<rfloor> \<le> z" using z by simp
  have "2 powr (log 2 z) < 2 powr (of_int (\<lfloor>log 2 z\<rfloor> + 1))" by (intro powr_less_mono) linarith+
  also have "\<dots> = 2 powi (\<lfloor>log 2 z\<rfloor> + 1)" by (rule powr_real_of_int') simp_all
  finally show "z < 2 powi (\<lfloor>log 2 z\<rfloor> + 1)" using z by simp
qed

text \<open>Two different numbers of a format differ by at least its smallest positive number.\<close>

lemma fpval_gap:
  assumes x: "fp_fin x" "fp_ok F x" and y: "fp_fin y" "fp_ok F y" and "fpval x \<noteq> fpval y"
  shows "2 powi (f_emin F) \<le> \<bar>fpval x - fpval y\<bar>"
proof -
  have mult: "\<exists>j. fpval u = of_int j * 2 powi (f_emin F)" if "fp_fin u" "fp_ok F u" for u
  proof -
    obtain s m e where u: "u = FFin s m e" using \<open>fp_fin u\<close> by (rule fp_fin_cases)
    then have e: "f_emin F \<le> e" using that(2) by simp
    show ?thesis using at_exp_val [OF e, of s m] by (metis u)
  qed
  obtain i j where ij: "fpval x = of_int i * 2 powi (f_emin F)" "fpval y = of_int j * 2 powi (f_emin F)"
    using mult [OF x] mult [OF y] by blast
  then have "i \<noteq> j" using assms(5) by auto
  then have "1 \<le> \<bar>real_of_int (i - j)\<bar>" by (simp flip: of_int_abs)
  then have "1 * 2 powi (f_emin F) \<le> \<bar>real_of_int (i - j)\<bar> * 2 powi (f_emin F)"
    by (intro mult_right_mono) auto
  then show ?thesis by (simp add: ij abs_mult flip: left_diff_distrib)
qed

lemma rounds_bounds:
  assumes "rounds_to F v x" and "s = 1 \<or> s = (- 1::real)"
  shows "s * v \<le> b \<Longrightarrow> rep F b \<Longrightarrow> s * fpval x \<le> b" and "b \<le> s * v \<Longrightarrow> rep F b \<Longrightarrow> b \<le> s * fpval x"
  using closest_scale [OF assms(2), of F v "fpval x"] assms(1)
  by (auto simp: rounds_to_def intro: closest_le closest_ge)

definition axis_step :: "fp \<Rightarrow> fp \<Rightarrow> fp \<Rightarrow> fp \<Rightarrow> fp" where
  "axis_step h p dd md =
     fp_add F32 h (fp_mul F32 (fp_div F32 (fp_sub F32 p h) dd) md)"

definition on_grid :: "fp \<Rightarrow> bool" where
  "on_grid v \<longleftrightarrow> fp_fin v \<and> fp_ok F32 v \<and> 0 \<le> fpval v \<and> fpval v < 10"

lemma axis_step_between:
  assumes h: "on_grid h" and p: "on_grid p"
    and d: "fp_fin dd" "fp_ok F32 dd" "1 / 2 < fpval dd"
    and m: "fp_fin md" "fp_ok F32 md" "0 \<le> fpval md" "fpval md \<le> 1 / 32"
  shows "fp_fin (axis_step h p dd md) \<and> fp_ok F32 (axis_step h p dd md) \<and>
    min (fpval h) (fpval p) \<le> fpval (axis_step h p dd md) \<and>
    fpval (axis_step h p dd md) \<le> max (fpval h) (fpval p)"
proof -
  note R = in_range_F32
  define z where "z = fpval p - fpval h"
  define s :: real where "s = (if 0 \<le> z then 1 else - 1)"
  define dx u t where "dx = fp_sub F32 p h" and "u = fp_div F32 dx dd" and "t = fp_mul F32 u md"
  have s: "s = 1 \<or> s = - 1" and sz: "s * z = \<bar>z\<bar>" by (auto simp: s_def)
  have z10: "\<bar>z\<bar> \<le> 10" using h p by (auto simp: z_def on_grid_def)
  have hf: "fp_fin h" "fp_ok F32 h" and pf: "fp_fin p" "fp_ok F32 p" using h p by (auto simp: on_grid_def)
  have rp: "rep F32 (fpval h)" "rep F32 (fpval p)" using hf pf by (auto intro: rep_fpval)
  have "\<exists>B. \<bar>z\<bar> \<le> B \<and> B \<le> 16 \<and> 0 \<le> B \<and> rep F32 B \<and> rep F32 (2 * B) \<and> rep F32 (4 * B) \<and> B \<le> 2 * \<bar>z\<bar> \<and>
      rep F32 (B / 2)"
  proof (cases "z = 0")
    case True
    then show ?thesis by (intro exI [of _ 0]) simp
  next
    case False
    obtain k where k: "2 powi k \<le> \<bar>z\<bar>" "\<bar>z\<bar> < 2 powi (k + 1)"
      using power_bracket [of "\<bar>z\<bar>"] False by auto
    have "2 powi (- 149) \<le> \<bar>z\<bar>"
      using fpval_gap [OF pf hf] False by (simp add: z_def F32_def)
    then have "(2::real) powi (- 149) < 2 powi (k + 1)" using k(2) by simp
    then have ge: "- 149 \<le> k" using power_int_increasing [of "k + 1" "- 149" "2::real"] by linarith
    have "(2::real) powi k < 2 powi 4" using k(1) z10 by (simp add: power_int_def)
    then have le: "k \<le> 3" using power_int_increasing [of 4 k "2::real"] by linarith
    have "(2::real) powi (k + 1) \<le> 2 powi 4" using le by (intro power_int_increasing) auto
    then have B16: "(2::real) powi (k + 1) \<le> 16" by (simp add: power_int_def)
    have r: "rep F32 (2 powi j)" if "- 149 \<le> j" for j
      by (rule rep_power [OF fmt_ok_F32]) (use that in \<open>simp add: F32_def\<close>)
    have p2: "2 * 2 powi (k + 1) = (2::real) powi (k + 2)" "4 * 2 powi (k + 1) = (2::real) powi (k + 3)"
      "2 powi (k + 1) / 2 = (2::real) powi k" "2 * 2 powi k = (2::real) powi (k + 1)"
      by (simp_all add: powi_plus)
    have "2 powi (k + 1) \<le> 2 * \<bar>z\<bar>" using k(1) p2(4) by linarith
    then show ?thesis
      using k ge B16 by (intro exI [of _ "2 powi (k + 1)"]) (simp only: p2(1-3), simp add: r)
  qed
  then obtain B where B: "\<bar>z\<bar> \<le> B" "B \<le> 16" "0 \<le> B" "rep F32 B" "rep F32 (2 * B)" "rep F32 (4 * B)"
    "B \<le> 2 * \<bar>z\<bar>" "rep F32 (B / 2)" by blast
  have dx: "rounds_to F32 z dx"
    using fp_sub_rounds [OF pf(1) hf(1) R [of 16]] z10 by (simp add: z_def dx_def)
  have dxB: "0 \<le> s * fpval dx" "s * fpval dx \<le> B"
    using rounds_bounds [OF dx s] sz B by auto
  have dxf: "fp_fin dx" "fp_ok F32 dx" using dx by (auto simp: rounds_to_def)
  have q: "0 \<le> s * (fpval dx / fpval dd)" "s * (fpval dx / fpval dd) \<le> 2 * B"
  proof -
    have "s * fpval dx / fpval dd \<le> s * fpval dx / (1 / 2)"
      using dxB d(3) by (intro divide_left_mono) auto
    then show "s * (fpval dx / fpval dd) \<le> 2 * B" using dxB by simp
    have "0 \<le> s * fpval dx / fpval dd" using dxB d(3) by (intro divide_nonneg_nonneg) auto
    then show "0 \<le> s * (fpval dx / fpval dd)" by simp
  qed
  have u: "rounds_to F32 (fpval dx / fpval dd) u"
    unfolding u_def
  proof (rule fp_div_rounds [OF dxf d(1,2) _ R [of 32]])
    show "\<bar>fpval dx / fpval dd\<bar> \<le> real_of_int 32" using q B(2) s by auto
  qed (use d(3) in simp_all)
  have uB: "0 \<le> s * fpval u" "s * fpval u \<le> 2 * B"
    using rounds_bounds [OF u s] q B by auto
  have uf: "fp_fin u" "fp_ok F32 u" using u by (auto simp: rounds_to_def)
  have um: "0 \<le> s * (fpval u * fpval md)" "s * (fpval u * fpval md) \<le> B / 2"
  proof -
    show "0 \<le> s * (fpval u * fpval md)" using uB(1) m(3) by (simp flip: mult.assoc)
    have "(s * fpval u) * fpval md \<le> (2 * B) * (1 / 32)" 
      using mult_mono [OF uB(2) m(4)] m(3) B(3) by simp
    then show "s * (fpval u * fpval md) \<le> B / 2" using B(3) by (simp add: mult.assoc)
  qed
  have t: "rounds_to F32 (fpval u * fpval md) t"
    unfolding t_def
  proof (rule fp_mul_rounds [OF uf m(1,2) R [of 32]])
    show "\<bar>fpval u * fpval md\<bar> \<le> real_of_int 32" using um B(2) s by auto
  qed simp
  have tB: "0 \<le> s * fpval t" "s * fpval t \<le> \<bar>z\<bar>"
    using rounds_bounds(2) [OF t s um(1) rep_0] rounds_bounds(1) [OF t s um(2) B(8)] B(7) by linarith+
  have tf: "fp_fin t" using t by (simp add: rounds_to_def)
  have bounds: "min (fpval h) (fpval p) \<le> fpval h + fpval t" "fpval h + fpval t \<le> max (fpval h) (fpval p)"
    using tB by (auto simp: s_def z_def split: if_splits)
  have r: "rounds_to F32 (fpval h + fpval t) (fp_add F32 h t)"
  proof (rule fp_add_rounds [OF hf(1) tf R [of 16]])
    show "\<bar>fpval h + fpval t\<bar> \<le> real_of_int 16" using bounds h p by (auto simp: on_grid_def)
  qed simp
  have "rep F32 (min (fpval h) (fpval p))" "rep F32 (max (fpval h) (fpval p))"
    using rp by (auto simp: min_def max_def)
  then show ?thesis
    using r bounds closest_le closest_ge
    by (auto simp: axis_step_def rounds_to_def simp flip: dx_def u_def t_def)
qed

section \<open>A move\<close>

lemma fp_is_nan_ops [simp]:
  "fp_is_nan a \<or> fp_is_nan b \<Longrightarrow> fp_is_nan (fp_add F a b)"
  "fp_is_nan a \<or> fp_is_nan b \<Longrightarrow> fp_is_nan (fp_sub F a b)"
  "fp_is_nan a \<or> fp_is_nan b \<Longrightarrow> fp_is_nan (fp_mul F a b)"
  "fp_is_nan a \<or> fp_is_nan b \<Longrightarrow> fp_is_nan (fp_div F a b)"
  "fp_is_nan a \<Longrightarrow> fp_is_nan (fp_sqrt F a)"
  by (cases a; cases b; simp)+

lemma fp_is_nan_compare [simp]:
  "fp_is_nan a \<or> fp_is_nan b \<Longrightarrow> \<not> fp_lt a b" "fp_is_nan a \<or> fp_is_nan b \<Longrightarrow> \<not> fp_le a b"
  by (cases a; cases b; simp add: fp_le_def)+

lemma fp_is_nan_hypot [simp]: "fp_is_nan dx \<or> fp_is_nan dy \<Longrightarrow> fp_is_nan (fp_hypot dx dy)"
  by (auto simp: fp_hypot_def)

lemma sub_on_grid:
  assumes "on_grid a" and "on_grid b"
  shows "fp_fin (fp_sub F32 a b) \<and> fp_ok F32 (fp_sub F32 a b) \<and> \<bar>fpval (fp_sub F32 a b)\<bar> \<le> 16"
proof -
  have r: "rounds_to F32 (fpval a - fpval b) (fp_sub F32 a b)"
    using assms fp_sub_rounds [of a b F32, OF _ _ in_range_F32 [of 16]] by (auto simp: on_grid_def)
  have r16: "rep F32 16" using in_range_F32 [of 16] by (simp add: in_range_def)
  have "1 * fpval (fp_sub F32 a b) \<le> 16" and "- 1 * fpval (fp_sub F32 a b) \<le> 16"
    using assms rounds_bounds(1) [OF r, of 1 16] rounds_bounds(1) [OF r, of "- 1" 16] r16
    by (auto simp: on_grid_def)
  then show ?thesis using r by (auto simp: rounds_to_def)
qed

lemma hypot_finite:
  assumes dx: "fp_fin dx" "fp_ok F32 dx" "\<bar>fpval dx\<bar> \<le> 16"
    and dy: "fp_fin dy" "fp_ok F32 dy" "\<bar>fpval dy\<bar> \<le> 16"
  shows "fp_fin (fp_hypot dx dy) \<and> fp_ok F32 (fp_hypot dx dy)"
proof -
  have sq: "rounds_to F32 (fpval d * fpval d) (fp_mul F32 d d) \<and>
      0 \<le> fpval (fp_mul F32 d d) \<and> fpval (fp_mul F32 d d) \<le> 256"
    if d: "fp_fin d" "fp_ok F32 d" "\<bar>fpval d\<bar> \<le> 16" for d
  proof -
    have b: "fpval d * fpval d \<le> 256"
      using mult_mono [OF d(3) d(3)] by (simp add: abs_mult_self_eq)
    have r: "rounds_to F32 (fpval d * fpval d) (fp_mul F32 d d)"
      using fp_mul_rounds [OF d(1,2) d(1,2) in_range_F32 [of 256]] b by simp
    have "rep F32 256" using in_range_F32 [of 256] by (simp add: in_range_def)
    then show ?thesis using rounds_bounds [OF r, of 1] r b by auto
  qed
  define a where "a = fp_add F32 (fp_mul F32 dx dx) (fp_mul F32 dy dy)"
  have f: "fp_fin (fp_mul F32 dx dx)" "fp_fin (fp_mul F32 dy dy)"
    using sq [OF dx] sq [OF dy] by (auto simp: rounds_to_def)
  have r: "rounds_to F32 (fpval (fp_mul F32 dx dx) + fpval (fp_mul F32 dy dy)) a"
    unfolding a_def
    by (rule fp_add_rounds [OF f in_range_F32 [of 512]]) (use sq [OF dx] sq [OF dy] in auto)
  have "rep F32 512" using in_range_F32 [of 512] by (simp add: in_range_def)
  then have "0 \<le> fpval a" "fpval a \<le> 512"
    using sq [OF dx] sq [OF dy] rounds_bounds(1) [OF r, of 1 512] rounds_bounds(2) [OF r, of 1 0] by auto
  then have a: "fp_fin a" "fp_ok F32 a" "0 \<le> fpval a" "fpval a \<le> 32 * 32"
    using r by (auto simp: rounds_to_def)
  have "\<exists>c. 0 \<le> c \<and> c \<le> 2 * 32 \<and> rounds_to F32 c (fp_sqrt F32 a)"
    using in_range_F32 [of 64] by (intro fp_sqrt_rounds a) simp_all
  then show ?thesis by (auto simp: rounds_to_def fp_hypot_def simp flip: a_def)
qed

lemma move_dist_eq: "fp_mul F32 CHASE_SPEED CHASE_DT = FFin False 14316843 (- 30)"
  unfolding CHASE_SPEED_def CHASE_DT_def CHASE_TICK_SECONDS_def by code_simp

lemma capture_radius_eq: "CAPTURE_RADIUS = FFin False 8388608 (- 24)"
  unfolding CAPTURE_RADIUS_def by code_simp

section \<open>Everybody stays on the board\<close>

text \<open>A coordinate of a live player: on the grid, or the NaN that a client may have sent.\<close>

definition coord_ok :: "fp \<Rightarrow> bool" where
  "coord_ok v \<longleftrightarrow> fp_is_nan v \<or> on_grid v"

definition placed :: "Player \<Rightarrow> bool" where
  "placed p \<longleftrightarrow> coord_ok (p_x p) \<and> coord_ok (p_y p)"

lemma on_grid_not_nan: "on_grid v \<Longrightarrow> \<not> fp_is_nan v"
  by (cases v) (auto simp: on_grid_def)

lemma on_grid_between:
  assumes "on_grid a" "on_grid b" "fp_fin v" "fp_ok F32 v"
    and "min (fpval a) (fpval b) \<le> fpval v" "fpval v \<le> max (fpval a) (fpval b)"
  shows "on_grid v"
  using assms by (auto simp: on_grid_def)

lemma move_toward_axis:
  "move_toward CHASE_DT prey hunter =
     (let dx = fp_sub F32 (p_x prey) (p_x hunter); dy = fp_sub F32 (p_y prey) (p_y hunter);
          dd = fp_hypot dx dy; md = fp_mul F32 CHASE_SPEED CHASE_DT;
          md' = (if fp_lt dd md then dd else md)
      in hunter\<lparr>p_x := axis_step (p_x hunter) (p_x prey) dd md', p_y := axis_step (p_y hunter) (p_y prey) dd md'\<rparr>)"
  by (simp add: move_toward_def axis_step_def Let_def)

lemma move_toward_placed:
  assumes h: "placed hunter" and p: "placed prey"
    and far: "\<not> fp_le (distance hunter prey) CAPTURE_RADIUS"
  shows "placed (move_toward CHASE_DT prey hunter)"
proof -
  define dx where "dx = fp_sub F32 (p_x prey) (p_x hunter)"
  define dy where "dy = fp_sub F32 (p_y prey) (p_y hunter)"
  define dd where "dd = fp_hypot dx dy"
  define md where "md = fp_mul F32 CHASE_SPEED CHASE_DT"
  define md' where "md' = (if fp_lt dd md then dd else md)"
  have mv: "move_toward CHASE_DT prey hunter = hunter\<lparr>p_x := axis_step (p_x hunter) (p_x prey) dd md',
      p_y := axis_step (p_y hunter) (p_y prey) dd md'\<rparr>"
    by (simp add: move_toward_axis Let_def dx_def dy_def dd_def md_def md'_def)
  show ?thesis
  proof (cases "fp_is_nan (p_x hunter) \<or> fp_is_nan (p_x prey) \<or> fp_is_nan (p_y hunter) \<or> fp_is_nan (p_y prey)")
    case True
    then have "fp_is_nan dd" unfolding dd_def dx_def dy_def by (intro fp_is_nan_hypot) auto
    then have "fp_is_nan (axis_step a b dd md')" for a b by (simp add: axis_step_def)
    then show ?thesis by (simp add: mv placed_def coord_ok_def)
  next
    case False
    with h p have g: "on_grid (p_x hunter)" "on_grid (p_y hunter)" "on_grid (p_x prey)" "on_grid (p_y prey)"
      by (auto simp: placed_def coord_ok_def)
    have d: "fp_fin dd" "fp_ok F32 dd"
      using sub_on_grid [OF g(3,1)] sub_on_grid [OF g(4,2)] hypot_finite [of dx dy]
      by (simp_all add: dd_def dx_def dy_def)
    have "\<not> fp_le dd CAPTURE_RADIUS" using far by (simp add: distance_def Let_def dd_def dx_def dy_def)
    then have d2: "1 / 2 < fpval dd"
      using d(1) by (simp add: fp_le_val capture_radius_eq with_sign_def power_int_def power_divide)
    have mc: "md = FFin False 14316843 (- 30)" by (simp only: md_def move_dist_eq)
    have m: "fp_fin md" "fp_ok F32 md" "0 \<le> fpval md" "fpval md \<le> 1 / 32"
      by (simp_all add: mc with_sign_def power_int_def power_divide F32_def)
    have md': "md' = md" using d d2 m by (simp add: md'_def fp_lt_val)
    have "on_grid (axis_step a b dd md')" if "on_grid a" "on_grid b" for a b
      using axis_step_between [OF that d d2 m] on_grid_between [OF that] by (simp add: md')
    then show ?thesis using g by (simp add: mv placed_def coord_ok_def)
  qed
qed

end
