(* ===== verification/Server_Inv.thy ===== *)
theory Server_Inv
  imports Chase_Props
begin

text \<open>
  The server invariant \<open>world_ok\<close> and its proof: buffers stay within their arrays, a connected
  slot is in a consistent stage of its life (registered, chosen, admitted, alive), names and ids
  are unique, live players are on the board, nobody is alive in the lobby, and the repick phase is
  never entered. It is an instance of the contract \<open>server_inv\<close>.
\<close>

section \<open>The invariant\<close>

definition out_of_play :: "Player \<Rightarrow> bool" where
  "out_of_play p \<longleftrightarrow> p_admitted p \<and> \<not> p_alive p \<and> \<not> p_waiting p \<and>
     p_x p = fp_minus_one \<and> p_y p = fp_minus_one"

definition setup_ok :: "Player \<Rightarrow> bool" where
  "setup_ok p \<longleftrightarrow>
     (p_registered p \<longrightarrow> valid_name (p_name p) \<and> NUL \<notin> set (p_name p)) \<and>
     (p_admitted p \<longrightarrow> p_registered p \<and> p_choice_chosen p \<and> p_spawn_chosen p) \<and>
     (p_alive p \<or> p_waiting p \<longrightarrow> p_admitted p) \<and> \<not> (p_alive p \<and> p_waiting p) \<and>
     (p_choice_chosen p \<longrightarrow> rps_char (p_choice p)) \<and>
     (p_spawn_chosen p \<longrightarrow> placed p \<or> out_of_play p) \<and>
     \<not> p_repick_submitted p"

definition buffers_ok :: "Player \<Rightarrow> bool" where
  "buffers_ok p \<longleftrightarrow> length (p_outbuf p) \<le> OUTBUF_SIZE \<and> length (p_inbuf p) < INBUF_SIZE"

definition slot_ok :: "Player \<Rightarrow> bool" where
  "slot_ok p \<longleftrightarrow> buffers_ok p \<and> (p_connected p \<longrightarrow> setup_ok p) \<and> (\<not> p_connected p \<longrightarrow> p_inbuf p = [])"

definition names_unique :: "World \<Rightarrow> bool" where
  "names_unique w \<longleftrightarrow>
     (\<forall>i j. player_is_registered (players w i) \<longrightarrow> player_is_registered (players w j) \<longrightarrow>
        p_name (players w i) = p_name (players w j) \<longrightarrow> i = j)"

definition ids_unique :: "World \<Rightarrow> bool" where
  "ids_unique w \<longleftrightarrow>
     (\<forall>i. p_connected (players w i) \<longrightarrow> p_id (players w i) < next_id w \<and> i < MAX_PLAYERS) \<and>
     (\<forall>i j. p_connected (players w i) \<longrightarrow> p_connected (players w j) \<longrightarrow>
        p_id (players w i) = p_id (players w j) \<longrightarrow> i = j)"

definition world_core :: "World \<Rightarrow> bool" where
  "world_core w \<longleftrightarrow>
     (\<forall>i. slot_ok (players w i)) \<and> names_unique w \<and> ids_unique w \<and> phase w \<noteq> PHASE_REPICK"

definition world_ok :: "World \<Rightarrow> bool" where
  "world_ok w \<longleftrightarrow> world_core w \<and>
     (phase w = PHASE_LOBBY_OPEN \<longrightarrow> (\<forall>i. \<not> player_is_alive (players w i)))"

lemmas world_defs = world_core_def names_unique_def ids_unique_def

section \<open>Single slots\<close>

text \<open>An update of one slot that keeps its id, name and registration keeps the core.\<close>

lemma world_core_upd:
  assumes "world_core w" and "slot_ok (f (players w i))"
    and "p_connected (f (players w i)) = p_connected (players w i)"
    and "p_id (f (players w i)) = p_id (players w i)"
    and "p_name (f (players w i)) = p_name (players w i)"
    and "p_registered (f (players w i)) = p_registered (players w i)"
  shows "world_core (upd_player i f w)"
  using assms by (auto simp: world_defs player_is_registered_def split: if_splits)

lemma world_core_upds:
  assumes "world_core w" and "\<And>p. slot_ok p \<Longrightarrow> slot_ok (f p)"
    and "\<And>p. p_connected (f p) = p_connected p" "\<And>p. p_id (f p) = p_id p"
    and "\<And>p. p_name (f p) = p_name p" "\<And>p. p_registered (f p) = p_registered p"
  shows "world_core (for_upto n (\<lambda>i. upd_player i f) w)"
proof (rule for_upto_inv)
  fix i v
  assume v: "world_core v"
  then have "slot_ok (players v i)" by (simp add: world_core_def)
  with assms v show "world_core (upd_player i f v)" by (intro world_core_upd) simp_all
qed (fact assms(1))

lemma world_core_fields [simp]:
  "world_core (time_tick w) = world_core w"
  "world_core (w\<lparr>join_deadline := t\<rparr>) = world_core w"
  "world_core (w\<lparr>setup_deadline := t\<rparr>) = world_core w"
  "world_core (w\<lparr>closed_fds := fds\<rparr>) = world_core w"
  by (simp_all add: world_defs)

lemma world_core_phase: "world_core w \<Longrightarrow> ph \<noteq> PHASE_REPICK \<Longrightarrow> world_core (w\<lparr>phase := ph\<rparr>)"
  by (simp add: world_defs)

lemma slot_ok_out:
  "slot_ok p \<Longrightarrow> length b \<le> OUTBUF_SIZE \<Longrightarrow> slot_ok (p\<lparr>p_outbuf := b\<rparr>)"
  by (auto simp: slot_ok_def buffers_ok_def setup_ok_def placed_def out_of_play_def)

lemma slot_ok_empty [simp]: "slot_ok empty_slot"
  by (simp add: slot_ok_def buffers_ok_def INBUF_SIZE_def)

lemma start_round_player_frame [simp]:
  "p_id (start_round_player p) = p_id p" "p_name (start_round_player p) = p_name p"
  "p_registered (start_round_player p) = p_registered p"
  "p_outbuf (start_round_player p) = p_outbuf p" "p_admitted (start_round_player p) = p_admitted p"
  "p_choice_chosen (start_round_player p) = p_choice_chosen p"
  "p_spawn_chosen (start_round_player p) = p_spawn_chosen p"
  "p_choice (start_round_player p) = p_choice p"
  "p_x (start_round_player p) = p_x p" "p_y (start_round_player p) = p_y p"
  "p_repick_submitted (start_round_player p) = False"
  by (simp_all add: start_round_player_def Let_def)

lemma alive_start_round_player:
  "p_alive (start_round_player p) \<longleftrightarrow> p_alive p \<or> (player_is_admitted p \<and> p_waiting p)"
  "p_waiting (start_round_player p) \<longleftrightarrow> p_waiting p \<and> \<not> player_is_admitted p"
  by (auto simp: start_round_player_def Let_def player_is_admitted_def)

lemma slot_ok_start_round: "slot_ok p \<Longrightarrow> slot_ok (start_round_player p)"
  by (auto simp: slot_ok_def buffers_ok_def setup_ok_def placed_def out_of_play_def
      alive_start_round_player player_is_admitted_def)

lemma world_core_out:
  "world_core w \<Longrightarrow> fits_out i b w \<Longrightarrow> world_core (append_out i b w)"
  unfolding append_out_def
  by (rule world_core_upd) (auto simp: world_core_def fits_out_def intro!: slot_ok_out)

lemma world_core_drop:
  assumes "world_core w"
  shows "world_core (drop_slot i w)"
proof (cases "p_connected (players w i)")
  case True
  then have p: "players (drop_slot i w) = (players w)(i := empty_slot)"
    by (auto simp: players_drop_slot)
  show ?thesis
    using assms unfolding world_defs p by (simp add: player_is_registered_def)
next
  case False
  with assms show ?thesis by (simp add: drop_slot_def)
qed

lemma world_core_start_round: "world_core w \<Longrightarrow> world_core (start_round w)"
proof -
  assume w: "world_core w"
  let ?v = "time_tick (w\<lparr>phase := PHASE_ROUND_ACTIVE, round_no := round_no w + 1,
    round_deadline := time_now (w\<lparr>phase := PHASE_ROUND_ACTIVE, round_no := round_no w + 1\<rparr>) + ROUND_SECONDS\<rparr>)"
  have "world_core ?v" using w by (simp add: world_defs)
  then have "world_core (for_upto MAX_PLAYERS (\<lambda>i. upd_player i start_round_player) ?v)"
    by (rule world_core_upds) (simp_all add: slot_ok_start_round)
  then show ?thesis by (simp add: start_round_def Let_def)
qed

section \<open>The engine\<close>

lemma alive_append_out [simp]:
  "player_is_alive (players (append_out i b w) j) = player_is_alive (players w j)"
  by (simp add: players_append_out player_is_alive_def)

lemma alive_drop_slot: "player_is_alive (players (drop_slot i w) j) \<Longrightarrow> player_is_alive (players w j)"
  by (auto simp: players_drop_slot player_is_alive_def split: if_splits)

lemma world_core_no_repick: "world_core w \<Longrightarrow> phase w \<noteq> PHASE_REPICK"
  by (simp add: world_core_def)

interpretation ok: engine_step_inv world_ok
  by unfold_locales
    (auto simp: world_ok_def world_core_out world_core_drop world_core_start_round world_core_phase
      dest: alive_drop_slot world_core_no_repick)

section \<open>The handlers\<close>

lemma coord_okI:
  assumes "\<not> fp_lt x fp_zero" and "\<not> fp_le (fp_of_int F32 10) x" and "fp_ok F32 x"
  shows "coord_ok x"
proof -
  have ten: "fp_of_int F32 10 = FFin False 10485760 (- 20)" by code_simp
  have "fp_fin x" if "\<not> fp_is_nan x"
    using assms(1,2) that by (cases x) (auto simp: ten fp_le_def fp_zero_def)
  moreover have "0 \<le> fpval x \<and> fpval x < 10" if "fp_fin x"
    using assms(1,2) that
    by (simp add: fp_lt_val fp_le_val ten fp_zero_def with_sign_def power_int_def power_divide)
  ultimately show ?thesis using assms(3) by (auto simp: coord_ok_def on_grid_def)
qed

lemma placed_if_on_grid:
  "\<not> spawn_off_grid x y \<Longrightarrow> fp_ok F32 x \<Longrightarrow> fp_ok F32 y \<Longrightarrow> coord_ok x \<and> coord_ok y"
  by (auto simp: spawn_off_grid_def GRID_W_def GRID_H_def intro!: coord_okI)

lemma register_player_frame [simp]:
  "p_connected (register_player n p) = p_connected p" "p_id (register_player n p) = p_id p"
  "p_registered (register_player n p) = True" "p_outbuf (register_player n p) = p_outbuf p"
  "p_inbuf (register_player n p) = p_inbuf p" "p_alive (register_player n p) = False"
  by (simp_all add: register_player_def reset_player_progress_def)

lemma valid_name_snprintf: "valid_name n \<Longrightarrow> snprintf_str MAX_NAME_LENGTH n = n"
  by (simp add: valid_name_def snprintf_str_def MAX_NAME_LENGTH_def)

lemma slot_ok_register: "slot_ok p \<Longrightarrow> valid_name n \<Longrightarrow> NUL \<notin> set n \<Longrightarrow> slot_ok (register_player n p)"
  by (auto simp: slot_ok_def buffers_ok_def setup_ok_def register_player_def reset_player_progress_def
      valid_name_snprintf)

lemma find_name_None:
  "find_name w n = None \<longleftrightarrow> (\<forall>i < MAX_PLAYERS. player_is_registered (players w i) \<longrightarrow> p_name (players w i) \<noteq> n)"
  by (auto simp: find_name_def first_slot_def find_None_iff)

lemma world_core_register:
  assumes w: "world_core w" and c: "p_connected (players w i)"
    and f: "find_name w n = None" and v: "valid_name n" "NUL \<notin> set n"
  shows "world_core (upd_player i (register_player n) w)"
proof -
  have "p_name (players w j) \<noteq> n" if "player_is_registered (players w j)" for j
    using that w f by (auto simp: world_defs find_name_None player_is_registered_def)
  moreover have "p_name (register_player n p) = n" for p
    using v by (simp add: register_player_def reset_player_progress_def valid_name_snprintf)
  ultimately have "names_unique (upd_player i (register_player n) w)"
    using w by (auto simp: world_defs player_is_registered_def)
  moreover have "p_connected (players (upd_player i (register_player n) w) j) = p_connected (players w j)"
    "p_id (players (upd_player i (register_player n) w) j) = p_id (players w j)" for j by simp_all
  then have "ids_unique (upd_player i (register_player n) w)"
    using w by (simp add: world_core_def ids_unique_def)
  moreover have "slot_ok (players (upd_player i (register_player n) w) j)" for j
    using w v by (simp add: world_core_def slot_ok_register)
  ultimately show ?thesis using w by (simp add: world_core_def)
qed

lemma world_ok_upd:
  assumes "world_ok w" and "slot_ok (f (players w i))"
    and "p_connected (f (players w i)) = p_connected (players w i)"
    and "p_id (f (players w i)) = p_id (players w i)"
    and "p_name (f (players w i)) = p_name (players w i)"
    and "p_registered (f (players w i)) = p_registered (players w i)"
    and "player_is_alive (f (players w i)) \<Longrightarrow> player_is_alive (players w i)"
  shows "world_ok (upd_player i f w)"
  using assms world_core_upd [of w f i] by (auto simp: world_ok_def)

lemma world_ok_slot: "world_ok w \<Longrightarrow> slot_ok (players w i)"
  by (simp add: world_ok_def world_core_def)

lemma slot_ok_choice:
  "slot_ok p \<Longrightarrow> rps_char c \<Longrightarrow> slot_ok (p\<lparr>p_choice := c, p_choice_chosen := True\<rparr>)"
  by (auto simp: slot_ok_def buffers_ok_def setup_ok_def placed_def out_of_play_def)

lemma slot_ok_spawn:
  "slot_ok p \<Longrightarrow> coord_ok x \<Longrightarrow> coord_ok y \<Longrightarrow> slot_ok (p\<lparr>p_x := x, p_y := y, p_spawn_chosen := True\<rparr>)"
  by (auto simp: slot_ok_def buffers_ok_def setup_ok_def placed_def)

lemma slot_ok_admit:
  "slot_ok p \<Longrightarrow> (p_connected p \<Longrightarrow> p_registered p \<and> \<not> p_admitted p \<and> p_choice_chosen p \<and> p_spawn_chosen p) \<Longrightarrow>
   slot_ok (p\<lparr>p_admitted := True, p_waiting := True\<rparr>)"
  by (auto simp: slot_ok_def buffers_ok_def setup_ok_def placed_def out_of_play_def)

lemma not_alive_admit:
  "slot_ok p \<Longrightarrow> (p_connected p \<Longrightarrow> \<not> p_admitted p) \<Longrightarrow>
   \<not> player_is_alive (p\<lparr>p_admitted := True, p_waiting := True\<rparr>)"
  by (auto simp: slot_ok_def setup_ok_def player_is_alive_def)

section \<open>The rematch\<close>

lemma slot_ok_reset: "slot_ok p \<Longrightarrow> slot_ok (reset_match_player p)"
  by (auto simp: slot_ok_def buffers_ok_def setup_ok_def reset_match_player_def)

lemma reset_match_player_frame [simp]:
  "p_connected (reset_match_player p) = p_connected p" "p_id (reset_match_player p) = p_id p"
  "p_name (reset_match_player p) = p_name p" "p_registered (reset_match_player p) = p_registered p"
  "p_alive (reset_match_player p) = False"
  by (simp_all add: reset_match_player_def)

text \<open>Halfway through the reset, the slots in \<open>A\<close> are out of the match.\<close>

definition resetting :: "nat set \<Rightarrow> World \<Rightarrow> bool" where
  "resetting A w \<longleftrightarrow> world_core w \<and> phase w = PHASE_LOBBY_OPEN \<and>
     (\<forall>j \<in> A. \<not> player_is_alive (players w j))"

interpretation reset: engine_inv "resetting A" for A
  by unfold_locales
    (auto simp: resetting_def world_core_out world_core_drop dest: alive_drop_slot)

lemma resetting_step:
  assumes "resetting A w"
  shows "resetting (insert i A) (if \<not> player_is_registered (players w i) then w
       else case queue_reset_lines i (upd_player i reset_match_player w) of
              (Success, w') \<Rightarrow> w' | (Failure, w') \<Rightarrow> drop_slot i w')"
proof (cases "player_is_registered (players w i)")
  case True
  have "world_core (upd_player i reset_match_player w)"
    using assms by (intro world_core_upd) (auto simp: resetting_def world_core_def slot_ok_reset)
  then have "resetting (insert i A) (upd_player i reset_match_player w)"
    using assms by (auto simp: resetting_def player_is_alive_def)
  from reset.status_case_inv [OF reset.queue_reset_lines_inv [OF this], of i i] True
  show ?thesis by simp
next
  case False
  with assms show ?thesis by (auto simp: resetting_def player_is_alive_def player_is_registered_def)
qed

lemma world_ok_reset_match: "world_ok w \<Longrightarrow> world_ok (reset_match w)"
proof -
  assume w: "world_ok w"
  let ?v = "w\<lparr>phase := PHASE_LOBBY_OPEN, join_deadline := 0, setup_deadline := 0,
          round_deadline := 0, round_no := 0\<rparr>"
  have "world_core ?v" using w by (simp add: world_ok_def world_defs)
  then have "resetting {..<0} ?v" by (simp add: resetting_def)
  then have "resetting {..<MAX_PLAYERS} (reset_match w)"
    unfolding reset_match_def
    by (rule for_upto_rule) (simp only: lessThan_Suc resetting_step)
  then have "world_core (reset_match w)" "\<forall>i < MAX_PLAYERS. \<not> player_is_alive (players (reset_match w) i)"
    by (auto simp: resetting_def)
  moreover have "i < MAX_PLAYERS" if "player_is_alive (players v i)" "world_core v" for v i
    using that by (auto simp: world_defs player_is_alive_def)
  ultimately show ?thesis by (auto simp: world_ok_def)
qed

section \<open>The chase\<close>

lemma find_nearest_prey_spec:
  assumes "find_nearest_prey w i = Some j"
  shows "j < MAX_PLAYERS \<and> is_prey w i j"
proof -
  let ?P = "\<lambda>n b. \<forall>j d. b = Some (j, d) \<longrightarrow> j < n \<and> is_prey w i j"
  have "?P MAX_PLAYERS (for_upto MAX_PLAYERS (nearest_step w i) None)"
    by (rule for_upto_rule [where P = ?P])
      (auto simp: nearest_step_def Let_def less_Suc_eq split: option.splits if_splits)
  with assms show ?thesis by (auto simp: find_nearest_prey_def split: if_splits)
qed

lemma capture_frame [simp]:
  "p_connected (capture p) = p_connected p" "p_id (capture p) = p_id p" "p_name (capture p) = p_name p"
  "p_registered (capture p) = p_registered p" "p_alive (capture p) = False"
  by (simp_all add: capture_def)

lemma move_toward_frame [simp]:
  "p_connected (move_toward dt q p) = p_connected p" "p_id (move_toward dt q p) = p_id p"
  "p_name (move_toward dt q p) = p_name p" "p_registered (move_toward dt q p) = p_registered p"
  "p_alive (move_toward dt q p) = p_alive p" "p_admitted (move_toward dt q p) = p_admitted p"
  "p_waiting (move_toward dt q p) = p_waiting p" "p_choice (move_toward dt q p) = p_choice p"
  "p_choice_chosen (move_toward dt q p) = p_choice_chosen p"
  "p_spawn_chosen (move_toward dt q p) = p_spawn_chosen p"
  "p_repick_submitted (move_toward dt q p) = p_repick_submitted p"
  "p_inbuf (move_toward dt q p) = p_inbuf p" "p_outbuf (move_toward dt q p) = p_outbuf p"
  by (simp_all add: move_toward_def Let_def)

lemma slot_ok_capture: "slot_ok p \<Longrightarrow> player_is_alive p \<Longrightarrow> slot_ok (capture p)"
  by (auto simp: slot_ok_def buffers_ok_def setup_ok_def placed_def out_of_play_def capture_def player_is_alive_def)

lemma slot_ok_alive_placed: "slot_ok p \<Longrightarrow> player_is_alive p \<Longrightarrow> placed p"
  by (auto simp: slot_ok_def setup_ok_def out_of_play_def player_is_alive_def)

lemma slot_ok_move:
  "slot_ok p \<Longrightarrow> placed (move_toward dt q p) \<Longrightarrow> slot_ok (move_toward dt q p)"
  by (auto simp: slot_ok_def buffers_ok_def setup_ok_def)

lemma world_core_capture:
  "world_core w \<Longrightarrow> player_is_alive (players w j) \<Longrightarrow> world_core (upd_player j capture w)"
  by (rule world_core_upd) (auto simp: world_core_def intro: slot_ok_capture)

lemma world_core_hunt:
  assumes w: "world_core w"
  shows "world_core (hunt CHASE_DT i w)"
proof (cases "player_is_alive (players w i) \<and> find_nearest_prey w i \<noteq> None")
  case False
  with w show ?thesis by (auto simp: hunt_def)
next
  case True
  then obtain j where j: "find_nearest_prey w i = Some j" and ai: "player_is_alive (players w i)" by auto
  have prey: "player_is_alive (players w j)" "j \<noteq> i"
    using find_nearest_prey_spec [OF j] by (auto simp: is_prey_def)
  have si: "slot_ok (players w i)" and sj: "slot_ok (players w j)" using w by (auto simp: world_core_def)
  let ?v = "upd_player i (move_toward CHASE_DT (players w j)) w"
  show ?thesis
  proof (cases "fp_le (distance (players w i) (players w j)) CAPTURE_RADIUS")
    case True
    with w prey show ?thesis by (simp add: hunt_def ai j world_core_capture)
  next
    case False
    have "placed (move_toward CHASE_DT (players w j) (players w i))"
      using si sj ai prey False by (intro move_toward_placed) (auto intro: slot_ok_alive_placed)
    then have v: "world_core ?v" using w si by (intro world_core_upd) (auto intro: slot_ok_move)
    moreover have "player_is_alive (players ?v j)" using prey by simp
    ultimately show ?thesis using False
      by (simp add: hunt_def ai j Let_def world_core_capture del: players_upd_player)
  qed
qed

section \<open>The whole server\<close>

lemma slot_ok_init: "slot_ok (init_player_slot fd n)"
  by (simp add: slot_ok_def buffers_ok_def setup_ok_def init_player_slot_def zero_player_def INBUF_SIZE_def)

lemma init_player_slot_frame [simp]:
  "p_connected (init_player_slot fd n)" "p_id (init_player_slot fd n) = n"
  "\<not> p_registered (init_player_slot fd n)" "\<not> p_alive (init_player_slot fd n)"
  by (simp_all add: init_player_slot_def zero_player_def)

lemma world_core_accept:
  assumes w: "world_core w" and i: "i < MAX_PLAYERS"
  shows "world_core (upd_player i (\<lambda>_. init_player_slot fd (next_id w)) (w\<lparr>next_id := next_id w + 1\<rparr>))"
proof -
  let ?v = "upd_player i (\<lambda>_. init_player_slot fd (next_id w)) (w\<lparr>next_id := next_id w + 1\<rparr>)"
  have "names_unique ?v"
    using w by (auto simp: world_defs player_is_registered_def)
  moreover have "ids_unique ?v"
    using w i unfolding world_defs by (auto simp: less_le split: if_splits)
  ultimately show ?thesis using w by (auto simp: world_core_def slot_ok_init)
qed

lemma slot_ok_inbuf:
  "slot_ok p \<Longrightarrow> length b < INBUF_SIZE \<Longrightarrow> (\<not> p_connected p \<Longrightarrow> b = []) \<Longrightarrow> slot_ok (p\<lparr>p_inbuf := b\<rparr>)"
  by (auto simp: slot_ok_def buffers_ok_def setup_ok_def placed_def out_of_play_def)

lemma not_alive_by_slot:
  "world_ok w \<Longrightarrow> slot_ok (f (players w i)) \<Longrightarrow>
   p_connected (f (players w i)) = p_connected (players w i) \<Longrightarrow>
   p_id (f (players w i)) = p_id (players w i) \<Longrightarrow> p_name (f (players w i)) = p_name (players w i) \<Longrightarrow>
   p_registered (f (players w i)) = p_registered (players w i) \<Longrightarrow>
   p_alive (f (players w i)) = p_alive (players w i) \<Longrightarrow>
   p_admitted (f (players w i)) = p_admitted (players w i) \<Longrightarrow> world_ok (upd_player i f w)"
  by (rule world_ok_upd) (auto simp: player_is_alive_def)

lemma world_ok_fields:
  "world_ok w \<Longrightarrow> world_ok (w\<lparr>join_deadline := t\<rparr>)"
  "world_ok w \<Longrightarrow> world_ok (w\<lparr>setup_deadline := t\<rparr>)"
  "world_ok w \<Longrightarrow> world_ok (w\<lparr>closed_fds := fds\<rparr>)"
  "world_ok w \<Longrightarrow> world_ok (w\<lparr>phase := PHASE_SETUP\<rparr>)"
  by (simp_all add: world_ok_def world_core_phase)

lemma world_ok_admit:
  assumes w: "world_ok w"
    and c: "p_connected (players w i) \<Longrightarrow> p_registered (players w i) \<and> \<not> p_admitted (players w i) \<and>
          p_choice_chosen (players w i) \<and> p_spawn_chosen (players w i)"
  shows "world_ok (upd_player i (\<lambda>p. p\<lparr>p_admitted := True, p_waiting := True\<rparr>) w)"
proof -
  note slot = world_ok_slot [OF w, of i]
  have "\<not> player_is_alive ((players w i)\<lparr>p_admitted := True, p_waiting := True\<rparr>)"
    using slot c by (intro not_alive_admit) auto
  then show ?thesis
    using w slot_ok_admit [OF slot c] by (intro world_ok_upd) auto
qed

lemma world_ok_register:
  "world_ok w \<Longrightarrow> p_connected (players w i) \<Longrightarrow> find_name w name = None \<Longrightarrow> valid_name name \<Longrightarrow>
   NUL \<notin> set name \<Longrightarrow> world_ok (upd_player i (register_player name) w)"
  by (auto simp: world_ok_def world_core_register player_is_alive_def)

lemma world_ok_choice:
  "world_ok w \<Longrightarrow> rps_char c \<Longrightarrow> world_ok (upd_player i (\<lambda>p. p\<lparr>p_choice := c, p_choice_chosen := True\<rparr>) w)"
  by (rule not_alive_by_slot) (simp_all add: slot_ok_choice world_ok_slot)

lemma world_ok_spawn:
  "world_ok w \<Longrightarrow> \<not> spawn_off_grid x y \<Longrightarrow> fp_ok F32 x \<Longrightarrow> fp_ok F32 y \<Longrightarrow>
   world_ok (upd_player i (\<lambda>p. p\<lparr>p_x := x, p_y := y, p_spawn_chosen := True\<rparr>) w)"
  by (rule not_alive_by_slot) (simp_all add: slot_ok_spawn world_ok_slot placed_if_on_grid)

lemma world_ok_repick:
  "world_ok w \<Longrightarrow> phase w \<noteq> PHASE_REPICK"
  by (simp add: world_ok_def world_core_def)

lemma world_ok_hunt:
  "world_ok w \<Longrightarrow> phase w = PHASE_ROUND_ACTIVE \<Longrightarrow> world_ok (hunt CHASE_DT i w)"
  by (simp add: world_ok_def world_core_hunt)

lemma world_ok_accept:
  assumes w: "world_ok w" and i: "i < MAX_PLAYERS"
  shows "world_ok (upd_player i (\<lambda>_. init_player_slot fd (next_id w)) (w\<lparr>next_id := next_id w + 1\<rparr>))"
  using w world_core_accept [OF _ i, of w fd] by (auto simp: world_ok_def player_is_alive_def)

lemma world_ok_inbuf:
  "world_ok w \<Longrightarrow> length b < INBUF_SIZE \<Longrightarrow> (\<not> p_connected (players w i) \<Longrightarrow> b = []) \<Longrightarrow>
   world_ok (upd_player i (\<lambda>p. p\<lparr>p_inbuf := b\<rparr>) w)"
  by (rule not_alive_by_slot) (simp_all add: slot_ok_inbuf world_ok_slot)

lemma world_ok_outbuf:
  "world_ok w \<Longrightarrow> length b \<le> OUTBUF_SIZE \<Longrightarrow> world_ok (upd_player i (\<lambda>p. p\<lparr>p_outbuf := b\<rparr>) w)"
  by (rule not_alive_by_slot) (simp_all add: slot_ok_out world_ok_slot)

lemma world_ok_bufs:
  assumes "world_ok w"
  shows "length (p_outbuf (players w i)) \<le> OUTBUF_SIZE" "length (p_inbuf (players w i)) < INBUF_SIZE"
    "\<not> p_connected (players w i) \<Longrightarrow> p_inbuf (players w i) = []"
  using world_ok_slot [OF assms, of i] by (simp_all add: slot_ok_def buffers_ok_def)

lemma world_ok_read:
  assumes w: "world_ok w" and c: "p_connected (players w i)"
    and l: "length (p_inbuf (players w i) @ tmp) < INBUF_SIZE"
  shows "world_ok (upd_player i (\<lambda>p. p\<lparr>p_inbuf := p_inbuf p @ tmp\<rparr>) w)"
proof -
  have "upd_player i (\<lambda>p. p\<lparr>p_inbuf := p_inbuf p @ tmp\<rparr>) w =
      upd_player i (\<lambda>p. p\<lparr>p_inbuf := p_inbuf (players w i) @ tmp\<rparr>) w"
    by (rule upd_player_same) simp
  moreover have "world_ok (upd_player i (\<lambda>p. p\<lparr>p_inbuf := p_inbuf (players w i) @ tmp\<rparr>) w)"
    using c l by (intro world_ok_inbuf [OF w]) auto
  ultimately show ?thesis by simp
qed

lemma world_ok_pop:
  assumes w: "world_ok w" and l: "length rest \<le> length (p_inbuf (players w i))"
  shows "world_ok (upd_player i (\<lambda>p. p\<lparr>p_inbuf := rest\<rparr>) w)"
  using l world_ok_bufs [OF w, of i] by (intro world_ok_inbuf [OF w]) auto

lemma world_ok_flush:
  assumes w: "world_ok w" and l: "length buf \<le> length (p_outbuf (players w i))"
  shows "world_ok (upd_player i (\<lambda>p. p\<lparr>p_outbuf := buf\<rparr>) w)"
  using l world_ok_bufs(1) [OF w, of i] by (intro world_ok_outbuf [OF w]) linarith

lemmas world_ok_laws = world_ok_fields world_ok_admit world_ok_register world_ok_choice
  world_ok_spawn world_ok_reset_match world_ok_hunt world_ok_accept world_ok_read world_ok_pop
  world_ok_flush world_ok_bufs(3)

interpretation srv: server_inv world_ok
  by unfold_locales (use world_ok_repick in \<open>blast intro: world_ok_laws\<close>)+

section \<open>Reachable states\<close>

lemma world_ok_init: "world_ok (init_server_state clock)"
  by (auto simp: world_ok_def world_defs init_server_state_def zero_player_def slot_ok_def
      buffers_ok_def INBUF_SIZE_def player_is_registered_def player_is_alive_def)

text \<open>The states of the server between two iterations of its loop.\<close>

inductive reachable :: "int \<Rightarrow> Loop \<Rightarrow> bool" for listen_fd where
  start: "reachable listen_fd (server_start clock now)"
| step: "reachable listen_fd l \<Longrightarrow> reachable listen_fd (server_iteration listen_fd ev l)"

lemma reachable_world_ok: "reachable listen_fd l \<Longrightarrow> world_ok (lp_state l)"
  by (induction rule: reachable.induct)
    (simp_all add: server_start_def world_ok_init srv.server_iteration_inv)

end
