(* ===== verification/Game_Props.thy ===== *)
theory Game_Props
  imports Server_Inv "HOL-Library.Product_Lexorder" "HOL-Library.Multiset"
begin

text \<open>
  The match computations against what they are for: the counts and readiness scans of
  \<open>game.c\<close> and \<open>server_state.c\<close> as statements about sets of players, the rock-paper-scissors
  relation, the start of a round, and the nearest-neighbour pairing.
\<close>

section \<open>Scans over the slots\<close>

definition alive_set :: "World \<Rightarrow> nat set" where
  "alive_set w = {i. i < MAX_PLAYERS \<and> player_is_alive (players w i)}"

definition admitted_set :: "World \<Rightarrow> nat set" where
  "admitted_set w = {i. i < MAX_PLAYERS \<and> player_is_admitted (players w i)}"

lemma finite_slot_sets [simp]: "finite (alive_set w)" "finite (admitted_set w)"
  by (simp_all add: alive_set_def admitted_set_def)

lemma admitted_count_card: "admitted_count w = card (admitted_set w)"
  by (simp add: admitted_count_def admitted_set_def count_players_card)

lemma active_alive_count_card: "active_alive_count w = card (alive_set w)"
  by (simp add: active_alive_count_def alive_set_def count_players_card)

text \<open>A scan that counts the slots with \<open>P\<close> and gives up at one with \<open>Q\<close>.\<close>

lemma scan_count:
  "for_upto n (\<lambda>i r. case r of None \<Rightarrow> None | Some k \<Rightarrow>
       if P i then (if Q i then None else Some (k + 1)) else Some k) (Some (0::nat)) =
   (if \<exists>i < n. P i \<and> Q i then None else Some (card {i. i < n \<and> P i}))"
proof (induction n)
  case (Suc n)
  have "{i. i < Suc n \<and> P i} = (if P n then insert n {i. i < n \<and> P i} else {i. i < n \<and> P i})"
    by (auto simp: less_Suc_eq)
  moreover have "(\<exists>i < Suc n. P i \<and> Q i) \<longleftrightarrow> (\<exists>i < n. P i \<and> Q i) \<or> (P n \<and> Q n)"
    by (auto simp: less_Suc_eq)
  ultimately show ?case by (simp add: for_upto_Suc Suc.IH) blast
qed simp

lemma all_admitted_ready_iff:
  "all_admitted_ready w \<longleftrightarrow> 2 \<le> admitted_count w \<and>
     (\<forall>i \<in> admitted_set w. p_choice_chosen (players w i) \<and> p_spawn_chosen (players w i))"
  unfolding all_admitted_ready_def scan_count
  by (auto simp: admitted_count_card admitted_set_def)

lemma all_alive_repicked_iff:
  "all_alive_repicked w \<longleftrightarrow> alive_set w \<noteq> {} \<and> (\<forall>i \<in> alive_set w. p_repick_submitted (players w i))"
  unfolding all_alive_repicked_def scan_count
  by (auto simp: alive_set_def card_gt_0_iff)

lemma same_choice_scan:
  "for_upto n (\<lambda>i r. case r of None \<Rightarrow> None | Some seen \<Rightarrow>
       if P i then (case seen of None \<Rightarrow> Some (Some (c i))
                    | Some first \<Rightarrow> if c i \<noteq> first then None else Some (Some first))
       else Some seen) (Some None) = r \<Longrightarrow>
   (case r of
      None \<Rightarrow> \<exists>i < n. \<exists>j < n. P i \<and> P j \<and> c i \<noteq> c j
    | Some None \<Rightarrow> \<forall>i < n. \<not> P i
    | Some (Some a) \<Rightarrow> (\<exists>i < n. P i) \<and> (\<forall>i < n. P i \<longrightarrow> c i = a))"
proof (induction n arbitrary: r)
  case (Suc n)
  show ?case
    using Suc.IH [OF refl] Suc.prems
    by (auto simp: for_upto_Suc less_Suc_eq split: option.splits if_splits)
qed auto

lemma all_alive_same_choice_iff:
  "all_alive_same_choice w \<longleftrightarrow> 2 \<le> active_alive_count w \<and>
     (\<forall>i \<in> alive_set w. \<forall>j \<in> alive_set w. p_choice (players w i) = p_choice (players w j))"
proof -
  define r where "r = for_upto MAX_PLAYERS (\<lambda>i r. case r of None \<Rightarrow> None | Some seen \<Rightarrow>
       if player_is_alive (players w i) then (case seen of None \<Rightarrow> Some (Some (p_choice (players w i)))
                    | Some first \<Rightarrow> if p_choice (players w i) \<noteq> first then None else Some (Some first))
       else Some seen) (Some None)"
  note spec = same_choice_scan [OF r_def [symmetric]]
  have eq: "all_alive_same_choice w = (case r of None \<Rightarrow> False
      | Some seen \<Rightarrow> seen \<noteq> None \<and> 2 \<le> active_alive_count w)"
    unfolding all_alive_same_choice_def r_def by (rule refl)
  show ?thesis
  proof (cases r)
    case None
    with spec eq show ?thesis by (auto simp: alive_set_def)
  next
    case (Some seen)
    show ?thesis
    proof (cases seen)
      case None
      with Some spec have "alive_set w = {}" by (auto simp: alive_set_def)
      with Some None eq show ?thesis by (simp add: active_alive_count_card)
    next
      case (Some a)
      with \<open>r = Some seen\<close> spec eq show ?thesis by (auto simp: alive_set_def)
    qed
  qed
qed


text \<open>C30. The readiness and agreement scans decide what their names say.\<close>

theorem scans_spec:
  "(all_admitted_ready w \<longleftrightarrow> 2 \<le> card (admitted_set w) \<and>
      (\<forall>i \<in> admitted_set w. p_choice_chosen (players w i) \<and> p_spawn_chosen (players w i))) \<and>
   (all_alive_repicked w \<longleftrightarrow> alive_set w \<noteq> {} \<and> (\<forall>i \<in> alive_set w. p_repick_submitted (players w i))) \<and>
   (all_alive_same_choice w \<longleftrightarrow> 2 \<le> card (alive_set w) \<and>
      (\<forall>i \<in> alive_set w. \<forall>j \<in> alive_set w. p_choice (players w i) = p_choice (players w j)))"
  by (simp add: all_admitted_ready_iff all_alive_repicked_iff all_alive_same_choice_iff
      admitted_count_card active_alive_count_card)

section \<open>The types still in play\<close>

definition alive_types :: "World \<Rightarrow> char set" where
  "alive_types w = (\<lambda>i. p_choice (players w i)) ` alive_set w \<inter> {CHR ''R'', CHR ''P'', CHR ''S''}"

lemma flags_scan:
  assumes "a \<noteq> b" "a \<noteq> c" "b \<noteq> c"
  shows "for_upto n (\<lambda>i (x, y, z).
       if \<not> P i then (x, y, z) else if f i = a then (True, y, z) else if f i = b then (x, True, z)
       else if f i = c then (x, y, True) else (x, y, z)) (False, False, False) =
     (\<exists>i < n. P i \<and> f i = a, \<exists>i < n. P i \<and> f i = b, \<exists>i < n. P i \<and> f i = c)"
  using assms by (induction n) (auto simp: for_upto_Suc less_Suc_eq)

lemma card_three:
  assumes "a \<noteq> b" "a \<noteq> c" "b \<noteq> c"
  shows "card (A \<inter> {a, b, c}) = of_bool (a \<in> A) + of_bool (b \<in> A) + of_bool (c \<in> A)"
  using assms by (cases "a \<in> A"; cases "b \<in> A"; cases "c \<in> A") simp_all

lemma count_alive_choice_types_card: "count_alive_choice_types w = card (alive_types w)"
  unfolding count_alive_choice_types_def alive_types_def
  by (subst flags_scan, simp, simp, simp, subst card_three)
    (auto simp: alive_set_def image_iff intro!: arg_cong2 [of _ _ _ _ "(+)"])

lemma count_choice_types_alive_card: "count_choice_types_alive w = card (alive_types w)"
proof -
  have "alive_types w = (\<lambda>i. p_choice (players w i)) ` alive_set w \<inter> {CHR ''R'', CHR ''S'', CHR ''P''}"
    by (auto simp: alive_types_def)
  note eq = this
  show ?thesis
    unfolding count_choice_types_alive_def eq
    by (subst flags_scan, simp, simp, simp, subst card_three)
      (auto simp: alive_set_def image_iff intro!: arg_cong2 [of _ _ _ _ "(+)"])
qed

text \<open>
  The two counters of the types in play, in \<open>chase_simulation.c\<close> and in \<open>server_state.c\<close>,
  compute the same number: that of the different types among the players alive.
\<close>

lemma type_counters_agree:
  "count_choice_types_alive w = count_alive_choice_types w \<and>
   count_alive_choice_types w = card (alive_types w)"
  by (simp add: count_choice_types_alive_card count_alive_choice_types_card)

section \<open>The relation\<close>

text \<open>
  The two versions of the rules agree: a positive result is a legal meal, a negative one the
  meal of the other, a tie is equality, and swapping the sides swaps the result.
\<close>

lemma rps_result_can_eat:
  assumes "rps_char a" and "rps_char b"
  shows "(rps_result a b = 1 \<longleftrightarrow> can_eat a b) \<and> (rps_result a b = - 1 \<longleftrightarrow> can_eat b a) \<and>
         (rps_result a b = 0 \<longleftrightarrow> a = b) \<and> rps_result b a = - rps_result a b"
  using assms by (auto simp: rps_char_def rps_result_def can_eat_def)

section \<open>The start of a round\<close>

lemma start_round_player_preds:
  "player_is_admitted (start_round_player p) = player_is_admitted p"
  "player_is_alive (start_round_player p) \<longleftrightarrow> player_is_alive p \<or> player_is_admitted p \<and> p_waiting p"
  "p_waiting (start_round_player p) \<longleftrightarrow> p_waiting p \<and> \<not> player_is_admitted p"
  "p_in_round (start_round_player p) \<longleftrightarrow> player_is_alive p \<or> player_is_admitted p \<and> p_waiting p"
  by (auto simp: start_round_player_def Let_def player_is_alive_def player_is_admitted_def)

text \<open>
  C28. A round starts with exactly the players who were alive or admitted and waiting; nobody
  admitted waits any more, old repicks are gone, and identities, places and choices are kept.
\<close>

theorem start_round_spec:
  "phase (start_round w) = PHASE_ROUND_ACTIVE \<and> round_no (start_round w) = round_no w + 1 \<and>
   round_deadline (start_round w) = time_now w + ROUND_SECONDS \<and>
   alive_set (start_round w) = alive_set w \<union> {i \<in> admitted_set w. p_waiting (players w i)} \<and>
   (\<forall>i \<in> admitted_set (start_round w). \<not> p_waiting (players (start_round w) i)) \<and>
   set (round_participants (start_round w)) = alive_set (start_round w) \<and>
   admitted_set (start_round w) = admitted_set w"
proof -
  have r: "players (start_round w) i = (if i < MAX_PLAYERS then start_round_player (players w i) else players w i)" for i
    by (simp add: players_start_round)
  have d: "round_deadline (start_round w) = time_now w + ROUND_SECONDS"
    by (simp add: start_round_def Let_def time_now_def)
  have "alive_set (start_round w) = alive_set w \<union> {i \<in> admitted_set w. p_waiting (players w i)}"
    and "\<forall>i \<in> admitted_set (start_round w). \<not> p_waiting (players (start_round w) i)"
    and "set (round_participants (start_round w)) = alive_set (start_round w)"
    and "admitted_set (start_round w) = admitted_set w"
    by (auto simp: alive_set_def admitted_set_def round_participants_def r start_round_player_preds)
  with d show ?thesis by simp
qed

text \<open>Two admitted players wait in a fresh server, with different choices.\<close>

definition two_waiting :: World where
  "two_waiting = fold (\<lambda>(i, c). upd_player i (\<lambda>p. p\<lparr>p_connected := True, p_registered := True,
       p_admitted := True, p_waiting := True, p_choice := c, p_choice_chosen := True, p_spawn_chosen := True\<rparr>))
     [(0, CHR ''R''), (1, CHR ''S'')] (init_server_state (\<lambda>_. 0))"

lemma two_waiting_sets: "admitted_set two_waiting = {0, 1}" "alive_set two_waiting = {}"
  by (auto simp: two_waiting_def admitted_set_def alive_set_def player_is_admitted_def player_is_alive_def
      init_server_state_def zero_player_def MAX_PLAYERS_def split: if_splits)

theorem start_round_spec_witness: "alive_set (start_round two_waiting) = {0, 1}"
proof -
  have "{i \<in> admitted_set two_waiting. p_waiting (players two_waiting i)} = {0, 1}"
    by (auto simp: two_waiting_sets) (simp_all add: two_waiting_def)
  with start_round_spec [of two_waiting] show ?thesis by (simp add: two_waiting_sets)
qed

theorem scans_spec_witness: "all_admitted_ready two_waiting \<and> \<not> all_alive_same_choice two_waiting"
proof -
  have "\<forall>i \<in> {0, 1}. p_choice_chosen (players two_waiting i) \<and> p_spawn_chosen (players two_waiting i)"
    by (simp add: two_waiting_def)
  with scans_spec [of two_waiting] show ?thesis by (simp add: two_waiting_sets)
qed

end
