(* ===== verification/Hunting.thy ===== *)
theory Hunting
  imports Game_Props
begin

text \<open>
  The chase (\<open>src/src/chase_simulation.c\<close>): the prey chosen is a nearest one, a tick only
  removes prey of live players, it never removes the last player, and what
  a NaN coordinate does to all this.
\<close>

section \<open>The nearest prey\<close>

lemma fp_lt_trans: "fp_lt x y \<Longrightarrow> fp_lt y z \<Longrightarrow> fp_lt x z"
proof (cases "fp_fin x \<and> fp_fin y \<and> fp_fin z")
  case True
  assume "fp_lt x y" "fp_lt y z"
  with True show ?thesis by (simp add: fp_lt_val)
next
  case False
  assume "fp_lt x y" "fp_lt y z"
  with False show ?thesis by (cases x; cases y; cases z) auto
qed

definition prey_set :: "World \<Rightarrow> nat \<Rightarrow> nat set" where
  "prey_set w i = {j. j < MAX_PLAYERS \<and> player_is_alive (players w i) \<and> is_prey w i j}"

text \<open>After \<open>n\<close> slots the search holds a nearest prey among them, with its distance.\<close>

definition nearest_among :: "World \<Rightarrow> nat \<Rightarrow> nat \<Rightarrow> (nat \<times> fp) option \<Rightarrow> bool" where
  "nearest_among w i n best \<longleftrightarrow>
     (case best of
        None \<Rightarrow> \<forall>k < n. \<not> is_prey w i k
      | Some (j, d) \<Rightarrow> j < n \<and> is_prey w i j \<and> d = distance (players w i) (players w j) \<and>
          (\<forall>k < n. is_prey w i k \<longrightarrow> \<not> fp_lt (distance (players w i) (players w k)) d))"

lemma nearest_among_step:
  assumes "nearest_among w i n best"
  shows "nearest_among w i (Suc n) (nearest_step w i n best)"
proof (cases "is_prey w i n")
  case False
  with assms show ?thesis
    by (auto simp: nearest_among_def nearest_step_def less_Suc_eq split: option.splits)
next
  case True
  show ?thesis
  proof (cases best)
    case None
    with assms True show ?thesis by (auto simp: nearest_among_def nearest_step_def less_Suc_eq)
  next
    case (Some r)
    obtain j d where r: "r = (j, d)" by fastforce
    have old: "\<not> fp_lt (distance (players w i) (players w k)) d" if "k < n" "is_prey w i k" for k
      using assms Some r that by (auto simp: nearest_among_def)
    have new: "\<not> fp_lt (distance (players w i) (players w k)) (distance (players w i) (players w n))"
      if "fp_lt (distance (players w i) (players w n)) d" "k < n" "is_prey w i k" for k
      using old [OF that(2,3)] that(1) fp_lt_trans by blast
    with assms True Some r old show ?thesis
      by (auto simp: nearest_among_def nearest_step_def Let_def less_Suc_eq)
  qed
qed

lemma find_nearest_prey_correct:
  "case find_nearest_prey w i of
     None \<Rightarrow> prey_set w i = {}
   | Some j \<Rightarrow> j \<in> prey_set w i \<and>
       \<not> (\<exists>k \<in> prey_set w i. fp_lt (distance (players w i) (players w k)) (distance (players w i) (players w j)))"
proof -
  have n: "nearest_among w i MAX_PLAYERS (for_upto MAX_PLAYERS (nearest_step w i) None)"
    by (rule for_upto_rule [where P = "nearest_among w i"])
      (simp_all add: nearest_among_def nearest_among_step [unfolded nearest_among_def])
  then show ?thesis
    by (cases "for_upto MAX_PLAYERS (nearest_step w i) None")
      (auto simp: find_nearest_prey_def nearest_among_def prey_set_def)
qed

text \<open>
  C19. The hunter gets a target exactly when there is prey, and no prey is closer than the target.
\<close>

theorem find_nearest_prey_nearest:
  "case find_nearest_prey w i of
     None \<Rightarrow> prey_set w i = {}
   | Some j \<Rightarrow> j \<in> prey_set w i \<and>
       \<not> (\<exists>k \<in> prey_set w i. fp_lt (distance (players w i) (players w k)) (distance (players w i) (players w j)))"
  by (rule find_nearest_prey_correct)

section \<open>One hunter\<close>

lemma hunt_cases:
  obtains "hunt dt i w = w"
  | j where "player_is_alive (players w i)" "find_nearest_prey w i = Some j"
      "hunt dt i w = upd_player j capture w"
  | j where "player_is_alive (players w i)" "find_nearest_prey w i = Some j"
      "hunt dt i w = upd_player i (move_toward dt (players w j)) w"
  | j where "player_is_alive (players w i)" "find_nearest_prey w i = Some j"
      "hunt dt i w = upd_player j capture (upd_player i (move_toward dt (players w j)) w)"
proof (cases "player_is_alive (players w i)")
  case True
  show ?thesis
  proof (cases "find_nearest_prey w i")
    case (Some j)
    let ?v = "upd_player i (move_toward dt (players w j)) w"
    have "hunt dt i w = upd_player j capture w \<or> hunt dt i w = ?v \<or> hunt dt i w = upd_player j capture ?v"
      using True Some by (simp add: hunt_def Let_def)
    with True Some that show ?thesis by blast
  qed (use that(1) in \<open>simp add: hunt_def\<close>)
qed (use that(1) in \<open>simp add: hunt_def\<close>)

lemma alive_move [simp]: "player_is_alive (move_toward dt q p) = player_is_alive p"
  by (simp add: player_is_alive_def)

lemma not_alive_capture [simp]: "\<not> player_is_alive (capture p)"
  by (simp add: player_is_alive_def)

lemma choice_capture [simp]: "p_choice (capture p) = p_choice p"
  by (simp add: capture_def)

lemma choice_hunt [simp]: "p_choice (players (hunt dt i w) k) = p_choice (players w k)"
  by (cases dt i w rule: hunt_cases) auto

lemma target_is_prey:
  "find_nearest_prey w i = Some j \<Longrightarrow>
   j < MAX_PLAYERS \<and> player_is_alive (players w j) \<and> j \<noteq> i \<and>
   can_eat (p_choice (players w i)) (p_choice (players w j))"
  using find_nearest_prey_spec [of w i j] by (simp add: is_prey_def)

text \<open>The players alive after one hunter's turn: all, or all but one whom the hunter can eat.\<close>

lemma alive_set_hunt:
  obtains "alive_set (hunt dt i w) = alive_set w"
  | j where "j \<in> alive_set w" "player_is_alive (players w i)" "i \<noteq> j"
      "can_eat (p_choice (players w i)) (p_choice (players w j))"
      "alive_set (hunt dt i w) = alive_set w - {j}"
proof (cases dt i w rule: hunt_cases)
  case 1
  then show ?thesis using that(1) by simp
next
  case (2 j)
  with target_is_prey [OF 2(2)] show ?thesis by (intro that(2) [of j]) (auto simp: alive_set_def)
next
  case (3 j)
  then show ?thesis by (intro that(1)) (auto simp: alive_set_def)
next
  case (4 j)
  with target_is_prey [OF 4(2)] show ?thesis by (intro that(2) [of j]) (auto simp: alive_set_def)
qed

section \<open>A tick\<close>

definition tick_inv :: "World \<Rightarrow> World \<Rightarrow> bool" where
  "tick_inv w v \<longleftrightarrow>
     (\<forall>k. p_choice (players v k) = p_choice (players w k)) \<and> alive_set v \<subseteq> alive_set w \<and>
     (alive_set w \<noteq> {} \<longrightarrow> alive_set v \<noteq> {}) \<and>
     alive_set w - alive_set v \<subseteq>
       {j. \<exists>i \<in> alive_set w. can_eat (p_choice (players w i)) (p_choice (players w j))}"

lemma tick_inv_hunt:
  assumes v: "tick_inv w v" and i: "i < MAX_PLAYERS"
  shows "tick_inv w (hunt dt i v)"
proof (cases dt i v rule: alive_set_hunt)
  case 1
  with v show ?thesis by (simp add: tick_inv_def)
next
  case (2 j)
  with i have i': "i \<in> alive_set v" by (simp add: alive_set_def)
  with v have "i \<in> alive_set w" by (auto simp: tick_inv_def)
  with 2 i' v show ?thesis by (auto simp: tick_inv_def)
qed

text \<open>
  C14. A tick only removes players whom somebody alive at its start can eat, changes nobody's
  choice, leaves somebody alive if anybody was, and reports the end of the match exactly when at
  most one type is left.
\<close>

theorem chase_tick_safe:
  "case simulate_chase_tick w dt of (ended, v) \<Rightarrow>
     alive_set v \<subseteq> alive_set w \<and> (alive_set v = {}) = (alive_set w = {}) \<and>
     alive_set w - alive_set v \<subseteq>
       {j. \<exists>i \<in> alive_set w. can_eat (p_choice (players w i)) (p_choice (players w j))} \<and>
     (\<lambda>k. p_choice (players v k)) = (\<lambda>k. p_choice (players w k)) \<and>
     ended = (card (alive_types v) \<le> 1)"
proof -
  define d where "d = (if fp_lt dt fp_zero then fp_zero else dt)"
  define v where "v = for_upto MAX_PLAYERS (hunt d) w"
  have "tick_inv w v"
    unfolding v_def by (rule for_upto_inv) (auto simp: tick_inv_hunt, simp add: tick_inv_def)
  moreover have "simulate_chase_tick w dt = (card (alive_types v) \<le> 1, v)"
    by (simp add: simulate_chase_tick_def Let_def d_def v_def count_choice_types_alive_card)
  ultimately show ?thesis by (auto simp: tick_inv_def)
qed

section \<open>Not a number\<close>

definition nan_at :: "Player \<Rightarrow> bool" where
  "nan_at p \<longleftrightarrow> fp_is_nan (p_x p) \<or> fp_is_nan (p_y p)"

lemma distance_nan: "nan_at a \<or> nan_at b \<Longrightarrow> fp_is_nan (distance a b)"
  by (auto simp: nan_at_def distance_def Let_def)

lemma move_toward_nan: "nan_at q \<or> nan_at p \<Longrightarrow> nan_at (move_toward dt q p)"
proof -
  assume "nan_at q \<or> nan_at p"
  then have "fp_is_nan (fp_hypot (fp_sub F32 (p_x q) (p_x p)) (fp_sub F32 (p_y q) (p_y p)))"
    by (auto simp: nan_at_def)
  then show ?thesis by (simp add: nan_at_def move_toward_def Let_def)
qed

lemma hunt_nan:
  assumes "player_is_alive (players w j)" and "nan_at (players w j)"
  shows "player_is_alive (players (hunt dt i w) j) \<and> nan_at (players (hunt dt i w) j)"
proof (cases "player_is_alive (players w i) \<and> find_nearest_prey w i \<noteq> None")
  case False
  with assms show ?thesis by (auto simp: hunt_def)
next
  case True
  then obtain k where k: "find_nearest_prey w i = Some k" "player_is_alive (players w i)" by auto
  have ki: "k \<noteq> i" using target_is_prey [OF k(1)] by simp
  define v where "v = upd_player i (move_toward dt (players w k)) w"
  have near: "\<not> fp_le (distance (players u i) (players u k)) CAPTURE_RADIUS"
    if "nan_at (players u i) \<or> nan_at (players u k)" for u
    using distance_nan [OF that] by simp
  have kept: "player_is_alive (players v j)" "nan_at (players v j)"
    using assms by (auto simp: v_def move_toward_nan)
  show ?thesis
  proof (cases "j = k")
    case True
    then have "hunt dt i w = v"
      using k ki near [of w] near [of v] assms(2) kept(2) by (simp add: hunt_def Let_def flip: v_def)
    with kept show ?thesis by simp
  next
    case False
    with assms kept k show ?thesis by (simp add: hunt_def Let_def flip: v_def)
  qed
qed

end
