(* ===== verification/Pairing.thy ===== *)
theory Pairing
  imports Game_Props
begin

text \<open>
  Nearest-neighbour pairing (\<open>build_pairs\<close> of \<open>src/src/game.c\<close>): the search returns the pair
  with the least distance, ties broken by the ids, and the pairs with the bye partition the
  participants of the round.
\<close>

section \<open>The search for the closest pair\<close>

definition pair_key :: "World \<Rightarrow> nat list \<Rightarrow> nat \<Rightarrow> nat \<Rightarrow> int \<times> int \<times> int" where
  "pair_key w u i j =
     (dist2 (players w (u ! i)) (players w (u ! j)), p_id (players w (u ! i)), p_id (players w (u ! j)))"

text \<open>\<open>b\<close> is a least pair of the set \<open>S\<close>.\<close>

definition best_of :: "World \<Rightarrow> nat list \<Rightarrow> (nat \<times> nat) set \<Rightarrow> (nat \<times> nat \<times> int) option \<Rightarrow> bool" where
  "best_of w u S b \<longleftrightarrow>
     (case b of
        None \<Rightarrow> S = {}
      | Some (i, j, d) \<Rightarrow> (i, j) \<in> S \<and> d = fst (pair_key w u i j) \<and>
          (\<forall>(i', j') \<in> S. pair_key w u i j \<le> pair_key w u i' j'))"

lemma better_pair_best_of:
  assumes "best_of w u S b"
  shows "best_of w u (insert (i, j) S) (better_pair w u i j b)"
proof (cases b)
  case None
  with assms show ?thesis by (simp add: best_of_def better_pair_def Let_def pair_key_def)
next
  case (Some r)
  obtain bi bj bd where r: "r = (bi, bj, bd)" by (metis prod_cases3)
  with assms Some have S: "(bi, bj) \<in> S" "bd = fst (pair_key w u bi bj)"
    "\<And>i' j'. (i', j') \<in> S \<Longrightarrow> pair_key w u bi bj \<le> pair_key w u i' j'"
    by (auto simp: best_of_def)
  have step: "better_pair w u i j b =
      (if pair_key w u i j < pair_key w u bi bj then Some (i, j, fst (pair_key w u i j)) else b)"
    using S(2) by (auto simp: better_pair_def Let_def Some r pair_key_def)
  show ?thesis
  proof (cases "pair_key w u i j < pair_key w u bi bj")
    case True
    with S(3) have "pair_key w u i j \<le> pair_key w u i' j'" if "(i', j') \<in> S" for i' j'
      using that by (meson less_le_trans less_imp_le)
    with True show ?thesis by (auto simp: step best_of_def)
  next
    case False
    have "better_pair w u i j b = Some (bi, bj, bd)" unfolding step using False Some r by simp
    with False S show ?thesis by (auto simp: best_of_def)
  qed
qed

lemma fold_inner_best_of:
  "best_of w u S b \<Longrightarrow> best_of w u (S \<union> {i} \<times> set js) (fold (\<lambda>j. better_pair w u i j) js b)"
proof (induction js arbitrary: S b)
  case (Cons j js)
  from Cons.IH [OF better_pair_best_of [OF Cons.prems, of i j]] show ?case
    by (simp add: insert_Times_insert Un_insert_left Un_insert_right)
qed simp

lemma fold_outer_best_of:
  "best_of w u S b \<Longrightarrow>
   best_of w u (S \<union> (SIGMA i : set is. set (f i))) (fold (\<lambda>i. fold (\<lambda>j. better_pair w u i j) (f i)) is b)"
proof (induction "is" arbitrary: S b)
  case (Cons i "is")
  have "S \<union> (SIGMA i : set (i # is). set (f i)) = (S \<union> {i} \<times> set (f i)) \<union> (SIGMA i : set is. set (f i))"
    by auto
  with Cons.IH [OF fold_inner_best_of [OF Cons.prems, of i "f i"]] show ?case by simp
qed simp

lemma best_pair_best_of: "best_of w u {(i, j). i < j \<and> j < length u} (best_pair w u)"
proof -
  have "best_of w u {} None" by (simp add: best_of_def)
  from fold_outer_best_of [OF this, of "[0..<length u]" "\<lambda>i. [i + 1..<length u]"]
  have "best_of w u (SIGMA i : {0..<length u}. {i + 1..<length u}) (best_pair w u)"
    by (simp add: best_pair_def)
  moreover have "(SIGMA i : {0..<length u}. {i + 1..<length u}) = {(i, j). i < j \<and> j < length u}"
    by auto
  ultimately show ?thesis by simp
qed

text \<open>
  With two candidates left the search finds a pair, and no other pair is closer, or equally
  close with smaller ids.
\<close>

lemma best_pair_minimal:
  assumes "2 \<le> length u"
  shows "\<exists>i j. best_pair w u = Some (i, j, dist2 (players w (u ! i)) (players w (u ! j))) \<and>
     i < j \<and> j < length u \<and>
     (\<forall>i' j'. i' < j' \<and> j' < length u \<longrightarrow> pair_key w u i j \<le> pair_key w u i' j')"
proof -
  have "(0, 1) \<in> {(i, j). i < j \<and> j < length u}" using assms by simp
  with best_pair_best_of [of w u] show ?thesis
    by (cases "best_pair w u") (auto simp: best_of_def pair_key_def)
qed

section \<open>The pairing loop\<close>

lemma best_pair_Some: "best_pair w u = Some (i, j, d) \<Longrightarrow> i < j \<and> j < length u"
  using best_pair_best_of [of w u] by (auto simp: best_of_def)

lemma best_pair_None: "best_pair w u = None \<longleftrightarrow> length u < 2"
proof
  assume "best_pair w u = None"
  with best_pair_best_of [of w u] have "{(i, j). i < j \<and> j < length u} = {}" by (simp add: best_of_def)
  then have "\<not> (0 < (1::nat) \<and> 1 < length u)" by blast
  then show "length u < 2" by simp
next
  assume "length u < 2"
  moreover have False if "best_pair w u = Some (i, j, d)" for i j d
    using best_pair_Some [OF that] \<open>length u < 2\<close> by simp
  ultimately show "best_pair w u = None" by (metis not_None_eq prod_cases3)
qed

lemma mset_remove_at: "i < length u \<Longrightarrow> mset u = add_mset (u ! i) (mset (remove_at i u))"
  by (metis add_mset_add_single id_take_nth_drop mset.simps(2) mset_append remove_at_def
      union_mset_add_mset_right Suc_eq_plus1)

lemma length_remove_at: "i < length u \<Longrightarrow> length (remove_at i u) = length u - 1"
  by (simp add: remove_at_def)

lemma mset_remove_pair:
  assumes "i < j" and "j < length u"
  shows "mset u = {# u ! i, u ! j #} + mset (remove_at i (remove_at j u))"
proof -
  have "remove_at j u ! i = u ! i" using assms by (simp add: remove_at_def nth_append)
  moreover have "i < length (remove_at j u)" using assms by (simp add: length_remove_at)
  ultimately show ?thesis
    using mset_remove_at [of j u] mset_remove_at [of i "remove_at j u"] assms by simp
qed

definition pair_members :: "Pair list \<Rightarrow> nat list" where
  "pair_members ps = concat (map (\<lambda>pr. [pair_a pr, pair_b pr]) ps)"

lemma pair_members_simps [simp]:
  "pair_members [] = []" "pair_members (ps @ qs) = pair_members ps @ pair_members qs"
  "pair_members (pr # ps) = pair_a pr # pair_b pr # pair_members ps"
  by (simp_all add: pair_members_def)

lemma length_pair_members [simp]: "length (pair_members ps) = 2 * length ps"
  by (induction ps) simp_all

lemma pair_loop_spec:
  "pair_loop w mp u ps = (ps', u') \<Longrightarrow>
   mset (pair_members ps') + mset u' = mset (pair_members ps) + mset u \<and>
   (length u' < 2 \<or> mp \<le> length ps')"
proof (induction w mp u ps rule: pair_loop.induct)
  case (1 w mp u ps)
  show ?case
  proof (cases "2 \<le> length u \<and> length ps < mp")
    case False
    with 1(2) show ?thesis by (auto simp: pair_loop.simps [of w mp u ps])
  next
    case True
    then obtain i j d where b: "best_pair w u = Some (i, j, d)"
      using best_pair_None [of w u] by (cases "best_pair w u") auto
    note bounds = best_pair_Some [OF b]
    from 1(1) [OF True b] 1(2) True b
    have "mset (pair_members ps') + mset u' =
        mset (pair_members ps) + {# u ! i, u ! j #} + mset (remove_at i (remove_at j u))"
      "length u' < 2 \<or> mp \<le> length ps'"
      by (auto simp: pair_loop.simps [of w mp u ps])
    with mset_remove_pair [of i j u] bounds show ?thesis by simp
  qed
qed

lemma length_round_participants: "length (round_participants w) \<le> 32"
  using length_filter_le [of _ "[0..<MAX_PLAYERS]"] by (simp add: round_participants_def MAX_PLAYERS_def)

text \<open>
  C15. The pairs and the bye partition the players of the round: everybody is in exactly one
  pair or has the bye, and there is a bye exactly when their number is odd.
\<close>

theorem build_pairs_partition:
  "case build_pairs w (MAX_PLAYERS div 2) of (pairs, bye) \<Rightarrow>
     distinct (pair_members pairs @ (case bye of None \<Rightarrow> [] | Some i \<Rightarrow> [i])) \<and>
     set (pair_members pairs @ (case bye of None \<Rightarrow> [] | Some i \<Rightarrow> [i])) = set (round_participants w) \<and>
     length pairs = length (round_participants w) div 2 \<and>
     (bye = None) = even (length (round_participants w))"
proof -
  let ?u = "round_participants w"
  obtain ps u' where l: "pair_loop w (MAX_PLAYERS div 2) ?u [] = (ps, u')" by fastforce
  from pair_loop_spec [OF l]
  have m: "mset (pair_members ps) + mset u' = mset ?u" and s: "length u' < 2 \<or> 16 \<le> length ps"
    by (simp_all add: MAX_PLAYERS_def)
  from m have len: "2 * length ps + length u' = length ?u"
    by (metis length_pair_members size_mset size_union)
  with s length_round_participants [of w] have u': "length u' < 2" by linarith
  then have cases: "u' = [] \<or> (\<exists>x. u' = [x])" by (cases u') (auto simp: length_Suc_conv)
  have "mset (pair_members ps @ u') = mset ?u" using m by simp
  then have "distinct (pair_members ps @ u') = distinct ?u" "set (pair_members ps @ u') = set ?u"
    by (metis mset_eq_imp_distinct_iff, metis mset_eq_setD)
  moreover have "distinct ?u" by (simp add: round_participants_def)
  moreover have "length ps = length ?u div 2" "(length u' \<noteq> 1) = even (length ?u)"
    using len u' by presburger+
  ultimately show ?thesis using cases by (elim disjE exE) (simp_all add: build_pairs_def l)
qed

end
