(* ===== verification/Protocol_Props.thy ===== *)
theory Protocol_Props
  imports Engine_Inv
begin

text \<open>
  What the line transport guarantees: no byte of a buffer is lost or duplicated by popping,
  flushing or sending, and lines queued by one side are the lines popped by the other.
\<close>

section \<open>Popping lines\<close>

text \<open>The line without the carriage return of a CRLF line end.\<close>

definition strip_cr :: "string \<Rightarrow> string" where
  "strip_cr l = (if l \<noteq> [] \<and> last l = cret then butlast l else l)"

lemma takeWhile_append_stop: "c \<notin> set l \<Longrightarrow> takeWhile (\<lambda>x. x \<noteq> c) (l @ c # rest) = l"
  by (induction l) auto

lemma strip_cr_take: "strip_cr l = take (if l \<noteq> [] \<and> last l = cret then length l - 1 else length l) l"
  by (simp add: strip_cr_def butlast_conv_take)

lemma pop_line_Some:
  assumes "newline \<notin> set l"
  shows "pop_line n (l @ newline # rest) = Some (take (n - 1) (strip_cr l), rest)"
proof -
  define k where "k = (if l \<noteq> [] \<and> last l = cret then length l - 1 else length l)"
  have cr: "(0 < length l \<and> (l @ newline # rest) ! (length l - 1) = cret) \<longleftrightarrow> (l \<noteq> [] \<and> last l = cret)"
    by (auto simp: nth_append last_conv_nth)
  have "pop_line n (l @ newline # rest) = Some (take (if n \<le> k then n - 1 else k) (l @ newline # rest), rest)"
    unfolding pop_line_def takeWhile_append_stop [OF assms] Let_def cr k_def by simp
  moreover have "k \<le> length l" by (simp add: k_def)
  moreover have "strip_cr l = take k l" by (simp add: strip_cr_take k_def)
  moreover have "(if n \<le> k then n - 1 else k) = min (n - 1) k" by simp
  ultimately show ?thesis by simp
qed

lemma pop_line_None: "pop_line n buf = None \<longleftrightarrow> newline \<notin> set buf"
proof (cases "newline \<in> set buf")
  case True
  then obtain l r where "buf = l @ newline # r" "newline \<notin> set l" by (metis split_list_first)
  with True pop_line_Some [of l n r] show ?thesis by simp
next
  case False
  then have "takeWhile (\<lambda>c. c \<noteq> newline) buf = buf" by (auto simp: takeWhile_eq_all_conv)
  then have "length (takeWhile (\<lambda>c. c \<noteq> newline) buf) = length buf" by (rule arg_cong)
  with False show ?thesis by (simp add: pop_line_def Let_def)
qed

text \<open>One pop takes exactly the bytes up to the first line end.\<close>

lemma pop_line_spec:
  "pop_line n buf = Some (line, rest) \<longleftrightarrow>
   (\<exists>l. newline \<notin> set l \<and> buf = l @ newline # rest \<and> line = take (n - 1) (strip_cr l))"
proof
  assume p: "pop_line n buf = Some (line, rest)"
  then have "newline \<in> set buf" using pop_line_None [of n buf] by auto
  then obtain l r where "buf = l @ newline # r" "newline \<notin> set l" by (metis split_list_first)
  then show "\<exists>l. newline \<notin> set l \<and> buf = l @ newline # rest \<and> line = take (n - 1) (strip_cr l)"
    using p pop_line_Some [of l n r] by auto
next
  assume "\<exists>l. newline \<notin> set l \<and> buf = l @ newline # rest \<and> line = take (n - 1) (strip_cr l)"
  then show "pop_line n buf = Some (line, rest)" using pop_line_Some by auto
qed


section \<open>Draining a buffer\<close>

text \<open>The lines the loop \<open>while (pop_line(...)) ...\<close> extracts, and what stays in the buffer.\<close>

function pop_lines :: "nat \<Rightarrow> string \<Rightarrow> string list \<times> string" where
  "pop_lines n buf =
     (case pop_line n buf of
        None \<Rightarrow> ([], buf)
      | Some (line, rest) \<Rightarrow> (case pop_lines n rest of (ls, r) \<Rightarrow> (line # ls, r)))"
  by pat_completeness auto
termination
  by (relation "measure (\<lambda>(n, buf). length buf)") (auto simp: pop_line_spec)
declare pop_lines.simps [simp del]

lemma pop_lines_None: "newline \<notin> set buf \<Longrightarrow> pop_lines n buf = ([], buf)"
  by (simp add: pop_lines.simps pop_line_None [THEN iffD2])

lemma pop_lines_Some:
  "newline \<notin> set l \<Longrightarrow> pop_lines n (l @ newline # rest) =
     (take (n - 1) (strip_cr l) # fst (pop_lines n rest), snd (pop_lines n rest))"
  by (subst pop_lines.simps) (simp add: pop_line_Some case_prod_beta)

text \<open>C31. The lines a receiver extracts do not depend on how the bytes were cut into reads.\<close>

theorem pop_lines_chunks:
  "pop_lines n (a @ b) =
     (fst (pop_lines n a) @ fst (pop_lines n (snd (pop_lines n a) @ b)),
      snd (pop_lines n (snd (pop_lines n a) @ b)))"
proof (induction n a rule: pop_lines.induct)
  case (1 n a)
  show ?case
  proof (cases "newline \<in> set a")
    case False
    then show ?thesis by (simp add: pop_lines_None)
  next
    case True
    then obtain l r where a: "a = l @ newline # r" "newline \<notin> set l" by (metis split_list_first)
    with 1 [of "(take (n - 1) (strip_cr l), r)"] show ?thesis
      by (simp add: pop_line_Some pop_lines_Some)
  qed
qed

text \<open>A line the other side reads back unchanged: short enough, no line end, no final CR.\<close>

definition clean_line :: "string \<Rightarrow> bool" where
  "clean_line t \<longleftrightarrow> newline \<notin> set t \<and> strip_cr t = t \<and> length t < MAX_LINE - 2"

definition wire :: "string list \<Rightarrow> string" where
  "wire ts = concat (map (\<lambda>t. t @ [newline]) ts)"

lemma wire_simps [simp]: "wire [] = []" "wire (t # ts) = t @ newline # wire ts"
  by (simp_all add: wire_def)

lemma pop_lines_wire: "\<forall>t \<in> set ts. clean_line t \<Longrightarrow> pop_lines MAX_LINE (wire ts) = (ts, [])"
  by (induction ts) (auto simp: pop_lines_None pop_lines_Some clean_line_def MAX_LINE_def)

lemma queue_line_clean:
  "clean_line t \<Longrightarrow> length (p_outbuf p) + length t < OUTBUF_SIZE \<Longrightarrow>
   queue_line t p = (Success, p\<lparr>p_outbuf := p_outbuf p @ t @ [newline]\<rparr>)"
  by (simp add: queue_line_def clean_line_def Let_def)

lemma queue_lines_wire:
  "\<forall>t \<in> set ts. clean_line t \<Longrightarrow> length (p_outbuf p @ wire ts) \<le> OUTBUF_SIZE \<Longrightarrow>
   fold (\<lambda>t p. snd (queue_line t p)) ts p = p\<lparr>p_outbuf := p_outbuf p @ wire ts\<rparr>"
  by (induction ts arbitrary: p) (simp_all add: queue_line_clean)

text \<open>C24. Lines queued on an empty buffer that has room for them are read back, all and in order.\<close>

theorem framing_roundtrip:
  assumes "p_outbuf p = []" and "\<forall>t \<in> set ts. clean_line t" and "length (wire ts) \<le> OUTBUF_SIZE"
  shows "pop_lines MAX_LINE (p_outbuf (fold (\<lambda>t p. snd (queue_line t p)) ts p)) = (ts, [])"
  using assms by (simp add: queue_lines_wire pop_lines_wire)

theorem framing_roundtrip_witness:
  "pop_lines MAX_LINE
     (p_outbuf (fold (\<lambda>t p. snd (queue_line t p)) [''WELCOME 7'', ''SPECTATING''] zero_player)) =
   ([''WELCOME 7'', ''SPECTATING''], [])"
  by (rule framing_roundtrip)
    (simp_all add: zero_player_def clean_line_def strip_cr_def MAX_LINE_def OUTBUF_SIZE_def)

section \<open>Flushing, sending, reading\<close>

definition makes_progress :: "send_result \<Rightarrow> bool" where
  "makes_progress r = (case r of Sent n \<Rightarrow> 0 < n | _ \<Rightarrow> False)"

lemma flush_loop_spec:
  "flush_loop src k buf = (r, rest) \<Longrightarrow> (\<exists>sent. buf = sent @ rest) \<and> (r = AllFlushed \<longleftrightarrow> rest = [])"
proof (induction src k buf rule: flush_loop.induct)
  case (1 src k buf)
  show ?case
  proof (cases "buf \<noteq> [] \<and> makes_progress (src k)")
    case True
    then obtain n where n: "buf \<noteq> []" "src k = Sent n" "0 < n"
      by (auto simp: makes_progress_def split: send_result.splits)
    with 1 obtain sent where "drop n buf = sent @ rest" "r = AllFlushed \<longleftrightarrow> rest = []"
      by (auto simp: flush_loop.simps [of src k buf])
    moreover from this have "buf = (take n buf @ sent) @ rest" by (metis append.assoc append_take_drop_id)
    ultimately show ?thesis by blast
  next
    case False
    with 1(2) show ?thesis
      by (auto simp: makes_progress_def flush_loop.simps [of src k buf] split: send_result.splits if_splits)
  qed
qed

text \<open>
  Flushing removes a prefix of the output and touches nothing else; it reports completion
  exactly when nothing is left.
\<close>

lemma flush_player_output_spec:
  "case flush_player_output src p of (r, q) \<Rightarrow>
     q = p\<lparr>p_outbuf := p_outbuf q\<rparr> \<and> (\<exists>sent. p_outbuf p = sent @ p_outbuf q) \<and>
     (r = AllFlushed) = (\<not> player_has_pending_output q)"
proof -
  obtain r rest where f: "flush_loop src 0 (p_outbuf p) = (r, rest)" by fastforce
  from flush_loop_spec [OF f] show ?thesis
    by (simp add: flush_player_output_def f player_has_pending_output_def)
qed

lemma send_loop_spec:
  "send_loop src k done buf = (r, w) \<Longrightarrow>
   (\<exists>sent rest. w = done @ sent \<and> buf = sent @ rest \<and> (r = Success \<longleftrightarrow> rest = []))"
proof (induction src k "done" buf rule: send_loop.induct)
  case (1 src k "done" buf)
  show ?case
  proof (cases "buf = []")
    case True
    with 1(2) show ?thesis by (simp add: send_loop.simps [of src k "done" "[]"])
  next
    case False
    then have stop: "\<exists>sent rest. w = done @ sent \<and> buf = sent @ rest \<and> (r = Success \<longleftrightarrow> rest = [])"
      if "(r, w) = (Failure, done)"
      using that by auto
    show ?thesis
    proof (cases "makes_progress (src k)")
      case True
      then obtain n where n: "src k = Sent n" "0 < n"
        by (auto simp: makes_progress_def split: send_result.splits)
      with 1 False obtain sent rest where "w = (done @ take n buf) @ sent" "drop n buf = sent @ rest"
        "r = Success \<longleftrightarrow> rest = []"
        by (auto simp: send_loop.simps [of src k "done" buf])
      moreover from this have "buf = (take n buf @ sent) @ rest" by (metis append.assoc append_take_drop_id)
      ultimately show ?thesis by (metis append.assoc)
    next
      case False
      with 1(2) \<open>buf \<noteq> []\<close> have "(r, w) = (Failure, done)"
        by (auto simp: makes_progress_def send_loop.simps [of src k "done" buf] split: send_result.splits if_splits)
      then show ?thesis by (rule stop)
    qed
  qed
qed

text \<open>
  The blocking send puts a prefix of the line and its line end on the wire, and succeeds
  exactly when all of it is there.
\<close>

lemma send_line_spec:
  "case send_line src t of (r, sent) \<Rightarrow>
     (\<exists>rest. t @ [newline] = sent @ rest) \<and> (r = Success) = (sent = t @ [newline])"
proof (cases "MAX_LINE - 2 \<le> length t")
  case True
  then show ?thesis by (simp add: send_line_def)
next
  case False
  obtain r w where s: "send_loop src 0 [] (t @ [newline]) = (r, w)" by fastforce
  from send_loop_spec [OF s] obtain rest where 
    t: "t @ [newline] = w @ rest" "r = Success \<longleftrightarrow> rest = []" by auto
  from False have "send_line src t = (r, w)" by (simp add: send_line_def s)
  with t show ?thesis by auto
qed

end
