(* ===== verification/Server_Props.thy ===== *)
theory Server_Props
  imports Hunting Pairing Protocol_Props
begin

text \<open>
  The event loop: what holds in every reachable state, that the line loop ends with nothing left
  to pop, and that no descriptor is lost or closed twice.
\<close>

section \<open>Two small states\<close>

text \<open>One client has connected to a fresh server.\<close>

definition joined :: World where
  "joined = snd (add_player 9 (init_server_state (\<lambda>_. 100)))"

lemma joined_eq:
  "joined = upd_player 0 (\<lambda>_. init_player_slot 9 1) ((init_server_state (\<lambda>_. 100))\<lparr>next_id := 2\<rparr>)"
  by (simp add: joined_def add_player_def first_slot_def MAX_PLAYERS_def upt_conv_Cons
      init_server_state_def zero_player_def)

lemma players_joined: "players joined i = (if i = 0 then init_player_slot 9 1 else zero_player)"
  by (simp add: joined_eq init_server_state_def)

lemma world_ok_joined: "world_ok joined"
proof -
  have eq: "joined = upd_player 0 (\<lambda>_. init_player_slot 9 (next_id (init_server_state (\<lambda>_. 100))))
      ((init_server_state (\<lambda>_. 100))\<lparr>next_id := next_id (init_server_state (\<lambda>_. 100)) + 1\<rparr>)"
    by (simp add: joined_eq init_server_state_def)
  show ?thesis unfolding eq by (rule world_ok_accept [OF world_ok_init]) (simp add: MAX_PLAYERS_def)
qed

text \<open>It has then registered.\<close>

definition registered_one :: World where
  "registered_one = upd_player 0 (register_player ''ann'') joined"

lemma world_ok_registered_one: "world_ok registered_one"
  unfolding registered_one_def
proof (rule world_ok_register [OF world_ok_joined])
  show "find_name joined ''ann'' = None"
    by (simp add: find_name_None players_joined player_is_registered_def init_player_slot_def zero_player_def)
  have "\<not> is_space (CHR ''a'')" "\<not> is_space (CHR ''n'')" by code_simp+
  then show "valid_name ''ann''" by (simp add: valid_name_def MAX_NAME_LENGTH_def)
  show "NUL \<notin> set ''ann''" by simp
qed (simp add: players_joined)

section \<open>The line loop\<close>

text \<open>No command makes the input buffer of a slot grow.\<close>

definition inbuf_le :: "nat \<Rightarrow> nat \<Rightarrow> World \<Rightarrow> bool" where
  "inbuf_le i n w \<longleftrightarrow> length (p_inbuf (players w i)) \<le> n"

lemma inbuf_start_round [simp]: "p_inbuf (players (start_round w) i) = p_inbuf (players w i)"
  by (simp add: players_start_round)

lemma inbuf_le_engine:
  "inbuf_le i n w \<Longrightarrow> inbuf_le i n (append_out j t w)"
  "inbuf_le i n w \<Longrightarrow> inbuf_le i n (drop_slot j w)"
  "inbuf_le i n w \<Longrightarrow> inbuf_le i n (time_tick w)"
  by (auto simp: inbuf_le_def players_append_out players_drop_slot)

interpretation inb: engine_step_inv "inbuf_le i n" for i n
  by unfold_locales (simp_all add: inbuf_le_engine, simp_all add: inbuf_le_def for_upto_upd_players)

lemma reset_loop_inv:
  assumes "engine_inv J" and "J (w\<lparr>phase := PHASE_LOBBY_OPEN, join_deadline := 0, setup_deadline := 0,
          round_deadline := 0, round_no := 0\<rparr>)"
    and "\<And>v i. J v \<Longrightarrow> J (upd_player i reset_match_player v)"
  shows "J (reset_match w)"
  unfolding reset_match_def
proof (rule for_upto_inv)
  fix i v
  assume "J v"
  from engine_inv.queue_reset_lines_inv [OF assms(1) assms(3) [OF this]]
  have "J (snd (queue_reset_lines i (upd_player i reset_match_player v)))" .
  from engine_inv.status_case_inv [OF assms(1) this] \<open>J v\<close>
  show "J (if \<not> player_is_registered (players v i) then v
       else case queue_reset_lines i (upd_player i reset_match_player v) of
              (Success, w') \<Rightarrow> w' | (Failure, w') \<Rightarrow> drop_slot i w')"
    by simp
qed (fact assms(2))

lemma inbuf_le_upd:
  "inbuf_le i n w \<Longrightarrow> (\<And>p. p_inbuf (f p) = p_inbuf p) \<Longrightarrow> inbuf_le i n (upd_player j f w)"
  by (auto simp: inbuf_le_def)

interpretation inb: command_inv "inbuf_le i n" for i n
proof unfold_locales
  fix w t j name c x y
  assume w: "inbuf_le i n w"
  show "inbuf_le i n (w\<lparr>join_deadline := t\<rparr>)" using w by (simp add: inbuf_le_def)
  show "inbuf_le i n (upd_player j (\<lambda>p. p\<lparr>p_admitted := True, p_waiting := True\<rparr>) w)"
    using w by (rule inbuf_le_upd) simp
  show "inbuf_le i n (upd_player j (register_player name) w)" using w by (rule inbuf_le_upd) simp
  show "inbuf_le i n (upd_player j (\<lambda>p. p\<lparr>p_choice := c, p_choice_chosen := True\<rparr>) w)"
    using w by (rule inbuf_le_upd) simp
  show "inbuf_le i n (upd_player j (\<lambda>p. p\<lparr>p_x := x, p_y := y, p_spawn_chosen := True\<rparr>) w)"
    using w by (rule inbuf_le_upd) simp
  show "inbuf_le i n (upd_player j (\<lambda>p. p\<lparr>p_repick_choice := c, p_repick_submitted := True\<rparr>) w)"
    using w by (rule inbuf_le_upd) simp
  show "inbuf_le i n (reset_match w)"
    using w by (intro reset_loop_inv [OF inb.engine_inv_axioms] inbuf_le_upd)
      (simp_all add: inbuf_le_def reset_match_player_def)
qed

definition after_line :: "nat \<Rightarrow> string \<Rightarrow> string \<Rightarrow> World \<Rightarrow> World" where
  "after_line i line rest w = handle_command i (cstr line) (upd_player i (\<lambda>p. p\<lparr>p_inbuf := rest\<rparr>) w)"

lemma after_line_shorter:
  assumes w: "world_ok w" and p: "pop_line n (p_inbuf (players w i)) = Some (line, rest)"
  shows "length (p_inbuf (players (after_line i line rest w) i)) < length (p_inbuf (players w i))"
    and "world_ok (after_line i line rest w)"
proof -
  let ?v = "upd_player i (\<lambda>p. p\<lparr>p_inbuf := rest\<rparr>) w"
  have len: "length rest < length (p_inbuf (players w i))" using p by (rule pop_line_rest)
  then have c: "p_connected (players w i)" using world_ok_bufs(3) [OF w, of i] by fastforce
  have "inbuf_le i (length rest) ?v" by (simp add: inbuf_le_def)
  then have "inbuf_le i (length rest) (after_line i line rest w)"
    unfolding after_line_def by (rule inb.handle_command_inv) (simp_all add: c)
  with len show "length (p_inbuf (players (after_line i line rest w) i)) < length (p_inbuf (players w i))"
    by (simp add: inbuf_le_def)
  have "world_ok ?v" using w len by (intro world_ok_pop) simp_all
  then show "world_ok (after_line i line rest w)"
    unfolding after_line_def by (rule srv.handle_command_inv) (simp_all add: c)
qed

lemma drain_lines_enough:
  "world_ok w \<Longrightarrow> length (p_inbuf (players w i)) \<le> n \<Longrightarrow> length (p_inbuf (players w i)) \<le> m \<Longrightarrow>
   drain_lines n i w = drain_lines m i w"
proof (induction n arbitrary: w m)
  case 0
  then have "pop_line MAX_LINE (p_inbuf (players w i)) = None" by (simp add: pop_line_None)
  then show ?case by (cases m) simp_all
next
  case (Suc n)
  show ?case
  proof (cases "pop_line MAX_LINE (p_inbuf (players w i))")
    case None
    then show ?thesis by (cases m) simp_all
  next
    case (Some lr)
    obtain line rest where p: "pop_line MAX_LINE (p_inbuf (players w i)) = Some (line, rest)"
      using Some by (cases lr) simp
    note shorter = after_line_shorter [OF Suc.prems(1) p]
    with Suc.prems(3) obtain m' where m: "m = Suc m'" by (cases m) auto
    with shorter Suc.prems have "drain_lines n i (after_line i line rest w) = drain_lines m' i (after_line i line rest w)"
      by (intro Suc.IH) auto
    then show ?thesis using p m by (simp add: after_line_def)
  qed
qed

text \<open>
  C12. The loop over the lines of one read: with as many steps as the buffer has bytes it is
  the code's \<open>while (pop_line(...)) handle_command(...)\<close>, and it ends with no line left to pop.
\<close>

theorem drain_lines_while:
  assumes "world_ok w"
  shows "drain_lines (length (p_inbuf (players w i))) i w =
     (case pop_line MAX_LINE (p_inbuf (players w i)) of
        None \<Rightarrow> w
      | Some (line, rest) \<Rightarrow>
          let w' = handle_command i (cstr line) (upd_player i (\<lambda>p. p\<lparr>p_inbuf := rest\<rparr>) w)
          in drain_lines (length (p_inbuf (players w' i))) i w') \<and>
    pop_line MAX_LINE (p_inbuf (players (drain_lines (length (p_inbuf (players w i))) i w) i)) = None"
  using assms
proof (induction "length (p_inbuf (players w i))" arbitrary: w rule: less_induct)
  case less
  show ?case
  proof (cases "pop_line MAX_LINE (p_inbuf (players w i))")
    case None
    then show ?thesis by (cases "length (p_inbuf (players w i))") simp_all
  next
    case (Some lr)
    obtain line rest where p: "pop_line MAX_LINE (p_inbuf (players w i)) = Some (line, rest)"
      using Some by (cases lr) simp
    define v where "v = after_line i line rest w"
    note shorter = after_line_shorter [OF less.prems p, folded v_def]
    then obtain k where k: "length (p_inbuf (players w i)) = Suc k"
      by (cases "length (p_inbuf (players w i))") simp_all
    have "drain_lines (Suc k) i w = drain_lines k i v" using p by (simp add: v_def after_line_def)
    also have "\<dots> = drain_lines (length (p_inbuf (players v i))) i v"
      using shorter k by (intro drain_lines_enough) simp_all
    finally have eq: "drain_lines (length (p_inbuf (players w i))) i w = drain_lines (length (p_inbuf (players v i))) i v"
      by (simp add: k)
    then have "drain_lines (length (p_inbuf (players w i))) i w =
        (let w' = after_line i line rest w in drain_lines (length (p_inbuf (players w' i))) i w')"
      by (simp add: v_def Let_def)
    moreover from conjunct2 [OF less.hyps [OF shorter]]
    have "pop_line MAX_LINE (p_inbuf (players (drain_lines (length (p_inbuf (players w i))) i w) i)) = None"
      by (simp only: eq)
    ultimately show ?thesis unfolding p after_line_def by simp
  qed
qed


theorem drain_lines_while_witness:
  "pop_line MAX_LINE (p_inbuf (players (drain_lines 5 0
     (upd_player 0 (\<lambda>p. p\<lparr>p_inbuf := ''QUIT'' @ [newline]\<rparr>) joined)) 0)) = None"
proof -
  let ?w = "upd_player 0 (\<lambda>p. p\<lparr>p_inbuf := ''QUIT'' @ [newline]\<rparr>) joined"
  have ok: "world_ok ?w"
    using world_ok_joined by (rule world_ok_inbuf) (simp_all add: players_joined INBUF_SIZE_def)
  have len: "length (p_inbuf (players ?w 0)) = 5" by simp
  show ?thesis by (rule conjunct2 [OF drain_lines_while [OF ok, of 0], unfolded len])
qed

section \<open>The phases of a running server\<close>

definition settled :: "World \<Rightarrow> bool" where
  "settled w \<longleftrightarrow> phase w = PHASE_LOBBY_OPEN \<or> phase w = PHASE_ROUND_ACTIVE \<or> phase w = PHASE_GAME_OVER"

lemma settled_cong: "phase v = phase w \<Longrightarrow> settled w \<Longrightarrow> settled v"
  by (simp add: settled_def)

lemma phase_reset_match: "phase (reset_match w) = PHASE_LOBBY_OPEN"
  by (rule reset_loop_inv [where J = "\<lambda>v. phase v = PHASE_LOBBY_OPEN"])
    (unfold_locales, simp_all)

lemma settled_laws:
  "settled w \<Longrightarrow> settled (append_out i t w)" "settled w \<Longrightarrow> settled (drop_slot i w)"
  "settled w \<Longrightarrow> settled (time_tick w)" "settled (start_round w)"
  "settled (w\<lparr>phase := PHASE_GAME_OVER\<rparr>)" "settled w \<Longrightarrow> settled (w\<lparr>join_deadline := t'\<rparr>)"
  "settled w \<Longrightarrow> settled (upd_player i f w)" "settled (reset_match w)"
  by (simp_all add: settled_def phase_reset_match)

lemmas world_ok_engine = ok.inv_out ok.inv_drop ok.inv_tick ok.step_start_round ok.step_game_over

interpretation stl: engine_step_inv "\<lambda>w. world_ok w \<and> settled w"
  by unfold_locales (use world_ok_repick in \<open>blast intro: world_ok_laws world_ok_engine settled_laws\<close>)+

interpretation stl: transport_inv "\<lambda>w. world_ok w \<and> settled w"
  by unfold_locales (use world_ok_repick in \<open>blast intro: world_ok_laws world_ok_engine settled_laws\<close>)+

text \<open>Once the lobby has closed, the engine alone ends in a round or at the end of the game.\<close>

definition playing :: "World \<Rightarrow> bool" where
  "playing w \<longleftrightarrow> phase w = PHASE_ROUND_ACTIVE \<or> phase w = PHASE_GAME_OVER"

interpretation play: engine_phase_inv playing
  by unfold_locales (auto simp: playing_def)

lemma playing_start_active_round: "playing (start_active_round w)"
proof -
  have "playing (start_round w)" by (simp add: playing_def)
  then show ?thesis
    unfolding start_active_round_def start_active_round_with_def Let_def
    by (intro play.broadcast_positions_with_inv play.queue_broadcast_with_inv play.reevaluate_state_inv)
qed

lemma playing_end_game: "playing (end_game w)"
proof -
  have "playing (w\<lparr>phase := PHASE_GAME_OVER\<rparr>)" by (simp add: playing_def)
  from play.end_game_inv [OF this] show ?thesis by (simp add: end_game_def)
qed

text \<open>Admission requires a choice and a spawn, so nobody admitted is ever unready.\<close>

lemma admitted_ready:
  assumes "world_ok w"
  shows "all_admitted_ready w \<longleftrightarrow> 2 \<le> admitted_count w"
proof -
  have "p_choice_chosen (players w i) \<and> p_spawn_chosen (players w i)" if "i \<in> admitted_set w" for i
    using world_ok_slot [OF assms, of i] that
    by (auto simp: slot_ok_def setup_ok_def admitted_set_def player_is_admitted_def)
  then show ?thesis by (auto simp: all_admitted_ready_iff)
qed

lemma close_lobby_playing:
  assumes w: "world_ok w" and "phase w = PHASE_LOBBY_OPEN" and "join_deadline w \<noteq> 0"
    and "join_deadline w \<le> time_now w"
  shows "playing (close_lobby_if_needed w)"
proof -
  define v where "v = announce_setup (time_tick w)"
  have "world_ok (time_tick w)" using w by (rule ok.inv_tick)
  then have "world_ok v" using srv.announce_setup_inv [of "time_tick w"] assms by (simp add: v_def)
  then show ?thesis
    using assms admitted_ready [of v]
    by (simp add: close_lobby_if_needed_def Let_def playing_end_game playing_start_active_round flip: v_def)
qed

lemma close_lobby_settled:
  assumes w: "world_ok w" and s: "settled w"
  shows "settled (close_lobby_if_needed w)"
proof (cases "phase w = PHASE_LOBBY_OPEN \<and> join_deadline w \<noteq> 0 \<and> join_deadline w \<le> time_now w")
  case False
  with s show ?thesis by (auto simp: close_lobby_if_needed_def settled_def)
next
  case True
  with close_lobby_playing [OF w] show ?thesis by (auto simp: playing_def settled_def)
qed

lemma advance_settled:
  assumes w: "world_ok w" and s: "settled w"
  shows "settled (fst (advance_match_timers now CHASE_TICK_SECONDS (w, t)))"
proof -
  define v where "v = close_lobby_if_needed w"
  have v: "world_ok v" "settled v" using w s by (simp_all add: v_def srv.close_lobby_inv close_lobby_settled)
  then have e: "expire_unready_setup_players v = v"
    by (auto simp: expire_unready_setup_players_def settled_def)
  define u where "u = for_upto MAX_PLAYERS (hunt CHASE_DT) v"
  have u: "world_ok u \<and> settled u" if "phase v = PHASE_ROUND_ACTIVE"
    using srv.chase_inv [OF v(1) that] that by (simp add: u_def settled_def)
  show ?thesis
    using v u stl.broadcast_positions_inv [of u] stl.reevaluate_state_inv [of "broadcast_positions u"]
    by (auto simp: advance_match_timers_def simulate_chase_tick_def Let_def e
        simp flip: v_def CHASE_DT_def u_def)
qed

lemma drop_player_quiet: "drop_player i False w = drop_slot i w"
  by (simp add: drop_player_def drop_player_with_def drop_slot_def Let_def)

lemma phase_accept: "phase (snd (accept_new_clients listen_fd ev w)) = phase w"
  by (simp add: accept_new_clients_def add_player_def drop_player_quiet
      split: option.split prod.split status.split)

lemma iteration_settled:
  assumes l: "world_ok (lp_state l)" "settled (lp_state l)"
  shows "settled (lp_state (server_iteration listen_fd ev l))"
proof -
  obtain saw w where a: "accept_new_clients listen_fd ev (lp_state l) = (saw, w)" by fastforce
  have w: "world_ok w" using srv.accept_inv [OF l(1), of listen_fd ev] by (simp add: a)
  have "settled w" using l(2) phase_accept [of listen_fd ev "lp_state l"] by (simp add: a settled_def)
  with w have "world_ok v \<and> settled v" if "v = process_player_writes ev (process_player_reads ev w)" for v
    unfolding that by (intro stl.process_player_writes_inv stl.process_player_reads_inv) simp
  then show ?thesis
    using advance_settled by (simp add: server_iteration_def a Let_def split: prod.split) (metis fst_conv)
qed

lemma reachable_settled: "reachable listen_fd l \<Longrightarrow> settled (lp_state l)"
  by (induction rule: reachable.induct)
    (simp_all add: server_start_def init_server_state_def settled_def,
     simp add: iteration_settled reachable_world_ok settled_def [symmetric])

text \<open>
  C13. Between two iterations the server is in the open lobby, in a round, or at the end of the
  game: the setup phase never outlasts the iteration that enters it and the repick phase is
  never entered.
\<close>

theorem reachable_phases:
  assumes "reachable listen_fd l"
  shows "phase (lp_state l) \<in> {PHASE_LOBBY_OPEN, PHASE_ROUND_ACTIVE, PHASE_GAME_OVER}"
  using reachable_settled [OF assms] by (simp add: settled_def)

definition quiet_event :: Event where
  "quiet_event = \<lparr>ev_readable = \<lambda>_. False, ev_writable = \<lambda>_. False, ev_accept = None,
     ev_getfl = 2, ev_setfl = \<lambda>_. 0, ev_refuse = \<lambda>_. SendWouldBlock,
     ev_recv = \<lambda>_. RecvWouldBlock, ev_send = \<lambda>_ _. SendWouldBlock, ev_now = (0, 0)\<rparr>"

lemma reachable_example: "reachable 3 (server_iteration 3 quiet_event (server_start (\<lambda>_. 100) (0, 0)))"
  by (intro reachable.intros)

theorem reachable_phases_witness:
  "phase (lp_state (server_iteration 3 quiet_event (server_start (\<lambda>_. 100) (0, 0))))
    \<in> {PHASE_LOBBY_OPEN, PHASE_ROUND_ACTIVE, PHASE_GAME_OVER}"
  by (rule reachable_phases [OF reachable_example])

text \<open>
  C32. So a client's REPICK is always refused, in every reachable state.
\<close>

theorem repick_always_refused:
  assumes "reachable listen_fd l"
  shows "handle_command i (''REPICK '' @ [c]) (lp_state l) =
    say i ''ERROR not_in_repick_phase'' (lp_state l)"
proof -
  have "phase (lp_state l) \<noteq> PHASE_REPICK"
    using reachable_settled [OF assms] by (auto simp: settled_def)
  then show ?thesis
    by (simp add: handle_command_def parse_command_def snprintf_str_def handle_repick_command_def Let_def)
qed


theorem repick_always_refused_witness:
  "handle_command 0 ''REPICK R'' (lp_state (server_iteration 3 quiet_event (server_start (\<lambda>_. 100) (0, 0)))) =
   say 0 ''ERROR not_in_repick_phase'' (lp_state (server_iteration 3 quiet_event (server_start (\<lambda>_. 100) (0, 0))))"
  using repick_always_refused [OF reachable_example, of 0 "CHR ''R''"] by simp

text \<open>
  C1. Every reachable state satisfies the server's invariant: buffers fit their arrays; every
  connected slot is in a consistent stage of its life (a player of the match is registered and has
  a choice and a spawn, no player is both alive and waiting); names and ids are unique; each
  coordinate of a chosen spawn is on the board or NaN, unless the player stands at the mark (-1, -1)
  of those out of play; nobody is alive in the lobby; and the match is never in the repick phase.
\<close>

theorem server_invariant:
  assumes "reachable listen_fd l"
  shows "world_ok (lp_state l)"
  using assms by (rule reachable_world_ok)

theorem server_invariant_witness:
  "world_ok (lp_state (server_iteration 3 quiet_event (server_start (\<lambda>_. 100) (0, 0))))"
  by (rule server_invariant [OF reachable_example])

section \<open>Descriptors\<close>

text \<open>
  The descriptors the slots hold, and those with the closed ones: every descriptor the server
  ever got from \<open>accept\<close> should be in it once.
\<close>

definition open_fds :: "World \<Rightarrow> int multiset" where
  "open_fds w = image_mset (\<lambda>i. p_fd (players w i)) (mset_set {i. i < MAX_PLAYERS \<and> p_connected (players w i)})"

definition fd_total :: "World \<Rightarrow> int multiset" where
  "fd_total w = open_fds w + mset (closed_fds w)"

lemma open_fds_cong:
  "(\<And>i. i < MAX_PLAYERS \<Longrightarrow> p_connected (players v i) = p_connected (players w i)) \<Longrightarrow>
   (\<And>i. p_connected (players w i) \<Longrightarrow> p_fd (players v i) = p_fd (players w i)) \<Longrightarrow> open_fds v = open_fds w"
proof -
  assume a: "\<And>i. i < MAX_PLAYERS \<Longrightarrow> p_connected (players v i) = p_connected (players w i)"
    and b: "\<And>i. p_connected (players w i) \<Longrightarrow> p_fd (players v i) = p_fd (players w i)"
  have "{i. i < MAX_PLAYERS \<and> p_connected (players v i)} = {i. i < MAX_PLAYERS \<and> p_connected (players w i)}"
    using a by auto
  then show ?thesis unfolding open_fds_def by (simp only:) (rule image_mset_cong, simp add: b)
qed

lemma fd_total_cong:
  "(\<And>i. i < MAX_PLAYERS \<Longrightarrow> p_connected (players v i) = p_connected (players w i)) \<Longrightarrow>
   (\<And>i. p_connected (players w i) \<Longrightarrow> p_fd (players v i) = p_fd (players w i)) \<Longrightarrow>
   closed_fds v = closed_fds w \<Longrightarrow> fd_total v = fd_total w"
  using open_fds_cong [of v w] by (simp add: fd_total_def)

lemma open_fds_out:
  assumes "i < MAX_PLAYERS" and "p_connected (players w i)" and "\<not> p_connected (players v i)"
    and "\<And>j. j \<noteq> i \<Longrightarrow> players v j = players w j"
  shows "open_fds w = add_mset (p_fd (players w i)) (open_fds v)"
proof -
  have "{j. j < MAX_PLAYERS \<and> p_connected (players w j)} = insert i {j. j < MAX_PLAYERS \<and> p_connected (players v j)}"
    using assms by (auto, metis+)
  moreover have "image_mset (\<lambda>j. p_fd (players w j)) (mset_set {j. j < MAX_PLAYERS \<and> p_connected (players v j)}) =
      open_fds v"
    unfolding open_fds_def using assms(3,4) by (intro image_mset_cong) (auto, metis)
  ultimately show ?thesis using assms(3) by (simp add: open_fds_def)
qed

lemma fd_total_drop: "(p_connected (players w i) \<Longrightarrow> i < MAX_PLAYERS) \<Longrightarrow> fd_total (drop_slot i w) = fd_total w"
proof (cases "p_connected (players w i)")
  case True
  assume "p_connected (players w i) \<Longrightarrow> i < MAX_PLAYERS"
  with True have "open_fds w = add_mset (p_fd (players w i)) (open_fds (drop_slot i w))"
    by (intro open_fds_out) (simp_all add: players_drop_slot)
  then show ?thesis using True by (simp add: fd_total_def drop_slot_def)
qed (simp add: drop_slot_def)

text \<open>All laws but those of \<open>accept\<close> keep the total.\<close>

definition fd_is :: "int multiset \<Rightarrow> World \<Rightarrow> bool" where
  "fd_is M w \<longleftrightarrow> fd_total w = M \<and>
     (\<forall>i. (p_connected (players w i) \<longrightarrow> i < MAX_PLAYERS) \<and> (\<not> p_connected (players w i) \<longrightarrow> p_inbuf (players w i) = []))"

lemma fd_is_keep:
  assumes "fd_is M w" and "\<And>i. p_connected (players v i) = p_connected (players w i)"
    and "\<And>i. p_fd (players v i) = p_fd (players w i)"
    and "\<And>i. \<not> p_connected (players w i) \<Longrightarrow> p_inbuf (players w i) = [] \<Longrightarrow> p_inbuf (players v i) = []"
    and "closed_fds v = closed_fds w"
  shows "fd_is M v"
  using assms fd_total_cong [of v w] by (simp add: fd_is_def)

lemma fd_is_upd:
  "fd_is M w \<Longrightarrow> (\<And>p. p_connected (f p) = p_connected p) \<Longrightarrow> (\<And>p. p_fd (f p) = p_fd p) \<Longrightarrow>
   (\<And>p. p_inbuf (f p) = p_inbuf p) \<Longrightarrow> fd_is M (upd_player i f w)"
  by (erule fd_is_keep) auto

lemma fd_is_fields:
  "fd_is M w \<Longrightarrow> fd_is M (w\<lparr>phase := ph\<rparr>)" "fd_is M w \<Longrightarrow> fd_is M (w\<lparr>join_deadline := t\<rparr>)"
  "fd_is M w \<Longrightarrow> fd_is M (w\<lparr>setup_deadline := t\<rparr>)" "fd_is M w \<Longrightarrow> fd_is M (time_tick w)"
  by (erule fd_is_keep; simp)+

lemma fd_is_out: "fd_is M w \<Longrightarrow> fd_is M (append_out i t w)"
  by (simp add: append_out_def fd_is_upd)

lemma fd_is_drop: "fd_is M w \<Longrightarrow> fd_is M (drop_slot i w)"
  using fd_total_drop [of w i] by (auto simp: fd_is_def players_drop_slot)

lemma fd_is_start_round: "fd_is M w \<Longrightarrow> fd_is M (start_round w)"
proof (erule fd_is_keep)
  show "closed_fds (start_round w) = closed_fds w"
    by (simp add: start_round_def Let_def)
qed (auto simp: players_start_round start_round_player_def Let_def)

lemma fd_is_apply_repick: "fd_is M w \<Longrightarrow> fd_is M (for_upto n (\<lambda>i. upd_player i apply_repick) w)"
  by (erule fd_is_keep) (auto simp: for_upto_upd_players apply_repick_def)

interpretation fds: engine_step_inv "fd_is M" for M
  by unfold_locales (simp_all add: fd_is_out fd_is_drop fd_is_fields fd_is_start_round fd_is_apply_repick)

lemma fd_is_reset: "fd_is M w \<Longrightarrow> fd_is M (reset_match w)"
  by (intro reset_loop_inv [OF fds.engine_inv_axioms] fd_is_upd; (erule fd_is_keep)?)
    (simp_all add: reset_match_player_def)

lemma fd_is_hunt: "fd_is M w \<Longrightarrow> fd_is M (hunt dt i w)"
  by (cases dt i w rule: hunt_cases) (auto intro!: fd_is_upd simp: capture_def move_toward_def Let_def)

lemma fd_is_inbuf:
  "fd_is M w \<Longrightarrow> (\<not> p_connected (players w i) \<Longrightarrow> p_inbuf (f (players w i)) = []) \<Longrightarrow>
   (\<And>p. p_connected (f p) = p_connected p) \<Longrightarrow> (\<And>p. p_fd (f p) = p_fd p) \<Longrightarrow> fd_is M (upd_player i f w)"
  by (erule fd_is_keep) auto

interpretation fds: command_inv "fd_is M" for M
  by unfold_locales
    (auto simp: register_player_def reset_player_progress_def
      intro!: fd_is_fields fd_is_start_round fd_is_apply_repick fd_is_reset fd_is_upd)

interpretation fds: transport_inv "fd_is M" for M
  by unfold_locales (auto intro!: fd_is_upd fd_is_inbuf, auto simp: fd_is_def)

interpretation fds: timer_inv "fd_is M" for M
  by unfold_locales (auto intro!: fd_is_fields fd_is_hunt)


definition accepted_fds :: "int \<Rightarrow> Event \<Rightarrow> int list" where
  "accepted_fds listen_fd ev =
     (if ev_readable ev listen_fd then (case ev_accept ev of None \<Rightarrow> [] | Some fd \<Rightarrow> [fd]) else [])"

lemma fd_is_refuse: "fd_is M w \<Longrightarrow> fd_is (add_mset fd M) (w\<lparr>closed_fds := fd # closed_fds w\<rparr>)"
  by (auto simp: fd_is_def fd_total_def open_fds_def)

lemma fd_is_accept:
  assumes w: "fd_is M w" and i: "i < MAX_PLAYERS" and free: "\<not> p_connected (players w i)"
  shows "fd_is (add_mset fd M) (upd_player i (\<lambda>_. init_player_slot fd n) (w\<lparr>next_id := k\<rparr>))"
proof -
  let ?v = "upd_player i (\<lambda>_. init_player_slot fd n) (w\<lparr>next_id := k\<rparr>)"
  have "p_fd (init_player_slot fd n) = fd" by (simp add: init_player_slot_def)
  then have "open_fds ?v = add_mset fd (open_fds w)"
    using open_fds_out [of i ?v w] i free by simp
  then show ?thesis using w i by (auto simp: fd_is_def fd_total_def)
qed

lemma accept_fds:
  assumes w: "fd_is M w"
  shows "fd_is (mset (accepted_fds listen_fd ev) + M) (snd (accept_new_clients listen_fd ev w))"
proof (cases "ev_readable ev listen_fd \<and> ev_accept ev \<noteq> None \<and> net_set_nonblocking (ev_getfl ev) (ev_setfl ev) \<noteq> Failure")
  case False
  with w show ?thesis
    by (auto simp: accept_new_clients_def accepted_fds_def fd_is_refuse split: option.split)
next
  case True
  then obtain fd where fd: "ev_accept ev = Some fd" by auto
  obtain r v where a: "add_player fd w = (r, v)" by fastforce
  show ?thesis
  proof (cases r)
    case None
    then have "v = w" using a by (auto simp: add_player_def split: option.splits)
    with True fd a None w show ?thesis by (simp add: accept_new_clients_def accepted_fds_def fd_is_refuse)
  next
    case (Some i)
    then have v: "fd_is (add_mset fd M) v"
      using a w by (auto simp: add_player_def first_slot_def find_Some_iff fd_is_accept split: option.splits)
    obtain st p where q: "queue_line ''INFO connected_send_HELLO_name'' (players v i) = (st, p)" by fastforce
    show ?thesis
      using fds.queue_line_inv [OF v q] fds.drop_player_inv [OF v] True fd a Some
      by (cases st) (simp_all add: accept_new_clients_def accepted_fds_def q)
  qed
qed

lemma iteration_fds:
  assumes "fd_is M (lp_state l)"
  shows "fd_is (mset (accepted_fds listen_fd ev) + M) (lp_state (server_iteration listen_fd ev l))"
proof -
  obtain saw w where a: "accept_new_clients listen_fd ev (lp_state l) = (saw, w)" by fastforce
  have "fd_is (mset (accepted_fds listen_fd ev) + M) w"
    using accept_fds [OF assms, of listen_fd ev] by (simp add: a)
  then have "fd_is (mset (accepted_fds listen_fd ev) + M) (process_player_writes ev (process_player_reads ev w))"
    by (intro fds.process_player_writes_inv fds.process_player_reads_inv)
  from fds.advance_inv [OF this] show ?thesis
    by (simp add: server_iteration_def a Let_def split: prod.split) (metis fst_conv)
qed

text \<open>
  C11. After any number of iterations, each connection ever accepted is held by exactly one slot
  or has been closed exactly once: none is leaked, none closed twice, none shared.
\<close>

theorem no_descriptor_lost:
  "fd_total (lp_state (fold (server_iteration listen_fd) evs (server_start clock now))) =
   mset (concat (map (accepted_fds listen_fd) evs))"
proof -
  have "fd_is (M + mset (concat (map (accepted_fds listen_fd) evs))) (lp_state (fold (server_iteration listen_fd) evs l))"
    if "fd_is M (lp_state l)" for M l
    using that
  proof (induction evs arbitrary: M l)
    case (Cons ev evs)
    from Cons.IH [OF iteration_fds [OF Cons.prems, of listen_fd ev]] show ?case by (simp add: ac_simps)
  qed simp
  from this [of "{#}" "server_start clock now"] show ?thesis
    by (simp add: fd_is_def fd_total_def open_fds_def server_start_def init_server_state_def zero_player_def)
qed

end
