(* ===== verification/Process_Props.thy ===== *)
theory Process_Props
  imports Server_Props
begin

text \<open>
  The server as a process: \<open>select\<close> watches everything it has to, and how the process stands or
  ends, down to the descriptors it has closed.
\<close>

section \<open>What \<open>select\<close> watches\<close>

lemma build_select_sets_spec:
  assumes "build_select_sets listen_fd w = (rs, ws, maxfd)"
  shows "set rs = insert listen_fd {p_fd (players w i) |i. i < MAX_PLAYERS \<and> p_connected (players w i)}"
    and "set ws = {p_fd (players w i) |i. i < MAX_PLAYERS \<and> p_connected (players w i) \<and> p_outbuf (players w i) \<noteq> []}"
    and "\<forall>fd \<in> set rs \<union> set ws. fd \<le> maxfd"
proof -
  define P where "P n s = (case s of (rs, ws, maxfd) \<Rightarrow>
      (\<forall>fd. fd \<in> set rs \<longleftrightarrow> fd = listen_fd \<or> (\<exists>i < n. p_connected (players w i) \<and> fd = p_fd (players w i))) \<and>
      (\<forall>fd. fd \<in> set ws \<longleftrightarrow>
        (\<exists>i < n. p_connected (players w i) \<and> p_outbuf (players w i) \<noteq> [] \<and> fd = p_fd (players w i))) \<and>
      listen_fd \<le> maxfd \<and> (\<forall>i < n. p_connected (players w i) \<longrightarrow> p_fd (players w i) \<le> maxfd))"
    for n and s :: "int list \<times> int list \<times> int"
  have "P MAX_PLAYERS (rs, ws, maxfd)"
    unfolding assms [symmetric] build_select_sets_def
  proof (rule for_upto_rule)
    fix i and s :: "int list \<times> int list \<times> int"
    assume s: "P i s"
    obtain rs ws m where e: "s = (rs, ws, m)" by (metis prod_cases3)
    have m: "\<forall>j < i. p_connected (players w j) \<longrightarrow> p_fd (players w j) \<le> p_fd (players w i)" if "m < p_fd (players w i)"
      using s that by (force simp: P_def e)
    show "P (Suc i) (case s of (readfds, writefds, maxfd) \<Rightarrow>
        if \<not> p_connected (players w i) then (readfds, writefds, maxfd)
        else (readfds @ [p_fd (players w i)],
              if player_has_pending_output (players w i) then writefds @ [p_fd (players w i)] else writefds,
              if maxfd < p_fd (players w i) then p_fd (players w i) else maxfd))"
      using s m by (simp add: P_def e All_less_Suc Ex_less_Suc player_has_pending_output_def) blast
  qed (simp add: P_def)
  then show "set rs = insert listen_fd {p_fd (players w i) |i. i < MAX_PLAYERS \<and> p_connected (players w i)}"
    and "set ws = {p_fd (players w i) |i. i < MAX_PLAYERS \<and> p_connected (players w i) \<and> p_outbuf (players w i) \<noteq> []}"
    and "\<forall>fd \<in> set rs \<union> set ws. fd \<le> maxfd"
    by (auto simp: P_def)
qed

text \<open>
  C29. \<open>select\<close> is asked about the right descriptors, with a large enough \<open>maxfd\<close>: a readable
  listening socket or connected player is never overlooked, and a writable connection is reported
  exactly if a connected player has bytes queued for it, so the loop does not spin on idle sockets.
\<close>

theorem select_watches:
  "(ev_readable (selected listen_fd w ev) fd \<longleftrightarrow> ev_readable ev fd \<and>
     (fd = listen_fd \<or> (\<exists>i < MAX_PLAYERS. p_connected (players w i) \<and> fd = p_fd (players w i)))) \<and>
   (ev_writable (selected listen_fd w ev) fd \<longleftrightarrow> ev_writable ev fd \<and>
     (\<exists>i < MAX_PLAYERS. p_connected (players w i) \<and> p_outbuf (players w i) \<noteq> [] \<and> fd = p_fd (players w i)))"
proof -
  obtain rs ws maxfd where b: "build_select_sets listen_fd w = (rs, ws, maxfd)" by (metis prod_cases3)
  note s = build_select_sets_spec [OF b]
  have "fd \<in> set rs \<Longrightarrow> fd < maxfd + 1" "fd \<in> set ws \<Longrightarrow> fd < maxfd + 1" using s(3) by force+
  then show ?thesis
    unfolding selected_def b using s(1,2) by auto
qed

section \<open>The process\<close>

text \<open>The descriptors \<open>accept\<close> returned while the loop ran.\<close>

fun loop_accepted :: "bool \<Rightarrow> int \<Rightarrow> wait_outcome list \<Rightarrow> Loop \<Rightarrow> int list" where
  "loop_accepted auto listen_fd (WaitReady ev # os) l =
     (let ev = selected listen_fd (lp_state l) ev; l' = server_iteration listen_fd ev l
      in accepted_fds listen_fd ev @ (if auto_exit auto l' then [] else loop_accepted auto listen_fd os l'))"
| "loop_accepted auto listen_fd (WaitInterrupted # os) l = loop_accepted auto listen_fd os l"
| "loop_accepted auto listen_fd os l = []"

lemma server_loop_fatal: "server_loop auto listen_fd os l = ServerFatal msg \<Longrightarrow> WaitFailed \<in> set os"
  by (induction auto listen_fd os l rule: server_loop.induct) (auto simp: Let_def split: if_splits)

definition server_stands :: "int \<Rightarrow> bool \<Rightarrow> int multiset \<Rightarrow> server_outcome \<Rightarrow> bool" where
  "server_stands listen_fd auto M out \<longleftrightarrow>
     (case out of
        ServerFatal msg \<Rightarrow> True
      | ServerRunning l \<Rightarrow> reachable listen_fd l \<and> fd_is M (lp_state l)
      | ServerExited l \<Rightarrow> \<exists>u. reachable listen_fd u \<and> auto_exit auto u \<and> fd_is M (lp_state u) \<and>
          l = u\<lparr>lp_state := (lp_state u)\<lparr>closed_fds := listen_fd # closed_fds (lp_state u)\<rparr>\<rparr>)"

lemma server_loop_stands:
  assumes "reachable listen_fd l" and "fd_is M (lp_state l)"
  shows "server_stands listen_fd auto (M + mset (loop_accepted auto listen_fd os l)) (server_loop auto listen_fd os l)"
  using assms
proof (induction auto listen_fd os l arbitrary: M rule: server_loop.induct)
  case (4 auto listen_fd ev os l)
  let ?ev = "selected listen_fd (lp_state l) ev"
  let ?l = "server_iteration listen_fd ?ev l"
  have l: "reachable listen_fd ?l" "fd_is (M + mset (accepted_fds listen_fd ?ev)) (lp_state ?l)"
    using 4 iteration_fds [of M l listen_fd ?ev] by (simp_all add: reachable.step add.commute)
  show ?case
  proof (cases "auto_exit auto ?l")
    case False
    from 4(1) [OF refl False l] False show ?thesis by (simp add: Let_def add.assoc)
  next
    case True
    with l show ?thesis by (auto simp: Let_def server_stands_def)
  qed
qed (simp_all add: server_stands_def)

lemma nobody_connected:
  assumes "connected_player_count w = 0"
  shows "\<not> (\<exists>i < MAX_PLAYERS. p_connected (players w i))" and "open_fds w = {#}"
proof -
  have e: "{i. i < MAX_PLAYERS \<and> p_connected (players w i)} = {}"
    using assms by (simp add: connected_player_count_def count_players_card)
  then show "\<not> (\<exists>i < MAX_PLAYERS. p_connected (players w i))" by auto
  show "open_fds w = {#}" unfolding open_fds_def e by simp
qed

text \<open>
  C10. The server ends by itself only through \<open>fatal\<close>, in start-up or when \<open>select\<close> fails, or, if
  the test variable is set, once a client has come and all have gone; then every descriptor it
  ever accepted, and its listening socket, has been closed exactly once. Until then it is in a
  reachable state and has closed or kept each accepted descriptor.
\<close>

theorem server_process_ends:
  "case server_process calls env clock now os of
     ServerFatal msg \<Rightarrow> create_listen_socket calls = Inl msg \<or> WaitFailed \<in> set os
   | ServerRunning l \<Rightarrow> reachable (lc_socket calls) l \<and>
       fd_total (lp_state l) = mset (loop_accepted (auto_exit_setting env) (lc_socket calls) os (server_start clock now))
   | ServerExited l \<Rightarrow> auto_exit_setting env \<and> lp_saw_client l \<and>
       \<not> (\<exists>i < MAX_PLAYERS. p_connected (players (lp_state l) i)) \<and>
       mset (closed_fds (lp_state l)) =
         mset (lc_socket calls # loop_accepted (auto_exit_setting env) (lc_socket calls) os (server_start clock now))"
  
proof (cases "create_listen_socket calls")
  case (Inr fd)
  then have fd: "fd = lc_socket calls" by (auto simp: create_listen_socket_def Let_def split: if_splits)
  have "fd_is {#} (lp_state (server_start clock now))"
    by (simp add: fd_is_def fd_total_def open_fds_def server_start_def init_server_state_def zero_player_def)
  from server_loop_stands [OF reachable.start this, of fd "auto_exit_setting env" os]
  show ?thesis
    using nobody_connected server_loop_fatal
    by (auto simp: server_process_def Inr fd fd_is_def fd_total_def auto_exit_def server_stands_def
        split: server_outcome.splits)
qed (simp add: server_process_def)

end
