(* ===== verification/Chase_End.thy ===== *)
theory Chase_End
  imports Hunting
begin

text \<open>
  The chase comes to an end when only two types are left: the prey stands still, every hunter gets
  closer to its nearest prey at each tick by almost the step of the tick. The proof bounds the
  rounding errors of \<open>distance\<close> and \<open>move_toward\<close> in single precision.
\<close>

section \<open>Rounding errors\<close>

lemma rounds_close:
  assumes "rounds_to F32 v x" and "\<bar>v\<bar> \<le> 2 ^ k" and "k \<le> 23"
  shows "\<bar>fpval x - v\<bar> \<le> 1 / 2 ^ (23 - k)"
proof -
  define j where "j = 23 - k"
  define q where "q = \<lfloor>v * 2 ^ j\<rfloor>"
  have "(2::real) ^ k * 2 ^ j = 2 ^ 23" using assms(3) by (simp add: j_def flip: power_add)
  then have "\<bar>v * 2 ^ j\<bar> \<le> 2 ^ 23" using mult_right_mono [OF assms(2), of "2 ^ j"] by (simp add: abs_mult)
  then have "\<bar>q\<bar> \<le> 2 ^ 23" unfolding q_def by (simp add: abs_le_iff floor_le_iff le_floor_iff) linarith
  then have "rep F32 (of_int q * 2 powi (- int j))"
    using assms(3) by (intro repI) (simp_all add: F32_def j_def)
  then have "\<bar>fpval x - v\<bar> \<le> \<bar>of_int q * 2 powi (- int j) - v\<bar>"
    using assms(1) by (auto simp: rounds_to_def closest_def)
  also have "of_int q * 2 powi (- int j) - v = (of_int q - v * 2 ^ j) / 2 ^ j"
    by (simp add: power_int_minus field_simps)
  also have "\<bar>\<dots>\<bar> \<le> 1 / 2 ^ j"
    unfolding q_def abs_divide by (intro divide_mono) (simp_all, linarith)
  finally show ?thesis by (simp add: j_def)
qed

definition gap :: "Player \<Rightarrow> Player \<Rightarrow> real" where
  "gap p q = sqrt ((fpval (p_x q) - fpval (p_x p))\<^sup>2 + (fpval (p_y q) - fpval (p_y p))\<^sup>2)"

definition stands_on_board :: "Player \<Rightarrow> bool" where
  "stands_on_board p \<longleftrightarrow> on_grid (p_x p) \<and> on_grid (p_y p)"

lemma square_close:
  assumes "rounds_to F32 z dx" and "\<bar>z\<bar> \<le> 10"
  shows "\<bar>fpval (fp_mul F32 dx dx) - z\<^sup>2\<bar> \<le> 6 / 10 ^ 5" and "fp_fin (fp_mul F32 dx dx)"
    and "0 \<le> fpval (fp_mul F32 dx dx)" and "fp_ok F32 (fp_mul F32 dx dx)"
proof -
  have e: "\<bar>fpval dx - z\<bar> \<le> 1 / 2 ^ 19" using rounds_close [OF assms(1), of 4] assms(2) by simp
  have f: "fp_fin dx" "fp_ok F32 dx" using assms(1) by (simp_all add: rounds_to_def)
  have "(1::real) / 2 ^ 19 \<le> 1" by simp
  then have "\<bar>fpval dx + z\<bar> \<le> 21" using e assms(2) by linarith
  then have "\<bar>(fpval dx - z) * (fpval dx + z)\<bar> \<le> 1 / 2 ^ 19 * 21"
    unfolding abs_mult using e by (intro mult_mono) auto
  then have d: "\<bar>fpval dx * fpval dx - z\<^sup>2\<bar> \<le> 21 / 2 ^ 19" by (simp add: algebra_simps power2_eq_square)
  have "z\<^sup>2 \<le> 10\<^sup>2" using assms(2) abs_le_square_iff [of z 10] by simp
  then have "fpval dx * fpval dx \<le> 2 ^ 7" using d unfolding abs_le_iff by simp
  then have b: "\<bar>fpval dx * fpval dx\<bar> \<le> 2 ^ 7" by simp
  have r: "rounds_to F32 (fpval dx * fpval dx) (fp_mul F32 dx dx)"
    using fp_mul_rounds [OF f f in_range_F32 [of 128]] b by simp
  then show "fp_fin (fp_mul F32 dx dx)" "fp_ok F32 (fp_mul F32 dx dx)" by (simp_all add: rounds_to_def)
  show "0 \<le> fpval (fp_mul F32 dx dx)" using rounds_bounds(2) [OF r, of 1 0] by simp
  show "\<bar>fpval (fp_mul F32 dx dx) - z\<^sup>2\<bar> \<le> 6 / 10 ^ 5"
    using rounds_close [OF r b] d unfolding abs_le_iff by simp
qed

lemma distance_close:
  assumes h: "stands_on_board h" and p: "stands_on_board p"
    and far: "1 / 2 < fpval (distance h p)"
  shows "\<bar>fpval (distance h p) - gap h p\<bar> \<le> 2 / 10 ^ 4"
proof -
  define zx zy where "zx = fpval (p_x p) - fpval (p_x h)" and "zy = fpval (p_y p) - fpval (p_y h)"
  define dx dy where "dx = fp_sub F32 (p_x p) (p_x h)" and "dy = fp_sub F32 (p_y p) (p_y h)"
  define a where "a = fp_add F32 (fp_mul F32 dx dx) (fp_mul F32 dy dy)"
  have z: "\<bar>zx\<bar> \<le> 10" "\<bar>zy\<bar> \<le> 10" using h p by (auto simp: zx_def zy_def stands_on_board_def on_grid_def)
  have r: "rounds_to F32 zx dx" "rounds_to F32 zy dy"
    using h p z fp_sub_rounds [OF _ _ in_range_F32 [of 16]]
    by (auto simp: zx_def zy_def dx_def dy_def stands_on_board_def on_grid_def)
  note sx = square_close [OF r(1) z(1)] and sy = square_close [OF r(2) z(2)]
  have q: "zx\<^sup>2 \<le> 10\<^sup>2" "zy\<^sup>2 \<le> 10\<^sup>2"
    using z abs_le_square_iff [of zx 10] abs_le_square_iff [of zy 10] by simp_all
  then have b: "\<bar>fpval (fp_mul F32 dx dx) + fpval (fp_mul F32 dy dy)\<bar> \<le> 2 ^ 8"
    using sx(1,3) sy(1,3) unfolding abs_le_iff by simp
  have ra: "rounds_to F32 (fpval (fp_mul F32 dx dx) + fpval (fp_mul F32 dy dy)) a"
    unfolding a_def by (rule fp_add_rounds [OF sx(2) sy(2) in_range_F32 [of 256]]) (use b in auto)
  have a: "fp_fin a" "fp_ok F32 a" "0 \<le> fpval a"
    using ra rounds_bounds(2) [OF ra, of 1 0] sx(3) sy(3) by (auto simp: rounds_to_def)
  have ea: "\<bar>fpval a - (zx\<^sup>2 + zy\<^sup>2)\<bar> \<le> 16 / 10 ^ 5"
    using rounds_close [OF ra b] sx(1) sy(1) unfolding abs_le_iff by simp
  then have "fpval a \<le> 15\<^sup>2" using q unfolding abs_le_iff by simp
  then have s15: "sqrt (fpval a) \<le> 15" by (intro real_le_lsqrt) simp_all
  obtain c where c: "0 \<le> c" "\<bar>c - sqrt (fpval a)\<bar> * 2 ^ (f_prec F32 + 2) \<le> sqrt (fpval a)"
    "\<And>B. in_range F32 B \<Longrightarrow> c \<le> B \<Longrightarrow> rounds_to F32 c (fp_sqrt F32 a)"
    using fp_sqrt_spec [OF a] by blast
  have ec: "\<bar>c - sqrt (fpval a)\<bar> \<le> 1 / 10 ^ 6" using c(2) s15 by (simp add: F32_def)
  then have "c \<le> 16" using s15 unfolding abs_le_iff by simp
  then have rd: "rounds_to F32 c (distance h p)"
    using c(3) [OF in_range_F32 [of 16]] by (simp add: distance_def Let_def fp_hypot_def a_def dx_def dy_def)
  have "\<bar>c\<bar> \<le> 2 ^ 4" using c(1) \<open>c \<le> 16\<close> by simp
  then have ed: "\<bar>fpval (distance h p) - c\<bar> \<le> 1 / 2 ^ 19" using rounds_close [OF rd, of 4] by simp
  have sa: "49 / 100 \<le> sqrt (fpval a)" using ed ec far unfolding abs_le_iff by simp
  define g where "g = sqrt (zx\<^sup>2 + zy\<^sup>2)"
  have g: "0 \<le> g" "g * g = zx\<^sup>2 + zy\<^sup>2" by (simp_all add: g_def)
  have "(sqrt (fpval a) - g) * (sqrt (fpval a) + g) = fpval a - (zx\<^sup>2 + zy\<^sup>2)"
    using a(3) g(2) by (simp add: algebra_simps)
  then have "\<bar>sqrt (fpval a) - g\<bar> * \<bar>sqrt (fpval a) + g\<bar> = \<bar>fpval a - (zx\<^sup>2 + zy\<^sup>2)\<bar>"
    by (simp only: flip: abs_mult)
  then have m: "\<bar>sqrt (fpval a) - g\<bar> * (sqrt (fpval a) + g) \<le> 16 / 10 ^ 5"
    using ea g(1) a(3) by simp
  have low: "\<bar>sqrt (fpval a) - g\<bar> * b \<le> 16 / 10 ^ 5" if "b \<le> sqrt (fpval a) + g" for b
    using mult_left_mono [OF that, of "\<bar>sqrt (fpval a) - g\<bar>"] m by simp
  have "\<bar>sqrt (fpval a) - g\<bar> \<le> 4 / 10 ^ 4" using low [of "49 / 100"] sa g(1) by simp
  then have "97 / 100 \<le> sqrt (fpval a) + g" using sa unfolding abs_le_iff by simp
  from low [OF this] have "\<bar>sqrt (fpval a) - g\<bar> \<le> 17 / 10 ^ 5" by simp
  moreover have "gap h p = g" by (simp add: gap_def g_def zx_def zy_def)
  ultimately show ?thesis using ed ec unfolding abs_le_iff by simp
qed

section \<open>One step\<close>

definition tick_step :: real where
  "tick_step = fpval (fp_mul F32 CHASE_SPEED CHASE_DT)"

lemma tick_step_value: "1333 / 10 ^ 5 \<le> tick_step" "tick_step \<le> 1334 / 10 ^ 5"
  unfolding tick_step_def move_dist_eq by (simp_all add: with_sign_def power_int_def power_divide)

text \<open>On each axis the step has the exact direction, up to the error of the roundings.\<close>

lemma axis_step_close:
  assumes h: "on_grid h" and p: "on_grid p"
    and d: "fp_fin dd" "fp_ok F32 dd" "1 / 2 < fpval dd"
    and g: "\<bar>fpval dd - g\<bar> \<le> 2 / 10 ^ 4" "\<bar>fpval p - fpval h\<bar> \<le> g"
  shows "\<bar>fpval (axis_step h p dd (fp_mul F32 CHASE_SPEED CHASE_DT)) -
    (fpval h + tick_step * ((fpval p - fpval h) / g))\<bar> \<le> 1 / 10 ^ 5"
proof -
  define z where "z = fpval p - fpval h"
  define md where "md = fp_mul F32 CHASE_SPEED CHASE_DT"
  define dx u t where "dx = fp_sub F32 p h" and "u = fp_div F32 dx dd" and "t = fp_mul F32 u md"
  note R = in_range_F32
  have hp: "fp_fin h" "fp_ok F32 h" "fp_fin p" "fp_ok F32 p" "0 \<le> fpval h" "fpval h < 10" and z: "\<bar>z\<bar> \<le> 10"
    using h p by (auto simp: on_grid_def z_def)
  have m: "fp_fin md" "fp_ok F32 md" "fpval md = tick_step"
    by (simp_all add: md_def move_dist_eq tick_step_def, simp add: F32_def)
  have g0: "49 / 100 \<le> g" using g(1) d(3) unfolding abs_le_iff by simp
  have dx: "rounds_to F32 z dx"
    using fp_sub_rounds [OF hp(3,1) R [of 16]] z by (simp add: z_def dx_def)
  then have dxf: "fp_fin dx" "fp_ok F32 dx" by (simp_all add: rounds_to_def)
  have e1: "\<bar>fpval dx - z\<bar> \<le> 2 / 10 ^ 6" using rounds_close [OF dx, of 4] z by simp
  define v y where "v = fpval dx / fpval dd" and "y = z / g"
  have e2: "\<bar>v - y\<bar> \<le> 5 / 10 ^ 4"
  proof -
    have dd: "fpval dd \<noteq> 0" "g \<noteq> 0" "0 \<le> 1 / fpval dd" "1 / fpval dd \<le> 2" using d(3) g0 by (simp_all add: divide_le_eq)
    define A B where "A = (fpval dx - z) * (1 / fpval dd)" and "B = z / g * ((g - fpval dd) * (1 / fpval dd))"
    have "v - y = A + B" unfolding A_def B_def v_def y_def using dd(1,2) by (simp add: field_simps)
    moreover have "\<bar>A\<bar> \<le> 2 / 10 ^ 6 * 2"
      unfolding A_def abs_mult using e1 dd by (intro mult_mono) simp_all
    moreover have "\<bar>B\<bar> \<le> 1 * (2 / 10 ^ 4 * 2)"
      unfolding B_def abs_mult using g g0 dd by (intro mult_mono) (simp_all add: z_def abs_minus_commute)
    ultimately show ?thesis unfolding abs_le_iff by simp
  qed
  have zg: "\<bar>y\<bar> \<le> 1" using g(2) g0 by (simp add: z_def y_def)
  then have q: "\<bar>v\<bar> \<le> 2 ^ 1" using e2 unfolding abs_le_iff by simp
  have u: "rounds_to F32 v u"
    unfolding u_def v_def by (rule fp_div_rounds [OF dxf d(1,2) _ R [of 2]]) (use d(3) q in \<open>simp_all add: v_def\<close>)
  have e3: "\<bar>fpval u - y\<bar> \<le> 51 / 10 ^ 5"
    using rounds_close [OF u q] e2 unfolding abs_le_iff by simp
  have "\<bar>fpval u\<bar> \<le> 2" using e3 zg unfolding abs_le_iff by simp
  then have "\<bar>fpval u\<bar> * tick_step \<le> 2 * (1 / 4)" using tick_step_value by (intro mult_mono) simp_all
  then have q2: "\<bar>fpval u * fpval md\<bar> \<le> 2 ^ 0" using tick_step_value by (simp add: m(3) abs_mult)
  have t: "rounds_to F32 (fpval u * fpval md) t"
    unfolding t_def by (rule fp_mul_rounds [OF _ _ m(1,2) R [of 1]]) (use u q2 in \<open>auto simp: rounds_to_def\<close>)
  have "\<bar>(fpval u - y) * tick_step\<bar> \<le> 51 / 10 ^ 5 * (1334 / 10 ^ 5)"
    unfolding abs_mult using e3 tick_step_value by (intro mult_mono) simp_all
  then have e4: "\<bar>fpval t - tick_step * (y)\<bar> \<le> 75 / 10 ^ 7"
    using rounds_close [OF t q2] unfolding abs_le_iff by (simp add: m(3) algebra_simps)
  have "\<bar>tick_step * (y)\<bar> \<le> 1 / 50 * 1"
    unfolding abs_mult using zg tick_step_value by (intro mult_mono) simp_all
  then have q3: "\<bar>fpval h + fpval t\<bar> \<le> 2 ^ 4" using e4 hp unfolding abs_le_iff by simp
  have r: "rounds_to F32 (fpval h + fpval t) (fp_add F32 h t)"
    by (rule fp_add_rounds [OF hp(1) _ R [of 16]]) (use t q3 in \<open>auto simp: rounds_to_def\<close>)
  have "\<bar>fpval (fp_add F32 h t) - (fpval h + tick_step * (y))\<bar> \<le> 1 / 10 ^ 5"
    using rounds_close [OF r q3] e4 unfolding abs_le_iff by simp
  then show ?thesis by (simp add: axis_step_def z_def dx_def u_def t_def md_def y_def)
qed

lemma sqrt_scale: "0 \<le> c \<Longrightarrow> sqrt ((c * x)\<^sup>2 + (c * y)\<^sup>2) = c * sqrt (x\<^sup>2 + y\<^sup>2)"
proof -
  assume "0 \<le> c"
  have "(c * x)\<^sup>2 + (c * y)\<^sup>2 = c\<^sup>2 * (x\<^sup>2 + y\<^sup>2)" by (simp add: power_mult_distrib algebra_simps)
  with \<open>0 \<le> c\<close> show ?thesis by (simp add: real_sqrt_mult)
qed

lemma gap_nonneg [simp]: "0 \<le> gap p q"
  by (simp add: gap_def)

lemma gap_axes: "\<bar>fpval (p_x q) - fpval (p_x p)\<bar> \<le> gap p q" "\<bar>fpval (p_y q) - fpval (p_y p)\<bar> \<le> gap p q"
  unfolding gap_def by (rule real_sqrt_ge_abs1, rule real_sqrt_ge_abs2)

text \<open>A hunter that has not reached its prey gets closer by almost a whole step, and stays on the board.\<close>

lemma move_toward_closer:
  assumes h: "stands_on_board h" and p: "stands_on_board p"
    and far: "\<not> fp_le (distance h p) CAPTURE_RADIUS"
  shows "stands_on_board (move_toward CHASE_DT p h)"
    and "gap (move_toward CHASE_DT p h) p \<le> gap h p - 133 / 10 ^ 4"
proof -
  define md where "md = fp_mul F32 CHASE_SPEED CHASE_DT"
  define dd where "dd = distance h p"
  have dd: "fp_hypot (fp_sub F32 (p_x p) (p_x h)) (fp_sub F32 (p_y p) (p_y h)) = dd"
    by (simp add: dd_def distance_def Let_def)
  have g: "on_grid (p_x h)" "on_grid (p_y h)" "on_grid (p_x p)" "on_grid (p_y p)"
    using h p by (simp_all add: stands_on_board_def)
  have d: "fp_fin dd" "fp_ok F32 dd"
    using sub_on_grid [OF g(3,1)] sub_on_grid [OF g(4,2)] hypot_finite unfolding dd [symmetric] by blast+
  have d2: "1 / 2 < fpval dd"
    using far d(1) by (simp add: dd_def fp_le_val capture_radius_eq with_sign_def power_int_def power_divide)
  have m: "fp_fin md" "fp_ok F32 md" "0 \<le> fpval md" "fpval md \<le> 1 / 32"
    using tick_step_value by (simp_all add: md_def move_dist_eq tick_step_def [unfolded move_dist_eq], simp add: F32_def)
  have "\<not> fp_lt dd md" using d d2 m by (simp add: fp_lt_val)
  then have mv: "move_toward CHASE_DT p h = h\<lparr>p_x := axis_step (p_x h) (p_x p) dd md, p_y := axis_step (p_y h) (p_y p) dd md\<rparr>"
    by (simp add: move_toward_axis Let_def dd flip: md_def)
  have "on_grid (axis_step a b dd md)" if "on_grid a" "on_grid b" for a b
    using axis_step_between [OF that d d2 m] on_grid_between [OF that] by simp
  then show "stands_on_board (move_toward CHASE_DT p h)" using g by (simp add: mv stands_on_board_def)
  define G where "G = gap h p"
  have c: "\<bar>fpval dd - G\<bar> \<le> 2 / 10 ^ 4" using distance_close [OF h p] d2 by (simp add: dd_def G_def)
  then have G: "49 / 100 \<le> G" using d2 unfolding abs_le_iff by simp
  note ax = axis_step_close [OF _ _ d d2 c]
  define zx zy where "zx = fpval (p_x p) - fpval (p_x h)" and "zy = fpval (p_y p) - fpval (p_y h)"
  define ex ey where "ex = fpval (p_x h) + tick_step * (zx / G) - fpval (axis_step (p_x h) (p_x p) dd md)"
    and "ey = fpval (p_y h) + tick_step * (zy / G) - fpval (axis_step (p_y h) (p_y p) dd md)"
  have e: "\<bar>ex\<bar> \<le> 1 / 10 ^ 5" "\<bar>ey\<bar> \<le> 1 / 10 ^ 5"
    using ax [OF g(1,3)] ax [OF g(2,4)] gap_axes [of p h]
    by (simp_all add: ex_def ey_def zx_def zy_def md_def G_def abs_minus_commute)
  define c' where "c' = 1 - tick_step / G"
  have c': "0 \<le> c'" using G tick_step_value by (simp add: c'_def divide_le_eq)
  have "c' * zx + ex = fpval (p_x p) - fpval (axis_step (p_x h) (p_x p) dd md)"
    "c' * zy + ey = fpval (p_y p) - fpval (axis_step (p_y h) (p_y p) dd md)"
    by (simp_all add: c'_def ex_def ey_def left_diff_distrib, simp_all add: zx_def zy_def)
  then have "gap (move_toward CHASE_DT p h) p = sqrt ((c' * zx + ex)\<^sup>2 + (c' * zy + ey)\<^sup>2)"
    by (simp add: gap_def mv)
  also have "\<dots> \<le> sqrt ((c' * zx)\<^sup>2 + (c' * zy)\<^sup>2) + sqrt (ex\<^sup>2 + ey\<^sup>2)"
    by (rule real_sqrt_sum_squares_triangle_ineq)
  also have "\<dots> = c' * G + sqrt (ex\<^sup>2 + ey\<^sup>2)"
    using sqrt_scale [OF c'] by (simp add: G_def gap_def zx_def zy_def)
  also have "\<dots> \<le> c' * G + (\<bar>ex\<bar> + \<bar>ey\<bar>)"
    by (intro add_left_mono sqrt_sum_squares_le_sum_abs)
  also have "c' * G = G - tick_step" using G by (simp add: c'_def field_simps)
  finally show "gap (move_toward CHASE_DT p h) p \<le> gap h p - 133 / 10 ^ 4"
    using e tick_step_value by (simp add: G_def)
qed

section \<open>Everybody stays on the board\<close>

definition all_on_board :: "World \<Rightarrow> bool" where
  "all_on_board w \<longleftrightarrow> (\<forall>i. player_is_alive (players w i) \<longrightarrow> stands_on_board (players w i))"

lemma hunt_on_board:
  assumes w: "all_on_board w"
  shows "all_on_board (hunt CHASE_DT i w)"
proof (cases "player_is_alive (players w i) \<and> find_nearest_prey w i \<noteq> None")
  case False
  with w show ?thesis by (auto simp: hunt_def)
next
  case True
  then obtain j where i: "player_is_alive (players w i)" and j: "find_nearest_prey w i = Some j" by auto
  let ?v = "upd_player i (move_toward CHASE_DT (players w j)) w"
  have capture: "all_on_board (upd_player j capture u)" if "all_on_board u" for u
    using that by (simp add: all_on_board_def)
  show ?thesis
  proof (cases "fp_le (distance (players w i) (players w j)) CAPTURE_RADIUS")
    case True
    with i j w show ?thesis by (simp add: hunt_def capture)
  next
    case False
    have "stands_on_board (players w i)" "stands_on_board (players w j)"
      using w i target_is_prey [OF j] by (simp_all add: all_on_board_def)
    with False have "all_on_board ?v" using w move_toward_closer(1) by (simp add: all_on_board_def)
    with False i j show ?thesis by (simp add: hunt_def Let_def capture)
  qed
qed

text \<open>
  C18. A tick keeps the chase on the board, rounding errors included: when every live player has
  both coordinates finite and in \<open>[0, 10)\<close>, so has every player who is alive after the tick. No
  division or square root on the way makes a NaN.
\<close>

theorem chase_stays_on_board:
  assumes "\<forall>i. player_is_alive (players w i) \<longrightarrow> on_grid (p_x (players w i)) \<and> on_grid (p_y (players w i))"
    and "player_is_alive (players (snd (simulate_chase_tick w CHASE_DT)) i)"
  shows "let p = players (snd (simulate_chase_tick w CHASE_DT)) i in
    fp_fin (p_x p) \<and> 0 \<le> fpval (p_x p) \<and> fpval (p_x p) < 10 \<and>
    fp_fin (p_y p) \<and> 0 \<le> fpval (p_y p) \<and> fpval (p_y p) < 10"
proof -
  have "snd (simulate_chase_tick w CHASE_DT) = for_upto MAX_PLAYERS (hunt CHASE_DT) w"
    by (simp add: simulate_chase_tick_def Let_def)
  moreover have "all_on_board (for_upto MAX_PLAYERS (hunt CHASE_DT) w)"
    using assms(1) hunt_on_board by (intro for_upto_inv [where I = all_on_board])
      (simp_all add: all_on_board_def stands_on_board_def)
  ultimately show ?thesis
    using assms(2) by (simp add: all_on_board_def stands_on_board_def on_grid_def Let_def)
qed

section \<open>Two types\<close>

text \<open>The live players with choice \<open>a\<close> can eat the others, who have choice \<open>b\<close>; all are on the board.\<close>

definition side :: "char \<Rightarrow> World \<Rightarrow> nat set" where
  "side c w = {i. player_is_alive (players w i) \<and> p_choice (players w i) = c}"

definition two_sides :: "char \<Rightarrow> char \<Rightarrow> World \<Rightarrow> bool" where
  "two_sides a b w \<longleftrightarrow> can_eat a b \<and>
     (\<forall>i. player_is_alive (players w i) \<longrightarrow>
        i < MAX_PLAYERS \<and> p_choice (players w i) \<in> {a, b} \<and> stands_on_board (players w i))"

lemma can_eat_not_back: "can_eat a b \<Longrightarrow> \<not> can_eat b a \<and> \<not> can_eat a a \<and> \<not> can_eat b b \<and> a \<noteq> b"
  by (auto simp: can_eat_def split: if_splits)

lemma two_sidesD:
  "two_sides a b w \<Longrightarrow> player_is_alive (players w i) \<Longrightarrow>
   i < MAX_PLAYERS \<and> (p_choice (players w i) = a \<or> p_choice (players w i) = b) \<and> stands_on_board (players w i)"
  by (simp add: two_sides_def)

lemma two_sides_eats: "two_sides a b w \<Longrightarrow> can_eat a b \<and> \<not> can_eat b a \<and> \<not> can_eat a a \<and> \<not> can_eat b b \<and> a \<noteq> b"
  using can_eat_not_back [of a b] by (simp add: two_sides_def)

lemma sides_apart: "two_sides a b w \<Longrightarrow> i \<in> side a w \<Longrightarrow> i \<notin> side b w"
  using two_sides_eats by (force simp: side_def)

lemma side_board: "two_sides a b w \<Longrightarrow> i \<in> side c w \<Longrightarrow> stands_on_board (players w i)"
  using two_sidesD by (simp add: side_def)

lemma prey_set_side:
  assumes "two_sides a b w"
  shows "prey_set w i = (if i \<in> side a w then side b w else {})"
proof (cases "player_is_alive (players w i)")
  case False
  then show ?thesis by (simp add: prey_set_def side_def)
next
  case True
  note e = two_sides_eats [OF assms]
  have "j < MAX_PLAYERS \<and> is_prey w i j \<longleftrightarrow> i \<in> side a w \<and> j \<in> side b w" for j
    using two_sidesD [OF assms True] two_sidesD [OF assms, of j] e True by (auto simp: is_prey_def side_def)
  then show ?thesis using True by (auto simp: prey_set_def)
qed

lemma side_move [simp]: "side c (upd_player i (move_toward dt q) w) = side c w"
  by (auto simp: side_def)

lemma side_capture [simp]: "side c (upd_player j capture w) = side c w - {j}"
  by (auto simp: side_def)

lemma two_sides_capture: "two_sides a b w \<Longrightarrow> two_sides a b (upd_player j capture w)"
  by (simp add: two_sides_def)

lemma two_sides_move:
  assumes "two_sides a b w" and "stands_on_board (players w i) \<Longrightarrow> stands_on_board (move_toward dt q (players w i))"
  shows "two_sides a b (upd_player i (move_toward dt q) w)"
  using assms by (simp add: two_sides_def)

text \<open>Hunter \<open>i\<close> has a prey within \<open>r\<close>.\<close>

definition prey_within :: "char \<Rightarrow> nat \<Rightarrow> real \<Rightarrow> World \<Rightarrow> bool" where
  "prey_within b i r w \<longleftrightarrow> (\<exists>j \<in> side b w. gap (players w i) (players w j) \<le> r)"

lemma hunt_two_sides:
  assumes "two_sides a b w"
  obtains "hunt CHASE_DT i w = w" "i \<notin> side a w \<or> side b w = {}"
  | j where "i \<in> side a w" "j \<in> side b w" "find_nearest_prey w i = Some j"
      "\<not> fp_le (distance (players w i) (players w j)) CAPTURE_RADIUS"
      "hunt CHASE_DT i w = upd_player i (move_toward CHASE_DT (players w j)) w"
      "two_sides a b (hunt CHASE_DT i w)"
  | j where "i \<in> side a w" "j \<in> side b w"
      "side a (hunt CHASE_DT i w) = side a w" "side b (hunt CHASE_DT i w) = side b w - {j}"
      "two_sides a b (hunt CHASE_DT i w)"
proof -
  note ps = prey_set_side [OF assms, of i]
  show ?thesis
  proof (cases "find_nearest_prey w i")
    case None
    then have "hunt CHASE_DT i w = w" by (simp add: hunt_def)
    moreover have "prey_set w i = {}" using find_nearest_prey_correct [of w i] None by simp
    ultimately show ?thesis using that(1) ps by (auto split: if_splits)
  next
    case (Some j)
    then have "j \<in> prey_set w i" using find_nearest_prey_correct [of w i] by simp
    then have ij: "i \<in> side a w" "j \<in> side b w" by (simp_all add: ps split: if_splits)
    have alive: "player_is_alive (players w i)" using ij(1) by (simp add: side_def)
    have ab: "j \<notin> side a w" using ij(2) sides_apart [OF assms, of j] by blast
    let ?v = "upd_player i (move_toward CHASE_DT (players w j)) w"
    show ?thesis
    proof (cases "fp_le (distance (players w i) (players w j)) CAPTURE_RADIUS")
      case True
      then have "hunt CHASE_DT i w = upd_player j capture w" using Some alive by (simp add: hunt_def)
      then show ?thesis using that(3) [OF ij] ab assms by (simp add: two_sides_capture)
    next
      case False
      have "stands_on_board (players w j)" using assms ij(2) by (rule side_board)
      then have v: "two_sides a b ?v" using assms move_toward_closer(1) False by (intro two_sides_move)
      have "hunt CHASE_DT i w = ?v \<or> hunt CHASE_DT i w = upd_player j capture ?v"
        using Some alive False by (simp add: hunt_def Let_def)
      then show ?thesis
        using that(2) [OF ij Some False] that(3) [OF ij] ab v by (auto simp: two_sides_capture)
    qed
  qed
qed

lemma side_bounded: "two_sides a b w \<Longrightarrow> side c w \<subseteq> {..<MAX_PLAYERS}"
  by (auto simp: two_sides_def side_def)

text \<open>The target of a hunter is a nearest prey up to the errors of the two distances.\<close>

lemma distance_finite:
  assumes "stands_on_board p" and "stands_on_board q"
  shows "fp_fin (distance p q)"
  using assms hypot_finite sub_on_grid unfolding distance_def Let_def stands_on_board_def by blast

lemma target_near:
  assumes w: "two_sides a b w" and r: "prey_within b i r w" and i: "i \<in> side a w" and j: "find_nearest_prey w i = Some j"
    and far: "\<not> fp_le (distance (players w i) (players w j)) CAPTURE_RADIUS"
  shows "gap (players w i) (players w j) \<le> r + 4 / 10 ^ 4"
proof -
  obtain k where k: "k \<in> side b w" "gap (players w i) (players w k) \<le> r" using r by (auto simp: prey_within_def)
  have prey: "k \<in> prey_set w i" using i k(1) by (simp add: prey_set_side [OF w])
  then have n: "j \<in> prey_set w i" "\<not> fp_lt (distance (players w i) (players w k)) (distance (players w i) (players w j))"
    using find_nearest_prey_correct [of w i] j by auto
  then have "j \<in> side b w" using i by (simp add: prey_set_side [OF w])
  then have b: "stands_on_board (players w i)" "stands_on_board (players w j)" "stands_on_board (players w k)"
    using side_board [OF w] i k(1) by blast+
  have le: "fpval (distance (players w i) (players w j)) \<le> fpval (distance (players w i) (players w k))"
    using n(2) b distance_finite by (simp add: fp_lt_val)
  have half: "1 / 2 < fpval (distance (players w i) (players w j))"
    using far distance_finite [OF b(1,2)] by (simp add: fp_le_val capture_radius_eq with_sign_def power_int_def power_divide)
  have "\<bar>fpval (distance (players w i) (players w j)) - gap (players w i) (players w j)\<bar> \<le> 2 / 10 ^ 4"
    "\<bar>fpval (distance (players w i) (players w k)) - gap (players w i) (players w k)\<bar> \<le> 2 / 10 ^ 4"
    using half le by (intro distance_close b; simp)+
  with le k(2) show ?thesis unfolding abs_le_iff by simp
qed

lemma hunt_gets_closer:
  assumes w: "two_sides a b w" and r: "prey_within b i r w" and i: "i \<in> side a w"
    and kept: "side b (hunt CHASE_DT i w) = side b w"
  shows "prey_within b i (r - 129 / 10 ^ 4) (hunt CHASE_DT i w)"
proof (cases rule: hunt_two_sides [OF w, of i])
  case 1
  with i r show ?thesis by (auto simp: prey_within_def)
next
  case (2 j)
  have b: "stands_on_board (players w i)" "stands_on_board (players w j)"
    using side_board [OF w] i 2(2) by blast+
  have "j \<noteq> i" using sides_apart [OF w i] 2(2) by blast
  then have "gap (players (hunt CHASE_DT i w) i) (players (hunt CHASE_DT i w) j) \<le> r - 129 / 10 ^ 4"
    using move_toward_closer(2) [OF b 2(4)] target_near [OF w r i 2(3,4)] by (simp add: 2(5))
  moreover have "j \<in> side b (hunt CHASE_DT i w)" using 2(2) by (simp add: kept)
  ultimately show ?thesis by (auto simp: prey_within_def)
next
  case (3 j)
  with kept show ?thesis by auto
qed

lemma hunt_others:
  assumes w: "two_sides a b w" and r: "prey_within b i r w" and i: "i \<in> side a w" and "k \<noteq> i"
    and kept: "side b (hunt CHASE_DT k w) = side b w"
  shows "prey_within b i r (hunt CHASE_DT k w)"
proof (cases rule: hunt_two_sides [OF w, of k])
  case 1
  with r show ?thesis by simp
next
  case (2 j)
  have "k \<notin> side b w" using w 2(1) by (rule sides_apart)
  then have "players (hunt CHASE_DT k w) j = players w j" if "j \<in> side b w \<or> j = i" for j
    using that \<open>k \<noteq> i\<close> by (auto simp: 2(5))
  then show ?thesis using r kept by (auto simp: prey_within_def)
next
  case (3 j)
  with kept show ?thesis by auto
qed

lemma hunt_sides:
  assumes "two_sides a b w"
  shows "two_sides a b (hunt CHASE_DT i w)" and "side a (hunt CHASE_DT i w) = side a w"
    and "side b (hunt CHASE_DT i w) \<subseteq> side b w"
  by (cases rule: hunt_two_sides [OF assms, of i]; use assms in simp)+

section \<open>Ticks\<close>

lemma chase_tick_eq:
  "simulate_chase_tick w CHASE_DT =
     (let v = for_upto MAX_PLAYERS (hunt CHASE_DT) w in (count_choice_types_alive v \<le> 1, v))"
  by (simp add: simulate_chase_tick_def Let_def)

definition chase_ticks :: "nat \<Rightarrow> World \<Rightarrow> World" where
  "chase_ticks n = (\<lambda>w. snd (simulate_chase_tick w CHASE_DT)) ^^ n"

lemma chase_tick_sides:
  assumes w: "two_sides a b w"
  defines "v \<equiv> snd (simulate_chase_tick w CHASE_DT)"
  shows "two_sides a b v" and "side a v = side a w" and "side b v \<subseteq> side b w"
    and "i \<in> side a w \<Longrightarrow> prey_within b i r w \<Longrightarrow> side b v = side b w \<Longrightarrow> prey_within b i (r - 129 / 10 ^ 4) v"
proof -
  have v: "v = for_upto MAX_PLAYERS (hunt CHASE_DT) w" by (simp add: v_def chase_tick_eq Let_def)
  have sides: "two_sides a b v \<and> side a v = side a w \<and> side b v \<subseteq> side b w"
    unfolding v
    by (rule for_upto_inv [where I = "\<lambda>v. two_sides a b v \<and> side a v = side a w \<and> side b v \<subseteq> side b w"])
      (use w hunt_sides in blast)+
  then show "two_sides a b v" "side a v = side a w" "side b v \<subseteq> side b w" by simp_all
  assume i: "i \<in> side a w" and r: "prey_within b i r w" and kept: "side b v = side b w"
  define P where "P n u \<longleftrightarrow> two_sides a b u \<and> side a u = side a w \<and> side b u \<subseteq> side b w \<and>
    (side b u = side b w \<longrightarrow> prey_within b i (if i < n then r - 129 / 10 ^ 4 else r) u)" for n u
  have "P MAX_PLAYERS v"
    unfolding v
  proof (rule for_upto_rule)
    fix n u
    assume u: "P n u"
    then have t: "two_sides a b u" "i \<in> side a u" by (simp_all add: P_def i)
    note h = hunt_sides [OF t(1), of n]
    have "prey_within b i (if i < Suc n then r - 129 / 10 ^ 4 else r) (hunt CHASE_DT n u)"
      if k: "side b (hunt CHASE_DT n u) = side b w"
    proof -
      have s: "side b (hunt CHASE_DT n u) = side b u" "side b u = side b w" using k h(3) u by (auto simp: P_def)
      then have "prey_within b i (if i < n then r - 129 / 10 ^ 4 else r) u" using u by (simp add: P_def)
      then show ?thesis
        using hunt_gets_closer [OF t(1) _ t(2), of r] hunt_others [OF t(1) _ t(2) _ s(1)] s(1)
        by (cases "n = i") auto
    qed
    then show "P (Suc n) (hunt CHASE_DT n u)" using h u by (auto simp: P_def)
  qed (simp add: P_def w r)
  moreover have "i < MAX_PLAYERS" using side_bounded [OF w, of a] i by auto
  ultimately show "prey_within b i (r - 129 / 10 ^ 4) v" by (simp add: P_def kept)
qed

text \<open>
  From \<open>w\<close> to \<open>v\<close> nobody joined either side, and if no prey is lost, each hunter who is left has
  gained \<open>n\<close> steps on it.
\<close>

definition closes_in :: "char \<Rightarrow> char \<Rightarrow> nat \<Rightarrow> World \<Rightarrow> World \<Rightarrow> bool" where
  "closes_in a b n w v \<longleftrightarrow> two_sides a b v \<and> side a v \<subseteq> side a w \<and> side b v \<subseteq> side b w \<and>
     (\<forall>i r. i \<in> side a v \<longrightarrow> prey_within b i r w \<longrightarrow> side b v = side b w \<longrightarrow>
        prey_within b i (r - n * (129 / 10 ^ 4)) v)"

lemma closes_in_refl: "two_sides a b w \<Longrightarrow> closes_in a b 0 w w"
  by (simp add: closes_in_def)

lemma closes_in_trans:
  assumes "closes_in a b n w v" and "closes_in a b m v u"
  shows "closes_in a b (n + m) w u"
proof -
  have "prey_within b i (r - (n + m) * (129 / 10 ^ 4)) u"
    if "i \<in> side a u" "prey_within b i r w" "side b u = side b w" for i r
  proof -
    have e: "side b v = side b w" "side b u = side b v" "i \<in> side a v"
      using assms that(1,3) by (auto simp: closes_in_def)
    then have "prey_within b i (r - n * (129 / 10 ^ 4)) v" using assms(1) that(2) by (simp add: closes_in_def)
    then have "prey_within b i (r - n * (129 / 10 ^ 4) - m * (129 / 10 ^ 4)) u"
      using assms(2) that(1) e(2) by (simp add: closes_in_def)
    then show ?thesis by (simp add: algebra_simps add_divide_distrib)
  qed
  then show ?thesis using assms by (auto simp: closes_in_def)
qed

lemma closes_in_tick: "two_sides a b w \<Longrightarrow> closes_in a b 1 w (snd (simulate_chase_tick w CHASE_DT))"
  using chase_tick_sides [of a b w] by (simp add: closes_in_def)

text \<open>The board is less than 14.15 across, so within 1100 ticks some prey is caught.\<close>

lemma gap_board:
  assumes "stands_on_board p" and "stands_on_board q"
  shows "gap p q \<le> 1415 / 100"
proof -
  have "\<bar>fpval (p_x q) - fpval (p_x p)\<bar> \<le> 10" "\<bar>fpval (p_y q) - fpval (p_y p)\<bar> \<le> 10"
    using assms by (auto simp: stands_on_board_def on_grid_def)
  then have "(fpval (p_x q) - fpval (p_x p))\<^sup>2 \<le> 10\<^sup>2" "(fpval (p_y q) - fpval (p_y p))\<^sup>2 \<le> 10\<^sup>2"
    using abs_le_square_iff [of "fpval (p_x q) - fpval (p_x p)" 10]
      abs_le_square_iff [of "fpval (p_y q) - fpval (p_y p)" 10] by simp_all
  then show ?thesis unfolding gap_def by (intro real_le_lsqrt) (simp_all add: power2_eq_square)
qed

lemma prey_caught:
  assumes w: "two_sides a b w" and v: "closes_in a b 1100 w v" and "side a v \<noteq> {}" and "side b w \<noteq> {}"
  shows "side b v \<subset> side b w"
proof (rule ccontr)
  assume "\<not> side b v \<subset> side b w"
  then have e: "side b v = side b w" using v by (auto simp: closes_in_def)
  obtain i j where i: "i \<in> side a v" and j: "j \<in> side b w" using assms by auto
  then have "i \<in> side a w" using v by (auto simp: closes_in_def)
  then have "prey_within b i (1415 / 100) w" using j gap_board side_board [OF w] by (auto simp: prey_within_def)
  then have "prey_within b i (1415 / 100 - real 1100 * (129 / 10 ^ 4)) v"
    using v i e unfolding closes_in_def by blast
  then obtain k where "gap (players v i) (players v k) \<le> 1415 / 100 - real 1100 * (129 / 10 ^ 4)"
    by (auto simp: prey_within_def)
  moreover have "0 \<le> gap (players v i) (players v k)" by simp
  ultimately show False by simp
qed

text \<open>
  Any run in which the sides close in on each other, whether at every step or not, uses up one of
  them; \<open>d k\<close> is 1 if step \<open>k\<close> is a tick.
\<close>

lemma steps_reach:
  fixes d :: "nat \<Rightarrow> nat"
  assumes "\<And>k. d k \<le> 1" and "c \<le> (\<Sum>k<m. d k)"
  obtains k where "k \<le> m" "(\<Sum>j<k. d j) = c"
proof -
  have "\<exists>k \<le> m. (\<Sum>j<k. d j) = c"
    using assms(2)
  proof (induction m)
    case (Suc m)
    show ?case
    proof (cases "c \<le> (\<Sum>k<m. d k)")
      case True
      with Suc.IH show ?thesis by (meson le_SucI)
    next
      case False
      with Suc.prems assms(1) [of m] show ?thesis by (intro exI [of _ "Suc m"]) simp
    qed
  qed simp
  then show ?thesis using that by blast
qed

lemma closes_in_run:
  assumes "two_sides a b (s 0)" and "\<And>k. k < m \<Longrightarrow> two_sides a b (s k) \<Longrightarrow> closes_in a b (d k) (s k) (s (Suc k))"
  shows "closes_in a b (\<Sum>k<m. d k) (s 0) (s m)"
  using assms(2)
proof (induction m)
  case 0
  show ?case using assms(1) by (simp add: closes_in_refl)
next
  case (Suc m)
  then have r: "closes_in a b (\<Sum>k<m. d k) (s 0) (s m)" by simp
  then have "two_sides a b (s m)" by (simp add: closes_in_def)
  with Suc.prems closes_in_trans [OF r] show ?case by simp
qed

lemma side_used_up:
  fixes d :: "nat \<Rightarrow> nat"
  assumes "two_sides a b (s 0)" and "\<And>k. d k \<le> 1"
    and "\<And>k. k < m \<Longrightarrow> two_sides a b (s k) \<Longrightarrow> closes_in a b (d k) (s k) (s (Suc k))"
    and "card (side b (s 0)) \<le> N" and "1100 * N \<le> (\<Sum>k<m. d k)"
  shows "side a (s m) = {} \<or> side b (s m) = {}"
  using assms
proof (induction N arbitrary: s d m)
  case 0
  have "side b (s 0) = {}" using 0(4) finite_subset [OF side_bounded [OF 0(1)]] by simp
  with closes_in_run [of a b s m d, OF 0(1,3)] show ?case by (simp add: closes_in_def)
next
  case (Suc N)
  have run: "closes_in a b (\<Sum>j<k. d j) (s 0) (s k)" if "k \<le> m" for k
    using that Suc.prems(1,3) by (intro closes_in_run) simp_all
  obtain k where k: "k \<le> m" "(\<Sum>j<k. d j) = 1100"
    using Suc.prems(2,5) by (elim steps_reach [where c = 1100 and m = m and d = d]) simp
  note v = run [OF k(1), unfolded k(2)]
  let ?s = "\<lambda>j. s (k + j)" and ?d = "\<lambda>j. d (k + j)"
  have two: "two_sides a b (s k)" using v by (simp add: closes_in_def)
  have step: "closes_in a b (?d j) (?s j) (?s (Suc j))" if "j < m - k" "two_sides a b (?s j)" for j
    using that Suc.prems(3) [of "k + j"] by simp
  have tail: "closes_in a b (\<Sum>j<m - k. ?d j) (s k) (s m)"
    using closes_in_run [of a b ?s "m - k" ?d] two step k(1) by simp
  show ?case
  proof (cases "side a (s m) = {} \<or> side b (s 0) = {}")
    case True
    with run [of m] show ?thesis by (auto simp: closes_in_def)
  next
    case False
    then have "side a (s k) \<noteq> {}" using tail by (auto simp: closes_in_def)
    with False have "side b (s k) \<subset> side b (s 0)" using prey_caught [OF Suc.prems(1) v] by blast
    then have "card (side b (s k)) < card (side b (s 0))"
      using finite_subset [OF side_bounded [OF Suc.prems(1)]] by (intro psubset_card_mono) auto
    moreover have "(\<Sum>j<m. d j) = (\<Sum>j<k. d j) + (\<Sum>j<m - k. ?d j)"
      using sum.atLeastLessThan_concat [of 0 k m d] sum.shift_bounds_nat_ivl [of d 0 k "m - k"] k(1)
      by (simp add: atLeast0LessThan add.commute)
    ultimately show ?thesis
      using Suc.IH [of ?s ?d "m - k"] two step Suc.prems(2,4,5) k by simp
  qed
qed

lemma chase_ticks_Suc: "chase_ticks (Suc n) w = snd (simulate_chase_tick (chase_ticks n w) CHASE_DT)"
  by (simp add: chase_ticks_def)

lemma chase_ticks_sides:
  assumes "two_sides a b w"
  shows "two_sides a b (chase_ticks n w)" and "side a (chase_ticks n w) = side a w"
    and "side b (chase_ticks n w) \<subseteq> side b w"
proof -
  have "two_sides a b (chase_ticks n w) \<and> side a (chase_ticks n w) = side a w \<and> side b (chase_ticks n w) \<subseteq> side b w"
  proof (induction n)
    case (Suc n)
    with chase_tick_sides(1-3) [of a b "chase_ticks n w"] show ?case by (auto simp: chase_ticks_Suc)
  qed (use assms in \<open>simp add: chase_ticks_def\<close>)
  then show "two_sides a b (chase_ticks n w)" and "side a (chase_ticks n w) = side a w"
    and "side b (chase_ticks n w) \<subseteq> side b w" by blast+
qed

lemma all_caught:
  assumes "two_sides a b w" and "side a w \<noteq> {}"
  shows "side b (chase_ticks (1100 * card (side b w)) w) = {}"
  using side_used_up [of a b "\<lambda>k. chase_ticks k w" "\<lambda>_. 1" "1100 * card (side b w)" "card (side b w)"]
    assms chase_ticks_sides(2) [OF assms(1)]
  by (simp add: chase_ticks_Suc chase_ticks_def [of 0] closes_in_tick [unfolded One_nat_def])

text \<open>
  C8. When the live players are of two types and on the board, the chase ends: after at most 1100
  ticks for each player of the type that is eaten, a tick reports the end, and the survivors are
  exactly the players of the other type. (A tick is a sixtieth of a second.)
\<close>

theorem two_types_chase_ends:
  assumes "two_sides a b w" and "side a w \<noteq> {}"
  shows "\<exists>n \<le> 1100 * card (side b w). fst (simulate_chase_tick (chase_ticks n w) CHASE_DT) \<and>
    {i. player_is_alive (players (chase_ticks n w) i)} = side a w"
proof -
  define n where "n = 1100 * card (side b w)"
  have n: "n \<le> 1100 * card (side b w)" "side b (chase_ticks n w) = {}"
    using all_caught [OF assms] by (simp_all add: n_def)
  let ?v = "chase_ticks n w"
  let ?u = "snd (simulate_chase_tick ?v CHASE_DT)"
  note v = chase_ticks_sides [OF assms(1), of n]
  note u = chase_tick_sides [OF v(1)]
  have all: "{i. player_is_alive (players x i)} = side a x \<union> side b x" if "two_sides a b x" for x
    using two_sidesD [OF that] by (auto simp: side_def)
  have "side b ?u = {}" using u(3) n(2) by blast
  then have "alive_types ?u \<subseteq> {a}" using all [OF u(1)] by (auto simp: alive_types_def alive_set_def side_def)
  then have "card (alive_types ?u) \<le> 1" using card_mono [of "{a}" "alive_types ?u"] by simp
  then have "fst (simulate_chase_tick ?v CHASE_DT)"
    by (simp add: chase_tick_eq Let_def count_choice_types_alive_card)
  with n v(2) all [OF v(1)] show ?thesis by auto
qed

text \<open>A rock at (0, 0) and scissors at (9, 9).\<close>

text \<open>A round between two players at opposite ends of the board.\<close>

definition duel :: World where
  "duel = (init_server_state (\<lambda>_. 0))\<lparr>phase := PHASE_ROUND_ACTIVE, next_id := 3, players := (\<lambda>_. zero_player)
     (0 := zero_player\<lparr>p_id := 1, p_connected := True, p_registered := True, p_name := ''ann'', p_admitted := True,
        p_alive := True, p_choice := CHR ''R'', p_choice_chosen := True, p_spawn_chosen := True,
        p_x := FFin False 0 0, p_y := FFin False 0 0\<rparr>,
      1 := zero_player\<lparr>p_id := 2, p_connected := True, p_registered := True, p_name := ''bob'', p_admitted := True,
        p_alive := True, p_choice := CHR ''S'', p_choice_chosen := True, p_spawn_chosen := True,
        p_x := FFin False 9 0, p_y := FFin False 9 0\<rparr>)\<rparr>"

lemma duel_sides:
  shows "two_sides (CHR ''R'') (CHR ''S'') duel" and "side (CHR ''R'') duel = {0}" and "side (CHR ''S'') duel = {1}"
proof -
  have alive: "player_is_alive (players duel i) \<longleftrightarrow> i = 0 \<or> i = 1" for i
    by (simp add: duel_def player_is_alive_def zero_player_def)
  have "stands_on_board (players duel i)" if "i = 0 \<or> i = 1" for i
    using that by (auto simp: duel_def stands_on_board_def on_grid_def F32_def with_sign_def)
  then show "two_sides (CHR ''R'') (CHR ''S'') duel"
    unfolding two_sides_def alive by (auto simp: can_eat_def duel_def MAX_PLAYERS_def)
  show "side (CHR ''R'') duel = {0}" "side (CHR ''S'') duel = {1}"
    unfolding side_def alive by (auto simp: duel_def)
qed

text \<open>At the first tick of the duel.\<close>

theorem chase_stays_on_board_witness:
  "fpval (p_x (players (snd (simulate_chase_tick duel CHASE_DT)) 0)) < 10"
proof -
  have alive: "player_is_alive (players (snd (simulate_chase_tick duel CHASE_DT)) 0)"
    using chase_tick_sides(2) [OF duel_sides(1)] duel_sides(2) by (auto simp: side_def)
  have "\<forall>i. player_is_alive (players duel i) \<longrightarrow> on_grid (p_x (players duel i)) \<and> on_grid (p_y (players duel i))"
    using two_sidesD [OF duel_sides(1)] by (simp add: stands_on_board_def)
  from chase_stays_on_board [OF this alive] show ?thesis by (simp add: Let_def)
qed

theorem two_types_chase_ends_witness:
  "\<exists>n \<le> 1100. fst (simulate_chase_tick (chase_ticks n duel) CHASE_DT) \<and>
    {i. player_is_alive (players (chase_ticks n duel) i)} = {0}"
  using two_types_chase_ends [OF duel_sides(1)] by (simp add: duel_sides)

end
