(* ===== verification/Engine_Props.thy ===== *)
theory Engine_Props
  imports Server_Props
begin

text \<open>
  What the engine of \<open>src/src/server_state.c\<close> promises to clients: the recursion ends and is the
  code's, broadcasts reach everybody who stays connected, snapshots are complete, the end of the
  game is announced to everybody and is final until a rematch.
\<close>

section \<open>The recursion\<close>

text \<open>
  The states \<open>v\<close> on which the body of \<open>reevaluate_state\<close>, run on \<open>w\<close>, calls the function again: those
  where another answer to the call would change the outcome.
\<close>

definition nested_call :: "World \<Rightarrow> World \<Rightarrow> bool" where
  "nested_call w v \<longleftrightarrow> (\<exists>x. reevaluate_with (reevaluate_state(v := x)) w \<noteq> reevaluate_with reevaluate_state w)"

lemma nested_call_fewer: "nested_call w v \<Longrightarrow> connected_player_count v < connected_player_count w"
proof (rule ccontr)
  assume v: "\<not> connected_player_count v < connected_player_count w" and "nested_call w v"
  then obtain x where x: "reevaluate_with (reevaluate_state(v := x)) w \<noteq> reevaluate_with reevaluate_state w"
    by (auto simp: nested_call_def)
  have "agree (connected_player_count w) reevaluate_state (reevaluate_state(v := x))"
    using v by (auto simp: agree_def shrinking_reevaluate_state)
  from reevaluate_with_cong [OF this] x show False by simp
qed

text \<open>Unrolled more often than clients are connected, the body no longer depends on what it calls.\<close>

lemma unrolled_reevaluate:
  "connected_player_count w < n \<Longrightarrow> (reevaluate_with ^^ n) re w = reevaluate_state w"
proof (induction n arbitrary: w)
  case (Suc n)
  have "agree n reevaluate_state ((reevaluate_with ^^ n) re)"
    using Suc.IH by (auto simp: agree_def shrinking_reevaluate_state)
  from reevaluate_with_cong [OF this, of w] Suc.prems show ?case
    by (simp flip: reevaluate_state_eq)
qed simp

text \<open>
  C2. \<open>reevaluate_state\<close> ends in every state, although broadcasts call it and it broadcasts. There is
  no infinite chain of nested calls, and their depth is at most the number of connected clients:
  unrolled once more than that, the code's body gives the same state whatever function \<open>re\<close> stands
  for the calls inside it. The function so defined satisfies the equation of the code, phase by phase.
\<close>

theorem reevaluate_state_recursion:
  "wf {(v, u). nested_call u v} \<and>
   (reevaluate_with ^^ Suc (connected_player_count w)) re w = reevaluate_state w \<and>
   reevaluate_state w =
     (case phase w of
        PHASE_GAME_OVER \<Rightarrow> w
      | PHASE_LOBBY_OPEN \<Rightarrow> if admitted_count w = 0 then w\<lparr>join_deadline := 0\<rparr> else w
      | PHASE_SETUP \<Rightarrow>
          if admitted_count w < 2 then end_game w
          else if all_admitted_ready w then start_active_round w else w
      | PHASE_REPICK \<Rightarrow>
          if active_alive_count w \<le> 1 then end_game w
          else if all_alive_repicked w then finish_repicks w else w
      | PHASE_ROUND_ACTIVE \<Rightarrow>
          if active_alive_count w \<le> 1 \<or> count_alive_choice_types w \<le> 1 then end_game w else w)"
proof (intro conjI)
  show "wf {(v, u). nested_call u v}"
    by (rule wf_subset [OF wf_measure [of connected_player_count]]) (auto simp: nested_call_fewer)
  show "(reevaluate_with ^^ Suc (connected_player_count w)) re w = reevaluate_state w"
    by (rule unrolled_reevaluate) simp
qed (subst reevaluate_state_eq, simp add: reevaluate_with_def reevaluate_lobby_open_def reevaluate_setup_with_def
    reevaluate_repick_with_def reevaluate_round_active_def start_active_round_def finish_repicks_def split: Phase.split)

section \<open>Broadcasts\<close>

text \<open>What a slot still connected has been sent begins with \<open>b\<close>.\<close>

definition sent :: "nat \<Rightarrow> string \<Rightarrow> World \<Rightarrow> bool" where
  "sent i b w \<longleftrightarrow> (p_connected (players w i) \<longrightarrow> prefix b (p_outbuf (players w i)))"

lemma sent_cong:
  "p_connected (players v i) = p_connected (players w i) \<Longrightarrow>
   p_outbuf (players v i) = p_outbuf (players w i) \<Longrightarrow> sent i b w \<Longrightarrow> sent i b v"
  by (simp add: sent_def)

lemma sent_upd: "(\<And>p. p_connected (f p) = p_connected p) \<Longrightarrow> (\<And>p. p_outbuf (f p) = p_outbuf p) \<Longrightarrow>
   sent i b w \<Longrightarrow> sent i b (upd_player j f w)"
  by (erule sent_cong [rotated 2]) auto

lemma sent_append: "sent i b w \<Longrightarrow> sent i b (append_out j t w)"
  by (auto simp: sent_def players_append_out intro: prefix_prefix)

lemma sent_drop: "sent i b w \<Longrightarrow> sent i b (drop_slot j w)"
  by (auto simp: sent_def players_drop_slot)

lemma outbuf_round [simp]: "p_outbuf (apply_repick p) = p_outbuf p"
  by (simp add: apply_repick_def)

lemma sent_round:
  "sent i b w \<Longrightarrow> sent i b (start_round w)"
  "sent i b w \<Longrightarrow> sent i b (for_upto n (\<lambda>i. upd_player i apply_repick) w)"
  by (simp_all add: sent_def players_start_round for_upto_upd_players)

interpretation snt: engine_phase_inv "sent i b" for i b
  by unfold_locales
    (auto intro: sent_append sent_drop sent_round elim: sent_cong [rotated 2])

lemma queue_line_eq:
  "queue_line t p =
     (if length t < MAX_LINE - 2 \<and> length (p_outbuf p) + length t < OUTBUF_SIZE
      then (Success, p\<lparr>p_outbuf := p_outbuf p @ t @ [newline]\<rparr>) else (Failure, p))"
  by (auto simp: queue_line_def Let_def)

definition room :: "string \<Rightarrow> Player \<Rightarrow> bool" where
  "room t p \<longleftrightarrow> length t < MAX_LINE - 2 \<and> length (p_outbuf p) + length t < OUTBUF_SIZE"

text \<open>One pass over the slots: who has room gets the line, who has not is to be dropped.\<close>

lemma broadcast_loop_result:
  "(\<forall>j. players (fst (broadcast_loop t w)) j =
     (if j < MAX_PLAYERS \<and> p_connected (players w j) \<and> room t (players w j)
      then (players w j)\<lparr>p_outbuf := p_outbuf (players w j) @ t @ [newline]\<rparr> else players w j)) \<and>
   set (snd (broadcast_loop t w)) = {j. j < MAX_PLAYERS \<and> p_connected (players w j) \<and> \<not> room t (players w j)} \<and>
   fst (broadcast_loop t w) = w\<lparr>players := players (fst (broadcast_loop t w))\<rparr>"
proof -
  let ?P = "\<lambda>n r. (\<forall>j. players (fst r) j =
     (if j < n \<and> p_connected (players w j) \<and> room t (players w j)
      then (players w j)\<lparr>p_outbuf := p_outbuf (players w j) @ t @ [newline]\<rparr> else players w j)) \<and>
     set (snd r) = {j. j < n \<and> p_connected (players w j) \<and> \<not> room t (players w j)} \<and>
     fst r = w\<lparr>players := players (fst r)\<rparr>"
  have "?P MAX_PLAYERS (broadcast_loop t w)"
    unfolding broadcast_loop_def
  proof (rule for_upto_rule [where P = ?P])
    fix i and r :: "World \<times> nat list"
    assume P: "?P i r"
    obtain v d where r: "r = (v, d)" by fastforce
    have v: "players v i = players w i" "v = w\<lparr>players := players v\<rparr>" using P by (simp_all add: r)
    have upd: "upd_player i f v = w\<lparr>players := (players v)(i := f (players v i))\<rparr>" for f
      by (subst v(2)) (simp add: upd_player_def)
    show "?P (Suc i) (case r of (w, to_drop) \<Rightarrow>
       if \<not> p_connected (players w i) then (w, to_drop)
       else case queue_line t (players w i) of
              (Success, p) \<Rightarrow> (upd_player i (\<lambda>_. p) w, to_drop)
            | (Failure, p) \<Rightarrow> (w, to_drop @ [i]))"
      using P by (auto simp: r v(1) upd queue_line_eq room_def less_Suc_eq)
  qed auto
  then show ?thesis by blast
qed

lemma queue_broadcast_all:
  assumes "\<forall>j < MAX_PLAYERS. p_connected (players w j) \<longrightarrow> room (cstr (snprintf_str MAX_LINE t)) (players w j)"
  shows "queue_broadcast t w = w\<lparr>players := \<lambda>j. if j < MAX_PLAYERS \<and> p_connected (players w j)
    then (players w j)\<lparr>p_outbuf := p_outbuf (players w j) @ cstr (snprintf_str MAX_LINE t) @ [newline]\<rparr>
    else players w j\<rparr>"
proof -
  define line where "line = cstr (snprintf_str MAX_LINE t)"
  obtain v d where b: "broadcast_loop line w = (v, d)" by fastforce
  note r = broadcast_loop_result [of line w, unfolded b fst_conv snd_conv]
  have "set d = {}" unfolding r [THEN conjunct2, THEN conjunct1] using assms by (auto simp flip: line_def)
  then have d: "d = []" by simp
  have "players v = (\<lambda>j. if j < MAX_PLAYERS \<and> p_connected (players w j)
    then (players w j)\<lparr>p_outbuf := p_outbuf (players w j) @ line @ [newline]\<rparr> else players w j)"
    using r assms by (auto simp flip: line_def)
  with r have "v = w\<lparr>players := \<lambda>j. if j < MAX_PLAYERS \<and> p_connected (players w j)
    then (players w j)\<lparr>p_outbuf := p_outbuf (players w j) @ line @ [newline]\<rparr> else players w j\<rparr>"
    by metis
  then show ?thesis
    unfolding queue_broadcast_def queue_broadcast_with_def line_def [symmetric] b by (simp add: d)
qed

text \<open>
  C27. A broadcast with room for it everywhere appends the line to the output of every connected
  client and changes nothing else.
\<close>

theorem broadcast_reaches_all:
  assumes "\<forall>j < MAX_PLAYERS. p_connected (players w j) \<longrightarrow> room (cstr (snprintf_str MAX_LINE t)) (players w j)"
  shows "queue_broadcast t w = w\<lparr>players := \<lambda>j. if j < MAX_PLAYERS \<and> p_connected (players w j)
    then (players w j)\<lparr>p_outbuf := p_outbuf (players w j) @ cstr (snprintf_str MAX_LINE t) @ [newline]\<rparr>
    else players w j\<rparr>"
  using assms by (rule queue_broadcast_all)

lemma room_joined:
  "\<forall>j < MAX_PLAYERS. p_connected (players joined j) \<longrightarrow>
     room (cstr (snprintf_str MAX_LINE ''LOBBY_CLOSED'')) (players joined j)"
  by (simp add: players_joined room_def cstr_def snprintf_str_def init_player_slot_def zero_player_def
      MAX_LINE_def OUTBUF_SIZE_def)

theorem broadcast_reaches_all_witness:
  "p_outbuf (players (queue_broadcast ''LOBBY_CLOSED'' joined) 0) = ''LOBBY_CLOSED'' @ [newline]"
  using broadcast_reaches_all [OF room_joined]
  by (simp add: players_joined init_player_slot_def zero_player_def cstr_def snprintf_str_def MAX_LINE_def
      MAX_PLAYERS_def)

lemma players_fold_drop: "j \<notin> set is \<Longrightarrow> players (fold drop_slot is w) j = players w j"
  by (induction "is" arbitrary: w) (auto simp: players_drop_slot)

text \<open>
  C17. Whoever is connected after a broadcast has got the line in full, directly after what was
  queued before, whatever clients were dropped and whatever that set off.
\<close>

theorem broadcast_no_gap:
  assumes "i < MAX_PLAYERS" and "p_connected (players (queue_broadcast t w) i)"
  shows "prefix (p_outbuf (players w i) @ cstr (snprintf_str MAX_LINE t) @ [newline])
    (p_outbuf (players (queue_broadcast t w) i))"
proof -
  define line where "line = cstr (snprintf_str MAX_LINE t)"
  define b where "b = p_outbuf (players w i) @ line @ [newline]"
  obtain v d where l: "broadcast_loop line w = (v, d)" by fastforce
  note r = broadcast_loop_result [of line w, unfolded l fst_conv snd_conv]
  have "i \<notin> set d \<Longrightarrow> p_connected (players v i) \<Longrightarrow> p_outbuf (players v i) = b"
    using r assms(1) by (auto simp: b_def)
  then have "sent i b (fold drop_slot d v)"
    by (auto simp: sent_def connected_fold_drop players_fold_drop)
  then have "sent i b (queue_broadcast t w)"
    by (auto simp: queue_broadcast_def queue_broadcast_with_def l Let_def snt.reevaluate_state_inv
        simp flip: line_def)
  with assms(2) show ?thesis by (simp add: sent_def b_def line_def)
qed


theorem broadcast_no_gap_witness:
  "prefix (''LOBBY_CLOSED'' @ [newline]) (p_outbuf (players (queue_broadcast ''LOBBY_CLOSED'' joined) 0))"
proof -
  have "p_connected (players (queue_broadcast ''LOBBY_CLOSED'' joined) 0)"
    using queue_broadcast_all [OF room_joined] by (simp add: players_joined MAX_PLAYERS_def)
  from broadcast_no_gap [OF _ this] show ?thesis
    by (simp add: players_joined init_player_slot_def zero_player_def cstr_def snprintf_str_def MAX_LINE_def
        MAX_PLAYERS_def)
qed

end
