(* ===== verification/Match_Props.thy ===== *)
theory Match_Props
  imports Engine_Props
begin

text \<open>
  The announcements of \<open>src/src/server_state.c\<close> line by line: snapshots, the end of the game and
  the rematch, as exact descriptions of the new state; and the two ends of a match, the closing
  of the lobby and the order of the phases.
\<close>

section \<open>Several lines to one client\<close>

lemma queue_to_eq:
  "queue_to i t w =
     (if length t < MAX_LINE \<and> room (cstr t) (players w i)
      then (Success, append_out i (cstr t @ [newline]) w) else (Failure, w))"
  by (auto simp: queue_to_def queue_line_checked_def queue_line_eq room_def append_out_def upd_player_def)

text \<open>A chain of checked lines, which stops at the first that does not fit.\<close>

primrec queue_all :: "nat \<Rightarrow> string list \<Rightarrow> World \<Rightarrow> status \<times> World" where
  "queue_all i [] w = (Success, w)"
| "queue_all i (t # ts) w = and_then (queue_to i t w) (queue_all i ts)"

lemma and_then_simps [simp]: "and_then (Success, w) f = f w" "and_then (Failure, w) f = (Failure, w)"
  by (simp_all add: and_then_def)

lemma and_then_unit [simp]: "and_then r (Pair Success) = r"
  by (cases r; cases "fst r") (auto simp: and_then_def)

lemma queue_all_single [simp]: "queue_all i [t] = queue_to i t"
  by (rule ext) (simp add: and_then_def split: prod.split status.split)

lemma append_out_append [simp]: "append_out i u (append_out i t w) = append_out i (t @ u) w"
  by (simp add: append_out_def upd_player_def)

lemma append_out_Nil [simp]: "append_out i [] w = w"
  by (simp add: append_out_def upd_player_def)

lemma outbuf_append_out [simp]: "p_outbuf (players (append_out i t w) i) = p_outbuf (players w i) @ t"
  by (simp add: append_out_def)

lemma time_tick_append_out [simp]: "time_tick (append_out i t w) = append_out i t (time_tick w)"
  by (simp add: append_out_def upd_player_def time_tick_def)

lemma time_now_append_out [simp]: "time_now (append_out i t w) = time_now w"
  by (simp add: append_out_def upd_player_def time_now_def)

lemma queue_all_Success:
  "queue_all i ts w = (Success, v) \<Longrightarrow> v = append_out i (wire (map cstr ts)) w"
proof (induction ts arbitrary: w)
  case (Cons t ts)
  from Cons.prems have "queue_all i ts (append_out i (cstr t @ [newline]) w) = (Success, v)"
    by (auto simp: queue_to_eq split: if_splits)
  from Cons.IH [OF this] show ?case by simp
qed simp

lemma cstr_id: "NUL \<notin> set t \<Longrightarrow> cstr t = t"
  by (induction t) (auto simp: cstr_def)

text \<open>Lines without a zero byte are queued all or not at all, as far as the answer goes.\<close>

lemma queue_all_fits:
  assumes "\<forall>t \<in> set ts. NUL \<notin> set t \<and> length t < MAX_LINE - 2"
  shows "fst (queue_all i ts w) =
    (if ts = [] \<or> length (p_outbuf (players w i)) + length (wire ts) \<le> OUTBUF_SIZE then Success else Failure)"
  using assms
proof (induction ts arbitrary: w)
  case (Cons t ts)
  then have t: "cstr t = t" "length t < MAX_LINE - 2" "length t < MAX_LINE" by (auto simp: cstr_id)
  show ?case
  proof (cases "room t (players w i)")
    case True
    with Cons.IH [of "append_out i (t @ [newline]) w"] Cons.prems t show ?thesis
      by (auto simp: queue_to_eq room_def)
  next
    case False
    with t show ?thesis by (auto simp: queue_to_eq room_def)
  qed
qed simp

section \<open>Snapshots\<close>

text \<open>The lines about the phase, and whether formatting them reads the clock.\<close>

definition phase_lines :: "nat \<Rightarrow> World \<Rightarrow> string list" where
  "phase_lines dst w =
     (case phase w of
        PHASE_LOBBY_OPEN \<Rightarrow>
          [if join_deadline w = 0 then ''LOBBY_WAITING''
           else ''LOBBY_OPEN '' @ int_str (seconds_left (join_deadline w) w)]
      | PHASE_SETUP \<Rightarrow>
          [''LOBBY_CLOSED'', ''SETUP_OPEN '' @ int_str (wrap_int (seconds_left (setup_deadline w) w))]
      | PHASE_ROUND_ACTIVE \<Rightarrow>
          [''LOBBY_CLOSED'', ''ROUND_START '' @ int_str (round_no w) @ '' '' @
             int_str (wrap_int (seconds_left (round_deadline w) w))]
      | PHASE_REPICK \<Rightarrow> [''LOBBY_CLOSED'', ''REPICK_START'']
      | PHASE_GAME_OVER \<Rightarrow>
          if player_is_registered (players w dst) then [game_over_line (players w dst)] else [])"

definition reads_clock :: "World \<Rightarrow> bool" where
  "reads_clock w \<longleftrightarrow> phase w = PHASE_SETUP \<or> phase w = PHASE_ROUND_ACTIVE \<or>
     phase w = PHASE_LOBBY_OPEN \<and> join_deadline w \<noteq> 0"

definition snapshot_lines :: "nat \<Rightarrow> World \<Rightarrow> string list" where
  "snapshot_lines dst w =
     [''STATE_BEGIN''] @ phase_lines dst w @
     map (\<lambda>i. player_line (players w i)) (filter (\<lambda>i. player_is_admitted (players w i)) [0..<MAX_PLAYERS]) @
     [''STATE_END'']"

lemma player_line_append_out [simp]:
  "player_line (players (append_out d t w) i) = player_line (players w i)"
  "player_is_admitted (players (append_out d t w) i) = player_is_admitted (players w i)"
  "player_is_registered (players (append_out d t w) i) = player_is_registered (players w i)"
  "game_over_line (players (append_out d t w) i) = game_over_line (players w i)"
  by (auto simp: players_append_out player_line_def player_is_admitted_def player_is_registered_def
      game_over_line_def player_won_match_def bool_int_def)

lemma round_deadline_append_out [simp]: "round_deadline (append_out i t w) = round_deadline w"
  by (simp add: append_out_def)

lemma seconds_left_append_out [simp]: "seconds_left d (append_out i t w) = seconds_left d w"
  by (simp add: seconds_left_def)

lemma phase_lines_Success:
  assumes "queue_phase_lines dst w = (Success, v)"
  shows "v = append_out dst (wire (map cstr (phase_lines dst w))) (if reads_clock w then time_tick w else w)"
  using assms
  by (cases "phase w")
    (auto simp: queue_phase_lines_def phase_lines_def reads_clock_def queue_to_eq queue_game_over_result_def
      player_is_registered_def Let_def split: if_splits)

lemma player_lines_Success:
  assumes "queue_player_lines dst w = (Success, v)"
  shows "v = append_out dst (wire (map cstr
    (map (\<lambda>i. player_line (players w i)) (filter (\<lambda>i. player_is_admitted (players w i)) [0..<MAX_PLAYERS])))) w"
proof -
  let ?ls = "\<lambda>n. map (\<lambda>i. player_line (players w i)) (filter (\<lambda>i. player_is_admitted (players w i)) [0..<n])"
  let ?body = "\<lambda>i r. and_then r (\<lambda>w.
       if player_is_admitted (players w i) then queue_to dst (player_line (players w i)) w else (Success, w))"
  have "for_upto n ?body (Success, w) = (Success, v) \<Longrightarrow> v = append_out dst (wire (map cstr (?ls n))) w" for n v
  proof (induction n arbitrary: v)
    case (Suc n)
    obtain r u where l: "for_upto n ?body (Success, w) = (r, u)" by fastforce
    with Suc.prems have r: "r = Success" by (cases r) (simp_all add: for_upto_Suc)
    with Suc.IH l have u: "u = append_out dst (wire (map cstr (?ls n))) w" by simp
    with Suc.prems l r show ?case
      by (auto simp: for_upto_Suc queue_to_eq wire_def split: if_splits)
  qed simp
  with assms show ?thesis by (simp add: queue_player_lines_def)
qed

lemma snapshot_appended:
  assumes "queue_game_state_for_player dst w = (Success, v)"
  shows "v = append_out dst (wire (map cstr (snapshot_lines dst w))) (if reads_clock w then time_tick w else w)"
proof -
  define w1 where "w1 = append_out dst (''STATE_BEGIN'' @ [newline]) w"
  have b: "queue_to dst ''STATE_BEGIN'' w = (Success, w1)"
    using assms by (auto simp: queue_game_state_for_player_def queue_to_eq w1_def cstr_def split: if_splits)
  obtain r2 w2 where p: "queue_phase_lines dst w1 = (r2, w2)" by fastforce
  with assms b have r2: "r2 = Success" by (cases r2) (simp_all add: queue_game_state_for_player_def)
  obtain r3 w3 where l: "queue_player_lines dst w2 = (r3, w3)" by fastforce
  with assms b p r2 have r3: "r3 = Success" by (cases r3) (simp_all add: queue_game_state_for_player_def)
  have v: "v = append_out dst (''STATE_END'' @ [newline]) w3"
    using assms b p r2 l r3
    by (auto simp: queue_game_state_for_player_def queue_to_eq cstr_def split: if_splits)
  have frames: "phase_lines dst w1 = phase_lines dst w" "reads_clock w1 = reads_clock w"
    by (auto simp: w1_def phase_lines_def reads_clock_def split: Phase.split)
  note w2 = phase_lines_Success [OF p [unfolded r2], unfolded frames]
  note w3 = player_lines_Success [OF l [unfolded r3]]
  show ?thesis
    by (simp add: v w3 w2 w1_def snapshot_lines_def wire_def cstr_def)
qed

text \<open>
  C16. A snapshot that is reported as queued is complete: between STATE_BEGIN and STATE_END it has
  the lines of the phase and one PLAYER line for each admitted player in slot order, and nothing
  but the receiver's output buffer and the clock has changed.
\<close>

theorem snapshot_complete:
  assumes "queue_game_state_for_player dst w = (Success, v)"
  shows "v = append_out dst (wire (map cstr (snapshot_lines dst w))) (if reads_clock w then time_tick w else w)"
  using assms by (rule snapshot_appended)

lemma queue_player_lines_none:
  "(\<And>i. \<not> player_is_admitted (players w i)) \<Longrightarrow> queue_player_lines dst w = (Success, w)"
  unfolding queue_player_lines_def by (rule for_upto_inv) simp_all

theorem snapshot_complete_witness:
  "snd (queue_game_state_for_player 0 joined) = append_out 0 (wire (map cstr (snapshot_lines 0 joined))) joined"
proof -
  have none: "\<not> player_is_admitted (players joined i)" for i
    by (simp add: players_joined player_is_admitted_def zero_player_def init_player_slot_def)
  have p: "phase joined = PHASE_LOBBY_OPEN" "join_deadline joined = 0" "p_outbuf (players joined 0) = []"
    by (simp_all add: joined_eq init_server_state_def init_player_slot_def zero_player_def)
  obtain v where "queue_game_state_for_player 0 joined = (Success, v)"
    using none p by (simp add: queue_game_state_for_player_def queue_phase_lines_def queue_to_eq room_def
        queue_player_lines_none cstr_def MAX_LINE_def OUTBUF_SIZE_def)
  from snapshot_complete [OF this] this show ?thesis using p by (simp add: reads_clock_def)
qed

section \<open>Loops that treat each slot by itself\<close>

lemma for_upto_slots:
  assumes "\<And>i v. players (body i v) = (players v)(i := g (players v i))"
  shows "players (for_upto n body w) j = (if j < n then g (players w j) else players w j)"
  by (induction n) (auto simp: for_upto_Suc assms less_Suc_eq)

definition with_lines :: "string list \<Rightarrow> Player \<Rightarrow> Player" where
  "with_lines ts p = p\<lparr>p_outbuf := p_outbuf p @ wire ts\<rparr>"

text \<open>What happens to a slot that is sent lines and dropped if they do not all fit.\<close>

definition told :: "string list \<Rightarrow> Player \<Rightarrow> Player" where
  "told ts p = (if length (p_outbuf p) + length (wire ts) \<le> OUTBUF_SIZE then with_lines ts p else empty_slot)"

lemma queue_all_connected:
  "p_connected (players (snd (queue_all i ts w)) j) = p_connected (players w j)"
  "j \<noteq> i \<Longrightarrow> players (snd (queue_all i ts w)) j = players w j"
  by (induction ts arbitrary: w) (auto simp: queue_to_eq players_append_out)

lemma queue_all_told:
  assumes "\<forall>t \<in> set ts. NUL \<notin> set t \<and> length t < MAX_LINE - 2" and "ts \<noteq> []" and "p_connected (players w i)"
  shows "players (case queue_all i ts w of (Success, v) \<Rightarrow> v | (Failure, v) \<Rightarrow> drop_slot i v) =
    (players w)(i := told ts (players w i))"
proof -
  obtain r v where q: "queue_all i ts w = (r, v)" by fastforce
  have ids: "map cstr ts = ts" using assms(1) by (auto intro: map_idI cstr_id)
  show ?thesis
  proof (cases r)
    case Success
    then have "v = append_out i (wire ts) w" using queue_all_Success [of i ts w v] q by (simp add: ids)
    moreover have "length (p_outbuf (players w i)) + length (wire ts) \<le> OUTBUF_SIZE"
      using queue_all_fits [OF assms(1), of i w] q Success assms(2) by (simp split: if_splits)
    ultimately show ?thesis using q Success by (simp add: told_def with_lines_def append_out_def fun_eq_iff)
  next
    case Failure
    then have "\<not> length (p_outbuf (players w i)) + length (wire ts) \<le> OUTBUF_SIZE"
      using queue_all_fits [OF assms(1), of i w] q assms(2) by (auto split: if_splits)
    then show ?thesis
      using q Failure assms(3) queue_all_connected [where i = i and ts = ts and w = w, unfolded q]
      by (auto simp: told_def players_drop_slot)
  qed
qed

section \<open>The end of the game\<close>

lemma game_over_line_ok: "NUL \<notin> set (game_over_line p) \<and> length (game_over_line p) < MAX_LINE - 2"
  by (auto simp: game_over_line_def MAX_LINE_def)

text \<open>
  C25. The end of the game tells every registered client its own result, WIN to the admitted
  who are alive or still waiting, LOSE to the other admitted, the bare line to spectators; a
  client without room for the line is dropped; every other slot is left alone.
\<close>

theorem end_game_announces:
  "phase (end_game w) = PHASE_GAME_OVER \<and>
   players (end_game w) j =
     (if j < MAX_PLAYERS \<and> player_is_registered (players w j)
      then told
        [if player_is_admitted (players w j) then
           (if p_alive (players w j) \<or> p_waiting (players w j) then ''GAME_OVER WIN'' else ''GAME_OVER LOSE'')
         else ''GAME_OVER'']
        (players w j)
      else players w j)"
proof
  let ?g = "\<lambda>p. if player_is_registered p then told [game_over_line p] p else p"
  let ?body = "\<lambda>i w. if \<not> p_connected (players w i) then w
       else case queue_game_over_result i w of (Success, w') \<Rightarrow> w' | (Failure, w') \<Rightarrow> drop_slot i w'"
  have "players (?body i v) = (players v)(i := ?g (players v i))" for i v
  proof (cases "player_is_registered (players v i)")
    case True
    then have "players (?body i v) =
        players (case queue_all i [game_over_line (players v i)] v of (Success, v) \<Rightarrow> v | (Failure, v) \<Rightarrow> drop_slot i v)"
      by (simp add: player_is_registered_def queue_game_over_result_def Let_def)
    also have "\<dots> = (players v)(i := told [game_over_line (players v i)] (players v i))"
      using True game_over_line_ok by (intro queue_all_told) (auto simp: player_is_registered_def)
    finally show ?thesis using True by simp
  next
    case False
    then show ?thesis by (auto simp: player_is_registered_def queue_game_over_result_def Let_def)
  qed
  from for_upto_slots [OF this, of MAX_PLAYERS _ j]
  show "players (end_game w) j = (if j < MAX_PLAYERS \<and> player_is_registered (players w j) then told
        [if player_is_admitted (players w j) then
           (if p_alive (players w j) \<or> p_waiting (players w j) then ''GAME_OVER WIN'' else ''GAME_OVER LOSE'')
         else ''GAME_OVER''] (players w j) else players w j)"
    by (auto simp: end_game_def game_over_line_def player_won_match_def)
  show "phase (end_game w) = PHASE_GAME_OVER"
    unfolding end_game_def
    by (rule for_upto_inv)
      (auto simp: queue_game_over_result_def Let_def queue_to_eq)
qed

section \<open>The rematch\<close>

definition reset_lines :: "string list" where
  "reset_lines = [''MATCH_RESET'', ''SPECTATING'', ''CHOOSE_TYPE'', ''CHOOSE_SPAWN 10 10'', ''LOBBY_WAITING'']"

lemma queue_reset_lines_all: "queue_reset_lines i w = queue_all i reset_lines w"
proof -
  have "int_str GRID_W = ''10''" "int_str GRID_H = ''10''" by code_simp+
  moreover have "queue_all i [] = Pair Success"
    "queue_all i (t # ts) = (\<lambda>w. and_then (queue_to i t w) (queue_all i ts))" for t ts
    by (rule ext, simp)+
  ultimately show ?thesis by (simp add: queue_reset_lines_def reset_lines_def del: queue_all_single)
qed

text \<open>The loop of the reset on every slot, and what it leaves alone.\<close>

lemma reset_match_slots:
  "phase (reset_match w) = PHASE_LOBBY_OPEN \<and> join_deadline (reset_match w) = 0 \<and>
   setup_deadline (reset_match w) = 0 \<and> round_deadline (reset_match w) = 0 \<and> round_no (reset_match w) = 0 \<and>
   next_id (reset_match w) = next_id w \<and>
   players (reset_match w) j =
     (if j < MAX_PLAYERS \<and> player_is_registered (players w j)
      then told reset_lines (reset_match_player (players w j)) else players w j)"
proof (intro conjI)
  let ?g = "\<lambda>p. if player_is_registered p then told reset_lines (reset_match_player p) else p"
  let ?body = "\<lambda>i w. if \<not> player_is_registered (players w i) then w
       else case queue_reset_lines i (upd_player i reset_match_player w) of
              (Success, w') \<Rightarrow> w' | (Failure, w') \<Rightarrow> drop_slot i w'"
  have clean: "\<forall>t \<in> set reset_lines. NUL \<notin> set t \<and> length t < MAX_LINE - 2"
    by (simp add: reset_lines_def MAX_LINE_def)
  have "players (?body i v) = (players v)(i := ?g (players v i))" for i v
  proof (cases "player_is_registered (players v i)")
    case True
    then have "p_connected (players (upd_player i reset_match_player v) i)"
      by (simp add: player_is_registered_def)
    from queue_all_told [OF clean _ this] True show ?thesis
      by (simp add: queue_reset_lines_all fun_eq_iff reset_lines_def del: queue_all.simps)
  qed simp
  from for_upto_slots [OF this, of MAX_PLAYERS _ j]
  show "players (reset_match w) j = (if j < MAX_PLAYERS \<and> player_is_registered (players w j)
      then told reset_lines (reset_match_player (players w j)) else players w j)"
    by (simp add: reset_match_def)
  let ?J = "\<lambda>v. phase v = PHASE_LOBBY_OPEN \<and> join_deadline v = 0 \<and> setup_deadline v = 0 \<and>
    round_deadline v = 0 \<and> round_no v = 0 \<and> next_id v = next_id w"
  have "?J (reset_match w)"
    by (rule reset_loop_inv [where J = ?J])
      (unfold_locales, auto simp: drop_slot_def)
  then show "phase (reset_match w) = PHASE_LOBBY_OPEN" "join_deadline (reset_match w) = 0"
    "setup_deadline (reset_match w) = 0" "round_deadline (reset_match w) = 0" "round_no (reset_match w) = 0"
    "next_id (reset_match w) = next_id w"
    by simp_all
qed

text \<open>
  C26. A rematch opens an empty lobby: the deadlines and the round number are cleared. Every
  registered client keeps its connection, its id, its name and what it has sent, and is otherwise as
  before it chose: not admitted, alive, waiting or in a round, without a choice or a repick, at the
  off-board mark (-1, -1). It is told so in five lines, or dropped if they do not fit. Nobody else is
  touched.
\<close>

theorem reset_match_spec:
  "phase (reset_match w) = PHASE_LOBBY_OPEN \<and> join_deadline (reset_match w) = 0 \<and>
   setup_deadline (reset_match w) = 0 \<and> round_deadline (reset_match w) = 0 \<and> round_no (reset_match w) = 0 \<and>
   next_id (reset_match w) = next_id w \<and>
   players (reset_match w) j =
     (if j < MAX_PLAYERS \<and> player_is_registered (players w j)
      then told [''MATCH_RESET'', ''SPECTATING'', ''CHOOSE_TYPE'', ''CHOOSE_SPAWN 10 10'', ''LOBBY_WAITING'']
        ((players w j)\<lparr>p_admitted := False, p_alive := False, p_waiting := False, p_in_round := False,
           p_choice_chosen := False, p_spawn_chosen := False, p_repick_submitted := False,
           p_repick_choice := NUL, p_choice := NUL, p_x := fp_minus_one, p_y := fp_minus_one\<rparr>)
      else players w j)"
  using reset_match_slots [of w j] by (simp add: reset_match_player_def reset_player_progress_def reset_lines_def)

section \<open>The two ends of a match\<close>

text \<open>
  C21. When its deadline has passed, the lobby closes at once into a round or the end of the
  game, whoever is dropped on the way.
\<close>

theorem lobby_closes:
  assumes "world_ok w" and "phase w = PHASE_LOBBY_OPEN" and "join_deadline w \<noteq> 0"
    and "join_deadline w \<le> time_now w"
  shows "phase (close_lobby_if_needed w) \<in> {PHASE_ROUND_ACTIVE, PHASE_GAME_OVER}"
  using close_lobby_playing [OF assms] by (simp add: playing_def)

theorem lobby_closes_witness:
  "phase (close_lobby_if_needed (joined\<lparr>join_deadline := 60\<rparr>)) \<in> {PHASE_ROUND_ACTIVE, PHASE_GAME_OVER}"
proof (rule lobby_closes)
  show "world_ok (joined\<lparr>join_deadline := 60\<rparr>)" using world_ok_joined by (rule world_ok_fields)
qed (simp_all add: joined_eq init_server_state_def time_now_def)

section \<open>The course of a match\<close>

text \<open>
  A phase, or a choice of phases, from which the engine does not come back: rounds and the end of
  the game, or the end of the game alone.
\<close>

locale late_phase =
  fixes Q :: "Phase \<Rightarrow> bool"
  assumes late: "Q p \<Longrightarrow> p = PHASE_ROUND_ACTIVE \<or> p = PHASE_GAME_OVER"
    and over: "Q PHASE_GAME_OVER"

sublocale late_phase \<subseteq> engine_inv "\<lambda>w. Q (phase w)"
  by unfold_locales simp_all

lemma phase_say [simp]: "phase (say i t w) = phase w"
  by (simp add: say_def)

lemma phase_lobby_status: "phase (queue_lobby_status_for_player i w) = phase w"
  by (simp add: queue_lobby_status_for_player_def Let_def)

context late_phase
begin

lemma late_end_game: "Q (phase (end_game w))"
proof -
  have "Q (phase (w\<lparr>phase := PHASE_GAME_OVER\<rparr>))" by (simp add: over)
  then show ?thesis
    unfolding end_game_def by (rule for_upto_inv) (auto intro!: status_case_inv queue_game_over_result_inv)
qed

lemma late_reevaluate: "Q (phase w) \<Longrightarrow> Q (phase (reevaluate_state w))"
  using late [of "phase w"] late_end_game [of w]
  by (subst reevaluate_state_eq) (auto simp: reevaluate_with_def reevaluate_round_active_def)

lemma late_drop_player: "Q (phase w) \<Longrightarrow> Q (phase (drop_player i a w))"
  unfolding drop_player_def by (intro drop_player_with_inv late_reevaluate)

lemma late_admit: "Q (phase w) \<Longrightarrow> Q (phase (maybe_admit_player i w))"
  using late [of "phase w"]
  by (auto simp: maybe_admit_player_def Let_def queue_or_drop_def queue_to_eq late_reevaluate)

lemma late_command:
  assumes w: "Q (phase w)" and "phase w = PHASE_GAME_OVER \<Longrightarrow> \<forall>args. parse_command line 16 \<noteq> Some (''REMATCH'', args)"
  shows "Q (phase (handle_command i line w))"
proof -
  obtain b v where r: "require_registered_not_admitted i w = (b, v)" by fastforce
  then have v: "phase v = phase w" by (auto simp: require_registered_not_admitted_def split: if_splits)
  have ph: "phase w = PHASE_ROUND_ACTIVE \<or> phase w = PHASE_GAME_OVER" using w by (rule late)
  have "Q (phase (handle_hello_command i args w))" for args
    using w by (simp add: handle_hello_command_def phase_lobby_status Let_def split: option.split)
  moreover have "Q (phase (handle_choice_command i args w))" for args
    using w v by (simp add: handle_choice_command_def r Let_def late_admit split: bool.split option.split)
  moreover have "Q (phase (handle_spawn_command i args w))" for args
    using w v by (simp add: handle_spawn_command_def r Let_def late_admit split: bool.split option.split prod.split)
  moreover have "Q (phase (handle_repick_command i args w))" for args
    using w ph by (auto simp: handle_repick_command_def Let_def)
  moreover have "Q (phase (handle_get_state_command i w))"
    using queue_game_state_for_player_inv [OF w, of i]
    by (auto simp: handle_get_state_command_def late_reevaluate late_drop_player split: prod.split status.split)
  moreover have "Q (phase (handle_quit_command i w))"
    using w by (simp add: handle_quit_command_def late_reevaluate late_drop_player)
  moreover have "Q (phase (handle_rematch_command i w))" if "phase w \<noteq> PHASE_GAME_OVER"
    using w that by (simp add: handle_rematch_command_def)
  ultimately show ?thesis
    using w ph assms(2) by (auto simp: handle_command_def split: option.split)
qed

lemma late_timers: "Q (phase w) \<Longrightarrow> Q (phase (fst (advance_match_timers now tick (w, t))))"
proof -
  assume w: "Q (phase w)"
  have "Q (phase (broadcast_positions (for_upto n (hunt dt) w)))" for n dt
    unfolding broadcast_positions_def
    by (rule broadcast_positions_with_inv) (simp_all add: late_reevaluate w)
  note chase = this
  from late [OF w] show ?thesis
  proof
    assume "phase w = PHASE_ROUND_ACTIVE"
    with w show ?thesis
      by (simp add: advance_match_timers_def close_lobby_if_needed_def expire_unready_setup_players_def
          simulate_chase_tick_def Let_def chase late_reevaluate)
  next
    assume "phase w = PHASE_GAME_OVER"
    with w show ?thesis
      by (simp add: advance_match_timers_def close_lobby_if_needed_def expire_unready_setup_players_def)
  qed
qed

end

interpretation ovr: late_phase "\<lambda>p. p = PHASE_GAME_OVER"
  by unfold_locales simp_all

interpretation rnd: late_phase "\<lambda>p. p = PHASE_ROUND_ACTIVE \<or> p = PHASE_GAME_OVER"
  by unfold_locales simp_all

text \<open>
  C22. A match only goes forward: no command but REMATCH, and no timer, leads from a round back to
  the lobby or from the end of the game anywhere; at the end of the game the timers do nothing.
\<close>

theorem match_progress:
  assumes "phase w \<in> {PHASE_LOBBY_OPEN, PHASE_ROUND_ACTIVE, PHASE_GAME_OVER}"
    and "phase w = PHASE_GAME_OVER \<Longrightarrow> \<forall>args. parse_command line 16 \<noteq> Some (''REMATCH'', args)"
  shows "phase w \<le> phase (handle_command i line w) \<and>
    phase w \<le> phase (fst (advance_match_timers now tick (w, t))) \<and>
    (phase w = PHASE_GAME_OVER \<longrightarrow> advance_match_timers now tick (w, t) = (w, t))"
proof (cases "phase w = PHASE_GAME_OVER")
  case True
  with ovr.late_command [of w line i] assms(2) show ?thesis
    by (simp add: advance_match_timers_def close_lobby_if_needed_def expire_unready_setup_players_def)
next
  case False
  have up: "PHASE_ROUND_ACTIVE \<le> p" if "p = PHASE_ROUND_ACTIVE \<or> p = PHASE_GAME_OVER" for p
    using that by (auto simp: less_eq_Phase_def)
  show ?thesis
    using False assms rnd.late_command [of w line i, THEN up] rnd.late_timers [of w now tick t, THEN up] by auto
qed

theorem match_progress_witness:
  "phase (handle_command 0 ''QUIT'' (joined\<lparr>phase := PHASE_GAME_OVER\<rparr>)) = PHASE_GAME_OVER"
proof -
  have "parse_command ''QUIT'' 16 = Some (''QUIT'', None)" by code_simp
  then have "PHASE_GAME_OVER \<le> phase (handle_command 0 ''QUIT'' (joined\<lparr>phase := PHASE_GAME_OVER\<rparr>))"
    using match_progress [of "joined\<lparr>phase := PHASE_GAME_OVER\<rparr>" "''QUIT''"] by simp
  then show ?thesis by (simp add: order_antisym)
qed

end
