(* ===== verification/Match_End.thy ===== *)
theory Match_End
  imports Chase_End Match_Props
begin

text \<open>
  The end of a match on the running server: whatever the clients send and whoever leaves, a round
  in which two types are left is over after a bounded number of ticks of the loop.
\<close>

section \<open>What the clients can change\<close>

text \<open>Whoever is alive in \<open>v\<close> was alive in \<open>w\<close>, at the same place with the same choice.\<close>

definition survivors :: "World \<Rightarrow> World \<Rightarrow> bool" where
  "survivors w v \<longleftrightarrow> (\<forall>i. player_is_alive (players v i) \<longrightarrow>
     player_is_alive (players w i) \<and> p_choice (players v i) = p_choice (players w i) \<and>
     p_x (players v i) = p_x (players w i) \<and> p_y (players v i) = p_y (players w i))"

lemma survivors_refl [simp]: "survivors w w"
  by (simp add: survivors_def)

lemma survivors_trans: "survivors w v \<Longrightarrow> survivors v u \<Longrightarrow> survivors w u"
  by (fastforce simp: survivors_def)

lemma survivors_step:
  assumes "survivors w v" and "\<And>j. player_is_alive (players u j) \<Longrightarrow> player_is_alive (players v j) \<and>
      p_choice (players u j) = p_choice (players v j) \<and> p_x (players u j) = p_x (players v j) \<and>
      p_y (players u j) = p_y (players v j)"
  shows "survivors w u"
  using assms(1) by (rule survivors_trans) (use assms(2) in \<open>simp add: survivors_def\<close>)

lemma survivors_upd:
  assumes "survivors w v" and "player_is_alive (f (players v i)) \<Longrightarrow> player_is_alive (players v i) \<and>
      p_choice (f (players v i)) = p_choice (players v i) \<and> p_x (f (players v i)) = p_x (players v i) \<and>
      p_y (f (players v i)) = p_y (players v i)"
  shows "survivors w (upd_player i f v)"
  using assms(1) by (rule survivors_step) (use assms(2) in \<open>auto split: if_splits\<close>)

lemma survivors_engine:
  "survivors w v \<Longrightarrow> survivors w (append_out i t v)"
  "survivors w v \<Longrightarrow> survivors w (drop_slot i v)"
  "survivors w v \<Longrightarrow> survivors w (time_tick v)"
  by (erule survivors_step; auto simp: players_append_out players_drop_slot player_is_alive_def split: if_splits)+

text \<open>While the round that was running in \<open>w0\<close> lasts, nobody joins it, moves or changes type.\<close>

definition plays_on :: "World \<Rightarrow> World \<Rightarrow> bool" where
  "plays_on w0 v \<longleftrightarrow> world_ok v \<and> settled v \<and> (phase v = PHASE_ROUND_ACTIVE \<longrightarrow> survivors w0 v)"

lemma plays_on_start: "world_ok w \<Longrightarrow> phase w = PHASE_ROUND_ACTIVE \<Longrightarrow> plays_on w w"
  by (simp add: plays_on_def settled_def)

lemma end_game_over: "phase (end_game w) = PHASE_GAME_OVER"
  by (rule ovr.late_end_game)

lemma round_reevaluate:
  "phase w = PHASE_ROUND_ACTIVE \<Longrightarrow>
   reevaluate_state w = (if active_alive_count w \<le> 1 \<or> count_alive_choice_types w \<le> 1 then end_game w else w)"
  by (subst reevaluate_state_eq) (simp add: reevaluate_with_def reevaluate_round_active_def)

lemma plays_on_reevaluate:
  assumes "plays_on w0 w"
  shows "plays_on w0 (reevaluate_state w)"
proof -
  have w: "world_ok w \<and> settled w" using assms by (simp add: plays_on_def)
  have "phase (reevaluate_state w) = PHASE_ROUND_ACTIVE \<longrightarrow> survivors w0 (reevaluate_state w)"
  proof (cases "phase w = PHASE_ROUND_ACTIVE")
    case True
    with assms show ?thesis by (simp add: round_reevaluate end_game_over plays_on_def)
  next
    case False
    with w have "phase w = PHASE_LOBBY_OPEN \<or> phase w = PHASE_GAME_OVER" by (simp add: settled_def)
    then show ?thesis using lobby_phase.reevaluate_state_inv [of w] ovr.late_reevaluate [of w] by auto
  qed
  then show ?thesis using stl.reevaluate_state_inv [OF w] by (simp add: plays_on_def)
qed

lemma plays_on_step:
  assumes "plays_on w0 w" and "world_ok v \<and> settled v" and "phase v = PHASE_ROUND_ACTIVE \<Longrightarrow> phase w = PHASE_ROUND_ACTIVE"
    and "phase v = PHASE_ROUND_ACTIVE \<Longrightarrow> survivors w0 w \<Longrightarrow> survivors w0 v"
  shows "plays_on w0 v"
  using assms by (simp add: plays_on_def)

lemma plays_on_ok: "plays_on w0 w \<Longrightarrow> world_ok w \<and> settled w"
  by (simp add: plays_on_def)

interpretation pon: reeval_inv "plays_on w0" for w0
proof unfold_locales
  fix w i bytes
  assume w: "plays_on w0 w"
  note ok = plays_on_ok [OF w]
  show "fits_out i bytes w \<Longrightarrow> plays_on w0 (append_out i bytes w)"
    using stl.inv_out [OF ok] by (intro plays_on_step [OF w]) (auto intro: survivors_engine)
  show "plays_on w0 (drop_slot i w)"
    using stl.inv_drop [OF ok] by (intro plays_on_step [OF w]) (auto intro: survivors_engine)
  show "plays_on w0 (time_tick w)"
    using stl.inv_tick [OF ok] by (intro plays_on_step [OF w]) (auto intro: survivors_engine)
  show "plays_on w0 (reevaluate_state w)" using w by (rule plays_on_reevaluate)
  show "phase w = PHASE_REPICK \<Longrightarrow> plays_on w0 (finish_repicks w)" using ok world_ok_repick by blast
qed

interpretation pon: loop_inv "plays_on w0" for w0
proof unfold_locales
  fix w i t name c x y tmp rest buf fd
  assume w: "plays_on w0 w"
  note ok = plays_on_ok [OF w] and step = plays_on_step [OF w]
  show "phase w = PHASE_LOBBY_OPEN \<Longrightarrow> plays_on w0 (w\<lparr>join_deadline := t\<rparr>)"
    using stl.inv_join_deadline [OF ok] by (intro step) simp_all
  show "phase w = PHASE_LOBBY_OPEN \<Longrightarrow>
      (p_connected (players w i) \<Longrightarrow> p_registered (players w i) \<and> \<not> p_admitted (players w i) \<and>
          p_choice_chosen (players w i) \<and> p_spawn_chosen (players w i)) \<Longrightarrow>
      plays_on w0 (upd_player i (\<lambda>p. p\<lparr>p_admitted := True, p_waiting := True\<rparr>) w)"
    using stl.inv_admit [OF ok, of i] by (intro step) simp_all
  show "p_connected (players w i) \<Longrightarrow> \<not> p_registered (players w i) \<Longrightarrow> find_name w name = None \<Longrightarrow>
      valid_name name \<Longrightarrow> NUL \<notin> set name \<Longrightarrow> plays_on w0 (upd_player i (register_player name) w)"
    using stl.inv_register [OF ok, of i name] by (intro step survivors_upd) (simp_all add: player_is_alive_def)
  show "p_registered (players w i) \<Longrightarrow> \<not> p_admitted (players w i) \<Longrightarrow> rps_char c \<Longrightarrow>
      plays_on w0 (upd_player i (\<lambda>p. p\<lparr>p_choice := c, p_choice_chosen := True\<rparr>) w)"
    using stl.inv_choice [OF ok, of i c] by (intro step survivors_upd) (simp_all add: player_is_alive_def)
  show "p_registered (players w i) \<Longrightarrow> \<not> p_admitted (players w i) \<Longrightarrow> \<not> spawn_off_grid x y \<Longrightarrow>
      fp_ok F32 x \<Longrightarrow> fp_ok F32 y \<Longrightarrow>
      plays_on w0 (upd_player i (\<lambda>p. p\<lparr>p_x := x, p_y := y, p_spawn_chosen := True\<rparr>) w)"
    using stl.inv_spawn [OF ok, of i x y] by (intro step survivors_upd) (simp_all add: player_is_alive_def)
  show "phase w = PHASE_REPICK \<Longrightarrow>
      plays_on w0 (upd_player i (\<lambda>p. p\<lparr>p_repick_choice := c, p_repick_submitted := True\<rparr>) w)"
    using ok world_ok_repick by blast
  show "phase w = PHASE_GAME_OVER \<Longrightarrow> plays_on w0 (reset_match w)"
    using stl.inv_reset_match [OF ok] by (intro step) (simp_all add: phase_reset_match)
  show "p_connected (players w i) \<Longrightarrow> length (p_inbuf (players w i) @ tmp) < INBUF_SIZE \<Longrightarrow>
      plays_on w0 (upd_player i (\<lambda>p. p\<lparr>p_inbuf := p_inbuf p @ tmp\<rparr>) w)"
    using stl.inv_read [OF ok, of i tmp] by (intro step survivors_upd) (simp_all add: player_is_alive_def)
  show "length rest \<le> length (p_inbuf (players w i)) \<Longrightarrow> plays_on w0 (upd_player i (\<lambda>p. p\<lparr>p_inbuf := rest\<rparr>) w)"
    using stl.inv_pop [OF ok, of rest i] by (intro step survivors_upd) (simp_all add: player_is_alive_def)
  show "length buf \<le> length (p_outbuf (players w i)) \<Longrightarrow> plays_on w0 (upd_player i (\<lambda>p. p\<lparr>p_outbuf := buf\<rparr>) w)"
    using stl.inv_flush [OF ok, of buf i] by (intro step survivors_upd) (simp_all add: player_is_alive_def)
  show "\<not> p_connected (players w i) \<Longrightarrow> p_inbuf (players w i) = []" using stl.inv_idle [OF ok] by blast
  show "i < MAX_PLAYERS \<Longrightarrow> \<not> p_connected (players w i) \<Longrightarrow>
      plays_on w0 (upd_player i (\<lambda>_. init_player_slot fd (next_id w)) (w\<lparr>next_id := next_id w + 1\<rparr>))"
    using world_ok_accept [of w i fd] ok
    by (intro step survivors_upd) (auto simp: player_is_alive_def settled_def survivors_def)
  show "plays_on w0 (w\<lparr>closed_fds := fd # closed_fds w\<rparr>)"
    using world_ok_fields ok by (intro step) (auto simp: settled_def survivors_def)
qed

section \<open>The timers in a round\<close>

definition tick_due :: "fp \<Rightarrow> fp \<Rightarrow> bool" where
  "tick_due now l \<longleftrightarrow> \<not> fp_lt (fp_sub F64 now l) CHASE_TICK_SECONDS"

lemma survivors_closes:
  assumes w: "two_sides a b w" and v: "survivors w v"
  shows "closes_in a b 0 w v"
proof -
  have s: "side c v \<subseteq> side c w" for c using v by (auto simp: side_def survivors_def)
  have place: "p_x (players v i) = p_x (players w i)" "p_y (players v i) = p_y (players w i)"
    "player_is_alive (players w i)" "p_choice (players v i) = p_choice (players w i)"
    if "player_is_alive (players v i)" for i
    using v that by (simp_all add: survivors_def)
  have g: "gap (players v i) (players v j) = gap (players w i) (players w j)" if "i \<in> side a v" "j \<in> side b v" for i j
    using place [of i] place [of j] that by (simp add: gap_def side_def)
  have "two_sides a b v"
    using w place unfolding two_sides_def stands_on_board_def by metis
  then show ?thesis using s g by (auto simp: closes_in_def prey_within_def)
qed

lemma one_side_types:
  assumes "two_sides a b w" and "side a w = {} \<or> side b w = {}"
  shows "card (alive_types w) \<le> 1"
proof -
  have "alive_types w \<subseteq> {a} \<or> alive_types w \<subseteq> {b}"
    using assms two_sidesD [OF assms(1)] by (auto simp: alive_types_def alive_set_def side_def)
  then show ?thesis using card_mono [of "{a}" "alive_types w"] card_mono [of "{b}" "alive_types w"] by auto
qed

lemma round_timers:
  assumes w: "world_ok w" "phase w = PHASE_ROUND_ACTIVE" and two: "two_sides a b w"
    and v: "advance_match_timers now CHASE_TICK_SECONDS (w, l) = (v, l')"
  shows "l' = (if tick_due now l then now else l)"
    and "phase v = PHASE_ROUND_ACTIVE \<or> phase v = PHASE_GAME_OVER"
    and "phase v = PHASE_ROUND_ACTIVE \<Longrightarrow> closes_in a b (of_bool (tick_due now l)) w v"
    and "tick_due now l \<Longrightarrow> side a w = {} \<or> side b w = {} \<Longrightarrow> phase v = PHASE_GAME_OVER"
proof -
  define u where "u = snd (simulate_chase_tick w CHASE_DT)"
  define x where "x = broadcast_positions u"
  have adv: "(v, l') = (if tick_due now l then
      (if fst (simulate_chase_tick w CHASE_DT) then reevaluate_state x else x, now) else (w, l))"
    using v w(2) by (simp add: advance_match_timers_def close_lobby_if_needed_def expire_unready_setup_players_def
        tick_due_def u_def x_def Let_def split: prod.splits if_splits flip: CHASE_DT_def)
  then show "l' = (if tick_due now l then now else l)" by (simp split: if_splits)
  have u: "world_ok u" "phase u = PHASE_ROUND_ACTIVE"
    using srv.chase_inv [OF w] w(2) by (simp_all add: u_def chase_tick_eq Let_def)
  have x: "plays_on u x" unfolding x_def by (intro pon.broadcast_positions_inv plays_on_start u)
  note u2 = chase_tick_sides(1-3) [OF two, folded u_def]
  have ph: "phase x = PHASE_ROUND_ACTIVE \<or> phase x = PHASE_GAME_OVER"
    using u(2) unfolding x_def broadcast_positions_def
    by (intro rnd.broadcast_positions_with_inv rnd.late_reevaluate) simp_all
  then have ph2: "phase (reevaluate_state x) = PHASE_ROUND_ACTIVE \<or> phase (reevaluate_state x) = PHASE_GAME_OVER"
    by (rule rnd.late_reevaluate)
  show "phase v = PHASE_ROUND_ACTIVE \<or> phase v = PHASE_GAME_OVER"
    using adv ph ph2 w(2) by (simp split: if_splits)
  show "closes_in a b (of_bool (tick_due now l)) w v" if r: "phase v = PHASE_ROUND_ACTIVE"
  proof (cases "tick_due now l")
    case True
    then have "plays_on u v" using adv x plays_on_reevaluate by (simp split: if_splits)
    then have "survivors u v" using r by (simp add: plays_on_def)
    from closes_in_trans [OF closes_in_tick [OF two, folded u_def] survivors_closes [OF u2(1) this]]
    show ?thesis using True by simp
  next
    case False
    with adv two show ?thesis by (simp add: closes_in_refl)
  qed
  show "phase v = PHASE_GAME_OVER" if due: "tick_due now l" and none: "side a w = {} \<or> side b w = {}"
  proof -
    have none: "side a u = {} \<or> side b u = {}" using none u2 by auto
    have "fst (simulate_chase_tick w CHASE_DT)"
      using one_side_types [OF u2(1) none] by (simp add: u_def chase_tick_eq Let_def count_choice_types_alive_card)
    then have vx: "v = reevaluate_state x" using adv due by simp
    show ?thesis
    proof (cases "phase x = PHASE_ROUND_ACTIVE")
      case True
      then have s: "survivors u x" using x by (simp add: plays_on_def)
      have "closes_in a b 0 u x" using u2(1) s by (rule survivors_closes)
      then have "card (alive_types x) \<le> 1" using none by (intro one_side_types) (auto simp: closes_in_def)
      with True show ?thesis by (simp add: vx round_reevaluate count_alive_choice_types_card end_game_over)
    next
      case False
      with ph ovr.late_reevaluate [of x] show ?thesis by (simp add: vx)
    qed
  qed
qed

section \<open>The running server\<close>

text \<open>The state that an iteration hands to the timers, and the loop after \<open>n\<close> iterations.\<close>

definition before_timers :: "int \<Rightarrow> Event \<Rightarrow> World \<Rightarrow> World" where
  "before_timers listen_fd ev w =
     process_player_writes ev (process_player_reads ev (snd (accept_new_clients listen_fd ev w)))"

primrec iterations :: "int \<Rightarrow> (nat \<Rightarrow> Event) \<Rightarrow> Loop \<Rightarrow> nat \<Rightarrow> Loop" where
  "iterations listen_fd evs l 0 = l"
| "iterations listen_fd evs l (Suc n) = server_iteration listen_fd (evs n) (iterations listen_fd evs l n)"

text \<open>The iterations among the first \<open>n\<close> for which a sixtieth of a second has passed since the last tick.\<close>

definition due_iterations :: "int \<Rightarrow> (nat \<Rightarrow> Event) \<Rightarrow> Loop \<Rightarrow> nat \<Rightarrow> nat set" where
  "due_iterations listen_fd evs l n =
     {k. k < n \<and> tick_due (now_seconds (ev_now (evs k))) (lp_last_chase_tick (iterations listen_fd evs l k))}"

lemma server_iteration_timers:
  "(lp_state (server_iteration listen_fd ev l), lp_last_chase_tick (server_iteration listen_fd ev l)) =
     advance_match_timers (now_seconds (ev_now ev)) CHASE_TICK_SECONDS
       (before_timers listen_fd ev (lp_state l), lp_last_chase_tick l)"
  by (simp add: server_iteration_def before_timers_def Let_def split: prod.split)

lemma iteration_closes:
  assumes w: "world_ok (lp_state l)" "phase (lp_state l) = PHASE_ROUND_ACTIVE" "two_sides a b (lp_state l)"
    and io: "phase (before_timers listen_fd ev (lp_state l)) = PHASE_ROUND_ACTIVE"
    and on: "phase (lp_state (server_iteration listen_fd ev l)) \<noteq> PHASE_GAME_OVER"
  defines "due \<equiv> tick_due (now_seconds (ev_now ev)) (lp_last_chase_tick l)"
  shows "phase (lp_state (server_iteration listen_fd ev l)) = PHASE_ROUND_ACTIVE"
    and "closes_in a b (of_bool due) (lp_state l) (lp_state (server_iteration listen_fd ev l))"
    and "due \<Longrightarrow> side a (lp_state l) \<noteq> {} \<and> side b (lp_state l) \<noteq> {}"
proof -
  let ?x = "before_timers listen_fd ev (lp_state l)"
  have "plays_on (lp_state l) ?x"
    unfolding before_timers_def using w by (intro pon.server_io_inv plays_on_start)
  then have x: "world_ok ?x" "survivors (lp_state l) ?x" using io by (simp_all add: plays_on_def)
  have c: "closes_in a b 0 (lp_state l) ?x" using w(3) x(2) by (rule survivors_closes)
  then have two: "two_sides a b ?x" by (simp add: closes_in_def)
  note t = round_timers [OF x(1) io two server_iteration_timers [symmetric], folded due_def]
  show on: "phase (lp_state (server_iteration listen_fd ev l)) = PHASE_ROUND_ACTIVE" using t(2) on by blast
  show "closes_in a b (of_bool due) (lp_state l) (lp_state (server_iteration listen_fd ev l))"
    using closes_in_trans [OF c t(3) [OF on]] by simp
  show "due \<Longrightarrow> side a (lp_state l) \<noteq> {} \<and> side b (lp_state l) \<noteq> {}"
    using t(4) on c by (auto simp: closes_in_def)
qed

lemma last_due:
  assumes "N < card (due_iterations listen_fd evs l n)"
  defines "due \<equiv> \<lambda>k. tick_due (now_seconds (ev_now (evs k))) (lp_last_chase_tick (iterations listen_fd evs l k))"
  obtains m where "m < n" "due m" "N \<le> (\<Sum>k<m. of_bool (due k))"
proof -
  let ?D = "due_iterations listen_fd evs l"
  have D: "?D n = {k. k < n \<and> due k}" for n by (simp add: due_iterations_def due_def)
  have fin: "finite (?D n)" by (simp add: D)
  have "?D n \<noteq> {}" using assms(1) by auto
  define m where "m = Max (?D n)"
  have "m \<in> ?D n" unfolding m_def using fin \<open>?D n \<noteq> {}\<close> by (rule Max_in)
  then have m: "m < n" "due m" by (simp_all add: D)
  have "k \<le> m" if "k \<in> ?D n" for k unfolding m_def using fin that by (rule Max_ge)
  then have "?D n = insert m (?D m)" using m by (force simp: D le_less)
  then have "card (?D n) = Suc (card (?D m))" by (simp add: D)
  moreover have "(\<Sum>k<m. of_bool (due k)) = card (?D m)"
    using sum_of_bool_eq [of "{..<m}" due] by (simp add: D Int_def)
  ultimately show ?thesis using that [OF m] assms(1) by simp
qed

text \<open>
  C7. A round with two types left ends on the running server, whatever the clients send and
  whoever leaves: among iterations with more than 1100 due ticks for each player of the type that
  is eaten there is one that ends it, by its reads and writes or by its timers, with the end of the game.
\<close>

theorem two_sided_match_ends:
  assumes "world_ok (lp_state l)" and "phase (lp_state l) = PHASE_ROUND_ACTIVE" and "two_sides a b (lp_state l)"
    and "1100 * card (side b (lp_state l)) < card (due_iterations listen_fd evs l n)"
  shows "\<exists>k < n. phase (before_timers listen_fd (evs k) (lp_state (iterations listen_fd evs l k))) \<noteq> PHASE_ROUND_ACTIVE \<or>
    phase (lp_state (iterations listen_fd evs l (Suc k))) = PHASE_GAME_OVER"
proof (rule ccontr)
  let ?l = "iterations listen_fd evs l" and ?D = "due_iterations listen_fd evs l"
  let ?s = "\<lambda>k. lp_state (?l k)"
  let ?due = "\<lambda>k. tick_due (now_seconds (ev_now (evs k))) (lp_last_chase_tick (?l k))"
  assume "\<not> ?thesis"
  then have on: "phase (before_timers listen_fd (evs k) (?s k)) = PHASE_ROUND_ACTIVE"
      "phase (lp_state (server_iteration listen_fd (evs k) (?l k))) \<noteq> PHASE_GAME_OVER" if "k < n" for k
    using that by auto
  have ok: "world_ok (?s k)" for k
    by (induction k) (simp_all add: assms(1) srv.server_iteration_inv)
  have r: "k \<le> n \<Longrightarrow> phase (?s k) = PHASE_ROUND_ACTIVE \<and> two_sides a b (?s k)" for k
  proof (induction k)
    case (Suc k)
    then have "k < n" and k: "phase (?s k) = PHASE_ROUND_ACTIVE" "two_sides a b (?s k)" by simp_all
    then show ?case using iteration_closes(1,2) [OF ok k on] by (simp add: closes_in_def)
  qed (simp add: assms(2,3))
  obtain m where m: "m < n" "?due m" and c: "1100 * card (side b (?s 0)) \<le> (\<Sum>k<m. of_bool (?due k))"
    using last_due [OF assms(4)] by auto
  have "side a (?s m) = {} \<or> side b (?s m) = {}"
    using assms(3) c m(1) iteration_closes(2) [OF ok conjunct1 [OF r] _ on]
    by (intro side_used_up [where s = ?s and d = "\<lambda>k. of_bool (?due k)"]) simp_all
  moreover have "phase (?s m) = PHASE_ROUND_ACTIVE" "two_sides a b (?s m)" using r [of m] m(1) by simp_all
  then have "side a (?s m) \<noteq> {} \<and> side b (?s m) \<noteq> {}"
    by (rule iteration_closes(3) [OF ok _ _ on [OF m(1)] m(2)])
  ultimately show False by blast
qed

text \<open>The witness: a duel on a server whose clients are silent, with one iteration each second.\<close>

lemma world_ok_duel: "world_ok duel"
proof -
  have "slot_ok (players duel i)" for i
    by (simp add: duel_def slot_ok_def buffers_ok_def setup_ok_def zero_player_def rps_char_def placed_def
        coord_ok_def on_grid_def F32_def with_sign_def valid_name_def is_space_def char_code_def
        OUTBUF_SIZE_def INBUF_SIZE_def MAX_NAME_LENGTH_def)
  then show ?thesis
    by (simp add: world_ok_def world_defs)
      (simp add: duel_def player_is_registered_def player_is_alive_def zero_player_def MAX_PLAYERS_def)
qed

lemma in_range_F64: "\<bar>k\<bar> < 2 ^ 53 \<Longrightarrow> in_range F64 (of_int k)"
proof -
  assume k: "\<bar>k\<bar> < 2 ^ 53"
  have "rep F64 (of_int k)" by (rule rep_of_int) (use k in \<open>simp_all add: F64_def fmt_ok_def\<close>)
  moreover have "real_of_int k < of_int (2 ^ 53)" using k by (simp only: of_int_less_iff)
  then have "real_of_int k < 2 powi (int (f_prec F64) + f_emax F64)"
    by (rule less_le_trans) (simp add: F64_def power_int_def)
  ultimately show ?thesis by (simp add: in_range_def F64_def fmt_ok_def)
qed

lemma whole_seconds:
  assumes "0 \<le> k" and "k < 2 ^ 53"
  shows "fp_fin (now_seconds (k, 0)) \<and> fpval (now_seconds (k, 0)) = of_int k"
proof -
  have R: "in_range F64 (of_int k)" using assms by (intro in_range_F64) simp
  then have F: "fmt_ok F64" "rep F64 (of_int k)" by (simp_all add: in_range_def)
  have "rounds_to F64 (of_int (with_sign False k) / of_int 1) (round_ratio F64 False k 1)"
    by (rule round_ratio_rounds [OF F(1) assms(1) _ _ F(2)]) (use R in \<open>simp_all add: in_range_def\<close>)
  then have k: "fp_fin (fp_of_int F64 k)" "fpval (fp_of_int F64 k) = of_int k"
    using assms(1) closest_exact [OF _ F(2)] by (simp_all add: rounds_to_def fp_of_int_def with_sign_def)
  have z: "fp_mul F64 (fp_of_int F64 0) (fp_lit F64 1 1000000000) = FFin False 0 (- 1074)" by code_simp
  have "rounds_to F64 (of_int k) (now_seconds (k, 0))"
    using fp_add_rounds [OF k(1) _ R, of "FFin False 0 (- 1074)"] assms(1) k(2)
    by (simp add: z with_sign_def)
  then show ?thesis using closest_exact [OF _ F(2)] by (simp add: rounds_to_def)
qed

definition each_second :: "nat \<Rightarrow> Event" where
  "each_second k = quiet_event\<lparr>ev_now := (int k + 1, 0)\<rparr>"

definition duel_loop :: Loop where
  "duel_loop = \<lparr>lp_state = duel, lp_last_chase_tick = now_seconds (0, 0), lp_saw_client = True\<rparr>"

lemma last_tick_kept:
  "lp_last_chase_tick (server_iteration listen_fd ev l) \<in> {lp_last_chase_tick l, now_seconds (ev_now ev)}"
proof -
  have "snd (advance_match_timers now t (w, l)) \<in> {l, now}" for now t w l
    by (simp add: advance_match_timers_def Let_def split: prod.split)
  from this [of _ _ "before_timers listen_fd ev (lp_state l)" "lp_last_chase_tick l"] show ?thesis
    by (metis server_iteration_timers snd_conv)
qed

lemma last_tick_earlier:
  "\<exists>j \<le> k. lp_last_chase_tick (iterations 3 each_second duel_loop k) = now_seconds (int j, 0)"
proof (induction k)
  case (Suc k)
  have "ev_now (each_second k) = (int (Suc k), 0)" by (simp add: each_second_def)
  then have "lp_last_chase_tick (iterations 3 each_second duel_loop (Suc k)) \<in>
      {lp_last_chase_tick (iterations 3 each_second duel_loop k), now_seconds (int (Suc k), 0)}"
    using last_tick_kept [of 3 "each_second k" "iterations 3 each_second duel_loop k"] by (simp only: iterations.simps)
  then show ?case
  proof
    assume "lp_last_chase_tick (iterations 3 each_second duel_loop (Suc k)) =
      lp_last_chase_tick (iterations 3 each_second duel_loop k)"
    with Suc show ?thesis by (metis le_SucI)
  qed blast
qed (simp add: duel_loop_def)

lemma second_due:
  assumes "fp_fin x" and "fp_fin y" and "1 \<le> fpval x - fpval y" and "fpval x - fpval y \<le> 2000"
  shows "tick_due x y"
proof -
  have d: "rounds_to F64 (fpval x - fpval y) (fp_sub F64 x y)"
    by (rule fp_sub_rounds [OF assms(1,2) in_range_F64 [of 2000]]) (use assms(3,4) in simp_all)
  have "rep F64 1" using in_range_F64 [of 1] by (simp add: in_range_def)
  then have "1 \<le> fpval (fp_sub F64 x y)"
    using d closest_ge [OF _ assms(3), of F64 "fpval (fp_sub F64 x y)"] by (simp add: rounds_to_def)
  moreover have t: "CHASE_TICK_SECONDS = FFin False 4803935679320580 (- 58)"
    unfolding CHASE_TICK_SECONDS_def by code_simp
  have "fp_fin CHASE_TICK_SECONDS" "fpval CHASE_TICK_SECONDS < 1"
    unfolding t by (simp_all add: with_sign_def power_int_def power_divide)
  ultimately show ?thesis using d by (simp add: tick_due_def rounds_to_def fp_lt_val)
qed

lemma always_due:
  assumes "k < 1101"
  shows "tick_due (now_seconds (ev_now (each_second k))) (lp_last_chase_tick (iterations 3 each_second duel_loop k))"
proof -
  obtain j where j: "j \<le> k" "lp_last_chase_tick (iterations 3 each_second duel_loop k) = now_seconds (int j, 0)"
    using last_tick_earlier by blast
  have "ev_now (each_second k) = (int k + 1, 0)" by (simp add: each_second_def)
  moreover have "tick_due (now_seconds (int k + 1, 0)) (now_seconds (int j, 0))"
    using whole_seconds [of "int k + 1"] whole_seconds [of "int j"] assms j(1)
    by (intro second_due) (simp_all del: now_seconds.simps)
  ultimately show ?thesis by (simp only: j(2))
qed

theorem two_sided_match_ends_witness:
  "\<exists>k < 1101. phase (before_timers 3 (each_second k) (lp_state (iterations 3 each_second duel_loop k))) \<noteq> PHASE_ROUND_ACTIVE \<or>
    phase (lp_state (iterations 3 each_second duel_loop (Suc k))) = PHASE_GAME_OVER"
proof (rule two_sided_match_ends)
  have "due_iterations 3 each_second duel_loop 1101 = {..<1101}"
    using always_due by (auto simp: due_iterations_def)
  then show "1100 * card (side (CHR ''S'') (lp_state duel_loop)) < card (due_iterations 3 each_second duel_loop 1101)"
    by (simp add: duel_loop_def duel_sides)
  show "two_sides (CHR ''R'') (CHR ''S'') (lp_state duel_loop)" by (simp add: duel_loop_def duel_sides)
  show "world_ok (lp_state duel_loop)" by (simp add: duel_loop_def world_ok_duel)
  show "phase (lp_state duel_loop) = PHASE_ROUND_ACTIVE" by (simp add: duel_loop_def duel_def)
qed

end
