(* ===== verification/ClientMessages.thy ===== *)
theory ClientMessages
  imports Protocol
begin

text \<open>
  The client's picture of the match (\<open>src/src/client_state.h\<close>) and the parser of the server's
  lines (\<open>src/src/client_text_messages.c\<close>): the player table, the two line parsers and the
  dispatch table. \<open>now\<close> is what \<open>rps_now_seconds()\<close> returns; no line reads it twice. The integers
  \<open>alive\<close> and \<open>waiting\<close> of a table entry come from the wire and are kept as integers; the other
  flags are only ever set to 0 or 1.
\<close>

section \<open>State\<close>

record ClientPlayer =
  cp_used :: bool
  cp_name :: string
  cp_choice :: char
  cp_x :: fp
  cp_y :: fp
  cp_alive :: int
  cp_waiting :: int

record ClientState =
  cs_players :: "nat \<Rightarrow> ClientPlayer"
  cs_status_text :: string
  cs_name_input :: string
  cs_pending_name :: string
  cs_my_name :: string
  cs_match_result :: int
  cs_name_registered :: bool
  cs_name_check_pending :: bool
  cs_state_request_sent :: bool
  cs_name_box_active :: bool
  cs_repick_phase :: bool
  cs_game_over :: bool
  cs_can_attempt_join :: bool
  cs_joined_match :: bool
  cs_choice_confirmed :: bool
  cs_spawn_confirmed :: bool
  cs_selected_choice :: char
  cs_lobby_end_time :: fp
  cs_setup_end_time :: fp
  cs_round_end_time :: fp

definition STATUS_SIZE :: nat where "STATUS_SIZE = 256"

definition dbl_zero :: fp where "dbl_zero = FFin False 0 (- 1074)"

definition zero_client_player :: ClientPlayer where
  "zero_client_player = \<lparr>cp_used = False, cp_name = [], cp_choice = NUL, cp_x = fp_zero, cp_y = fp_zero,
     cp_alive = 0, cp_waiting = 0\<rparr>"

definition set_status :: "string \<Rightarrow> ClientState \<Rightarrow> ClientState" where
  "set_status t st = st\<lparr>cs_status_text := snprintf_str STATUS_SIZE t\<rparr>"

definition upd_entry :: "nat \<Rightarrow> (ClientPlayer \<Rightarrow> ClientPlayer) \<Rightarrow> ClientState \<Rightarrow> ClientState" where
  "upd_entry i f st = st\<lparr>cs_players := (cs_players st)(i := f (cs_players st i))\<rparr>"

section \<open>The player table\<close>

definition find_player :: "(nat \<Rightarrow> ClientPlayer) \<Rightarrow> string \<Rightarrow> nat option" where
  "find_player tab name = find (\<lambda>i. cp_used (tab i) \<and> cp_name (tab i) = name) [0..<MAX_PLAYERS]"

definition new_client_player :: "string \<Rightarrow> ClientPlayer" where
  "new_client_player name = zero_client_player\<lparr>cp_used := True, cp_name := snprintf_str MAX_NAME_LENGTH name,
     cp_x := fp_minus_one, cp_y := fp_minus_one, cp_choice := CHR ''?''\<rparr>"

text \<open>The index and the table with the entry in it; no index when the table is full.\<close>

definition get_or_add_player :: "(nat \<Rightarrow> ClientPlayer) \<Rightarrow> string \<Rightarrow> nat option \<times> (nat \<Rightarrow> ClientPlayer)" where
  "get_or_add_player tab name =
     (case find_player tab name of
        Some i \<Rightarrow> (Some i, tab)
      | None \<Rightarrow>
          (case find (\<lambda>i. \<not> cp_used (tab i)) [0..<MAX_PLAYERS] of
             None \<Rightarrow> (None, tab)
           | Some i \<Rightarrow> (Some i, tab(i := new_client_player name))))"

definition clear_players :: "nat \<Rightarrow> ClientPlayer" where
  "clear_players = (\<lambda>_. zero_client_player)"

section \<open>The tests \<open>sscanf(...) == n\<close>\<close>

text \<open>The values when all the conversions of the format succeeded.\<close>

fun as_str :: "scanval list \<Rightarrow> string option" where
  "as_str [VStr s] = Some s"
| "as_str _ = None"

fun as_chr :: "scanval list \<Rightarrow> char option" where
  "as_chr [VChr c] = Some c"
| "as_chr _ = None"

fun as_int :: "scanval list \<Rightarrow> int option" where
  "as_int [VInt k] = Some k"
| "as_int _ = None"

fun as_ints :: "scanval list \<Rightarrow> (int \<times> int) option" where
  "as_ints [VInt k, VInt l] = Some (k, l)"
| "as_ints _ = None"

fun as_flts :: "scanval list \<Rightarrow> (fp \<times> fp) option" where
  "as_flts [VFlt x, VFlt y] = Some (x, y)"
| "as_flts _ = None"

fun as_tie :: "scanval list \<Rightarrow> (string \<times> string \<times> char \<times> char) option" where
  "as_tie [VStr a, VStr b, VChr c, VChr d] = Some (a, b, c, d)"
| "as_tie _ = None"

fun as_win :: "scanval list \<Rightarrow> (string \<times> string \<times> char \<times> char \<times> string \<times> fp \<times> fp) option" where
  "as_win [VStr a, VStr b, VChr c, VChr d, VStr w, VFlt x, VFlt y] = Some (a, b, c, d, w, x, y)"
| "as_win _ = None"

fun as_player :: "scanval list \<Rightarrow> (string \<times> char \<times> fp \<times> fp \<times> int \<times> int) option" where
  "as_player [VStr n, VChr c, VFlt x, VFlt y, VInt k, VInt l] = Some (n, c, x, y, k, l)"
| "as_player _ = None"

lemma as_str_Some: "as_str xs = Some s \<longleftrightarrow> xs = [VStr s]"
  by (cases xs rule: as_str.cases) auto

lemma as_player_Some:
  "as_player xs = Some (n, c, x, y, k, l) \<longleftrightarrow> xs = [VStr n, VChr c, VFlt x, VFlt y, VInt k, VInt l]"
  by (cases xs rule: as_player.cases) auto

section \<open>Snapshot and round lines\<close>

text \<open>\<open>strncmp(line, token, strlen(token)) == 0\<close>.\<close>

definition starts :: "string \<Rightarrow> string \<Rightarrow> bool" where
  "starts token line \<longleftrightarrow> take (length token) line = token"

definition player_entry :: "string \<Rightarrow> char \<Rightarrow> fp \<Rightarrow> fp \<Rightarrow> int \<Rightarrow> int \<Rightarrow> ClientState \<Rightarrow> ClientState" where
  "player_entry name1 choice x y alive waiting st =
     (let st = (case get_or_add_player (cs_players st) name1 of
                  (None, tab) \<Rightarrow> st\<lparr>cs_players := tab\<rparr>
                | (Some i, tab) \<Rightarrow>
                    upd_entry i (\<lambda>p. p\<lparr>cp_choice := choice, cp_x := x, cp_y := y, cp_alive := alive,
                        cp_waiting := waiting\<rparr>) (st\<lparr>cs_players := tab\<rparr>))
      in if name1 = cs_my_name st \<and> (choice = CHR ''R'' \<or> choice = CHR ''P'' \<or> choice = CHR ''S'')
         then st\<lparr>cs_selected_choice := choice\<rparr> else st)"

definition pair_won :: "string \<Rightarrow> string \<Rightarrow> string \<Rightarrow> fp \<Rightarrow> fp \<Rightarrow> ClientState \<Rightarrow> ClientState" where
  "pair_won name1 name2 winner move_x move_y st =
     (let loser = (if winner = name1 then name2 else name1);
          idx_w = find_player (cs_players st) winner;
          idx_l = find_player (cs_players st) loser;
          st = (case idx_w of None \<Rightarrow> st
                | Some i \<Rightarrow> upd_entry i (\<lambda>p. p\<lparr>cp_x := move_x, cp_y := move_y, cp_alive := 1, cp_waiting := 0\<rparr>) st);
          st = (case idx_l of None \<Rightarrow> st
                | Some i \<Rightarrow> upd_entry i (\<lambda>p. p\<lparr>cp_alive := 0, cp_waiting := 0,
                    cp_x := fp_minus_one, cp_y := fp_minus_one\<rparr>) st)
      in set_status (winner @ '' beat '' @ loser) st)"

definition game_over_received :: "string \<Rightarrow> ClientState \<Rightarrow> ClientState" where
  "game_over_received word st =
     (let st = st\<lparr>cs_game_over := True, cs_round_end_time := dbl_zero\<rparr>
      in if word = ''WIN'' then
           set_status ''You won. Press M for rematch.'' (st\<lparr>cs_match_result := 1\<rparr>)
         else if word = ''LOSE'' then
           set_status ''You lost. Press M for rematch.'' (st\<lparr>cs_match_result := - 1\<rparr>)
         else set_status ''Game over. Press M for rematch.'' (st\<lparr>cs_match_result := 0\<rparr>))"

text \<open>The last two tests of the function: a bye, the end of the game.\<close>

definition parse_bye_or_over :: "string \<Rightarrow> ClientState \<Rightarrow> ClientState" where
  "parse_bye_or_over line st =
     (case as_str (sscanf ''BYE %31s'' line) of
        Some name1 \<Rightarrow> set_status (name1 @ '' got a bye'') st
      | None \<Rightarrow>
     (case as_str (sscanf ''GAME_OVER %31s'' line) of
        Some name1 \<Rightarrow> game_over_received name1 st
      | None \<Rightarrow> st))"

text \<open>A PAIR line: a win, a tie, or (falling through) the last two tests.\<close>

definition parse_pair :: "string \<Rightarrow> ClientState \<Rightarrow> ClientState" where
  "parse_pair line st =
     (case as_win (sscanf ''PAIR %31s %31s %c %c WINNER %31s MOVE %f %f'' line) of
        Some (name1, name2, c1, c2, winner, move_x, move_y) \<Rightarrow>
          pair_won name1 name2 winner move_x move_y st
      | None \<Rightarrow>
     (case as_tie (sscanf ''PAIR %31s %31s %c %c TIE'' line) of
        Some (name1, name2, c1, c2) \<Rightarrow> set_status (name1 @ '' and '' @ name2 @ '' tied'') st
      | None \<Rightarrow> parse_bye_or_over line st))"

definition parse_state_snapshot_line :: "fp \<Rightarrow> string \<Rightarrow> ClientState \<Rightarrow> ClientState" where
  "parse_state_snapshot_line now line st =
     (if line = ''STATE_BEGIN'' then st\<lparr>cs_players := clear_players\<rparr>
      else if line = ''STATE_END'' then st
      else case as_player (sscanf ''PLAYER %31s %c %f %f %d %d'' line) of
        Some (name1, choice, x, y, alive, waiting) \<Rightarrow>
          player_entry name1 choice x y alive waiting st
      | None \<Rightarrow>
     (case as_ints (sscanf ''ROUND_START %d %d'' line) of
        Some (round_nr, seconds) \<Rightarrow>
          set_status ''Match started''
            (st\<lparr>cs_repick_phase := False,
                cs_round_end_time := (if 0 < seconds then fp_add F64 now (fp_of_int F64 seconds) else dbl_zero),
                cs_setup_end_time := dbl_zero\<rparr>)
      | None \<Rightarrow>
          if line = ''REPICK_START'' then
            set_status ''Repick phase. Press R, P, or S.'' (st\<lparr>cs_repick_phase := True\<rparr>)
          else if line = ''REPICK_DONE'' then
            set_status ''Repick finished'' (st\<lparr>cs_repick_phase := False\<rparr>)
          else if starts ''PAIR '' line then parse_pair line st
          else parse_bye_or_over line st))"

section \<open>Lobby and setup lines\<close>

definition welcome_received :: "ClientState \<Rightarrow> ClientState" where
  "welcome_received st =
     (let st = (if cs_pending_name st \<noteq> []
                then st\<lparr>cs_my_name := snprintf_str MAX_NAME_LENGTH (cs_pending_name st)\<rparr> else st);
          st = st\<lparr>cs_name_registered := True, cs_name_check_pending := False\<rparr>
      in set_status (''Registered as '' @ (if cs_my_name st \<noteq> [] then cs_my_name st else cs_pending_name st)) st)"

definition match_reset_received :: "ClientState \<Rightarrow> ClientState" where
  "match_reset_received st =
     set_status ''Match reset. You are spectating again.''
       (st\<lparr>cs_players := clear_players, cs_repick_phase := False, cs_game_over := False,
           cs_can_attempt_join := True, cs_joined_match := False, cs_choice_confirmed := False,
           cs_spawn_confirmed := False, cs_selected_choice := NUL, cs_lobby_end_time := dbl_zero,
           cs_setup_end_time := dbl_zero, cs_round_end_time := dbl_zero, cs_match_result := 0\<rparr>)"

definition left_received :: "string \<Rightarrow> ClientState \<Rightarrow> ClientState" where
  "left_received name1 st =
     set_status (name1 @ '' left'')
       (case find_player (cs_players st) name1 of
          None \<Rightarrow> st
        | Some i \<Rightarrow> upd_entry i (\<lambda>p. p\<lparr>cp_used := False\<rparr>) st)"

text \<open>The tests from SPAWN_OK on.\<close>

definition parse_errors :: "string \<Rightarrow> ClientState \<Rightarrow> ClientState" where
  "parse_errors line st =
     (if starts ''WAITING_FOR_OTHERS'' line then set_status ''Waiting for other admitted players.'' st
      else if starts ''ERROR spawn_taken'' line then
        set_status ''Spawn taken. Click another tile.'' (st\<lparr>cs_spawn_confirmed := False\<rparr>)
      else if starts ''ERROR lobby_closed'' line then
        set_status ''Too late to join this match. Spectating only.'' (st\<lparr>cs_can_attempt_join := False\<rparr>)
      else if starts ''ERROR already_joined'' line then set_status ''Already joined this match.'' st
      else if starts ''ERROR rematch_not_available'' line then
        set_status ''Rematch only works after GAME_OVER.'' st
      else if starts ''ERROR duplicate_name'' line then
        set_status ''Name is taken. Try another name.''
          (st\<lparr>cs_name_check_pending := False, cs_name_registered := False\<rparr>)
      else if starts ''ERROR already_registered'' line then
        set_status ''Name already registered on this connection.''
          (st\<lparr>cs_name_check_pending := False, cs_name_registered := True\<rparr>)
      else if starts ''ERROR register_first'' line then
        set_status ''Set your name first.'' (st\<lparr>cs_name_registered := False\<rparr>)
      else if starts ''JOINED '' line then
        (case as_str (sscanf ''JOINED %31s'' line) of
           Some name1 \<Rightarrow> set_status (name1 @ '' joined the match'') st
         | None \<Rightarrow> st)
      else case as_str (sscanf ''LEFT %31s'' line) of
        Some name1 \<Rightarrow> left_received name1 st
      | None \<Rightarrow> if starts ''ERROR '' line then set_status line st else st)"

definition parse_confirmations :: "string \<Rightarrow> ClientState \<Rightarrow> ClientState" where
  "parse_confirmations line st =
     (if line = ''CHOOSE_TYPE'' \<or> starts ''CHOOSE_SPAWN'' line then st\<lparr>cs_can_attempt_join := True\<rparr>
      else case as_chr (sscanf ''CHOICE_OK %c'' line) of
        Some choice \<Rightarrow>
          set_status (''Choice confirmed: '' @ [choice])
            (st\<lparr>cs_selected_choice := choice, cs_choice_confirmed := True\<rparr>)
      | None \<Rightarrow>
     (case as_flts (sscanf ''SPAWN_OK %f %f'' line) of
        Some (x, y) \<Rightarrow>
          set_status (''Spawn confirmed at ('' @ fixed_str 1 x @ '','' @ fixed_str 1 y @ '')'')
            (st\<lparr>cs_spawn_confirmed := True\<rparr>)
      | None \<Rightarrow>
          if line = ''JOINED_MATCH'' then
            set_status ''You joined the current match.''
              (st\<lparr>cs_joined_match := True, cs_can_attempt_join := False\<rparr>)
          else parse_errors line st))"

definition parse_general_line :: "fp \<Rightarrow> string \<Rightarrow> ClientState \<Rightarrow> ClientState" where
  "parse_general_line now line st =
     (case as_int (sscanf ''WELCOME %d'' line) of
        Some server_id \<Rightarrow> welcome_received st
      | None \<Rightarrow>
          if line = ''MATCH_RESET'' then match_reset_received st
          else if line = ''SPECTATING'' then
            set_status ''Spectating. Pick a type and click a tile if lobby is open.'' st
          else if line = ''LOBBY_WAITING'' then
            set_status ''Lobby idle. Be the first player to join.''
              (st\<lparr>cs_can_attempt_join := True, cs_lobby_end_time := dbl_zero\<rparr>)
          else case as_int (sscanf ''LOBBY_OPEN %ld'' line) of
            Some sec_long \<Rightarrow>
              set_status ''Lobby open. Choose type and click a spawn tile.''
                (st\<lparr>cs_can_attempt_join := True,
                    cs_lobby_end_time := fp_add F64 now (fp_of_int F64 sec_long)\<rparr>)
          | None \<Rightarrow>
              if line = ''LOBBY_CLOSED'' then
                set_status ''Lobby closed. Spectating only.''
                  (st\<lparr>cs_can_attempt_join := False, cs_lobby_end_time := dbl_zero\<rparr>)
              else case as_int (sscanf ''SETUP_OPEN %d'' line) of
                Some setup_seconds \<Rightarrow>
                  set_status ''Setup locked. Waiting for admitted players.''
                    (st\<lparr>cs_setup_end_time := fp_add F64 now (fp_of_int F64 setup_seconds)\<rparr>)
              | None \<Rightarrow> parse_confirmations line st)"

section \<open>Dispatch\<close>

datatype LineParser = ParseGeneral | ParseSnapshot

record DispatchEntry =
  de_token :: string
  de_exact :: bool
  de_parser :: LineParser

definition dispatch_table :: "DispatchEntry list" where
  "dispatch_table =
     map (\<lambda>(t, e). \<lparr>de_token = t, de_exact = e, de_parser = ParseGeneral\<rparr>)
       [(''WELCOME '', False), (''MATCH_RESET'', True), (''SPECTATING'', True), (''LOBBY_WAITING'', True),
        (''LOBBY_OPEN '', False), (''LOBBY_CLOSED'', True), (''SETUP_OPEN '', False),
        (''CHOOSE_TYPE'', True), (''CHOOSE_SPAWN'', False), (''CHOICE_OK '', False),
        (''SPAWN_OK '', False), (''JOINED_MATCH'', True), (''WAITING_FOR_OTHERS'', False),
        (''JOINED '', False), (''LEFT '', False), (''ERROR '', False)] @
     map (\<lambda>(t, e). \<lparr>de_token = t, de_exact = e, de_parser = ParseSnapshot\<rparr>)
       [(''STATE_BEGIN'', True), (''STATE_END'', True), (''PLAYER '', False), (''ROUND_START '', False),
        (''REPICK_START'', True), (''REPICK_DONE'', True), (''PAIR '', False), (''BYE '', False),
        (''GAME_OVER '', False)]"

definition line_matches :: "DispatchEntry \<Rightarrow> string \<Rightarrow> bool" where
  "line_matches entry line \<longleftrightarrow>
     (if de_exact entry then line = de_token entry else starts (de_token entry) line)"

definition handle_server_line :: "fp \<Rightarrow> string \<Rightarrow> ClientState \<Rightarrow> ClientState" where
  "handle_server_line now line st =
     (case find (\<lambda>entry. line_matches entry line) dispatch_table of
        None \<Rightarrow> st
      | Some entry \<Rightarrow>
          (case de_parser entry of
             ParseGeneral \<Rightarrow> parse_general_line now line st
           | ParseSnapshot \<Rightarrow> parse_state_snapshot_line now line st))"

end
