(* ===== verification/ClientNetwork.thy ===== *)
theory ClientNetwork
  imports ClientMessages
begin

text \<open>
  The client's receiving side (\<open>src/src/client_network.c\<close>): the initial state and the pump that
  drains the socket before each frame. What the successive calls of \<open>select\<close> and \<open>recv\<close> return is
  a list; when it ends, \<open>select\<close> reports no data. The clock is a stream, read at position \<open>k\<close> for
  the \<open>k\<close>-th line handled.
\<close>

definition init_client_state :: "string \<Rightarrow> ClientState" where
  "init_client_state initial_name = \<lparr>cs_players = (\<lambda>_. zero_client_player),
     cs_status_text = ''Connected'', cs_name_input = snprintf_str MAX_NAME_LENGTH initial_name,
     cs_pending_name = [], cs_my_name = [], cs_match_result = 0, cs_name_registered = False,
     cs_name_check_pending = False, cs_state_request_sent = False, cs_name_box_active = False,
     cs_repick_phase = False, cs_game_over = False, cs_can_attempt_join = False,
     cs_joined_match = False, cs_choice_confirmed = False, cs_spawn_confirmed = False,
     cs_selected_choice = NUL, cs_lobby_end_time = dbl_zero, cs_setup_end_time = dbl_zero,
     cs_round_end_time = dbl_zero\<rparr>"

lemma pop_line_shorter: "pop_line n buf = Some (line, rest) \<Longrightarrow> length rest < length buf"
  by (auto simp: pop_line_def Let_def split: if_splits)

text \<open>\<open>while (pop_line(...)) handle_server_line(...)\<close>: the position of the clock, the buffer, the state.\<close>

function drain_server_lines :: "(nat \<Rightarrow> fp) \<Rightarrow> nat \<times> string \<times> ClientState \<Rightarrow> nat \<times> string \<times> ClientState" where
  "drain_server_lines clock (k, buf, st) =
     (case pop_line MAX_LINE buf of
        None \<Rightarrow> (k, buf, st)
      | Some (line, rest) \<Rightarrow>
          drain_server_lines clock (Suc k, rest, handle_server_line (clock k) (cstr line) st))"
  by pat_completeness auto
termination
  by (relation "measure (\<lambda>(clock, k, buf, st). length buf)") (auto dest: pop_line_shorter)
declare drain_server_lines.simps [simp del]

datatype pump_event = SelectInterrupted | SelectError | SelectNone | SelectReady recv_result

text \<open>The clock position, the connection's buffers and the client's state.\<close>

fun pump_client_network ::
  "(nat \<Rightarrow> fp) \<Rightarrow> pump_event list \<Rightarrow> nat \<times> Player \<times> ClientState \<Rightarrow> nat \<times> Player \<times> ClientState" where
  "pump_client_network clock [] s = s"
| "pump_client_network clock (SelectInterrupted # es) s = pump_client_network clock es s"
| "pump_client_network clock (SelectError # es) s = s"
| "pump_client_network clock (SelectNone # es) s = s"
| "pump_client_network clock (SelectReady r # es) (k, net_player, st) =
     (case read_into_player_buffer r net_player of (rc, net_player) \<Rightarrow>
        if read_failed rc then
          (k, net_player, (set_status ''Disconnected from server'' st)\<lparr>cs_game_over := True\<rparr>)
        else case drain_server_lines clock (k, p_inbuf net_player, st) of (k, buf, st) \<Rightarrow>
          pump_client_network clock es (k, net_player\<lparr>p_inbuf := buf\<rparr>, st))"

end
