(* ===== verification/ClientText.thy ===== *)
theory ClientText
  imports ClientNetwork
begin

text \<open>
  The full-screen client of \<open>src/src/client_text.c\<close>: its arguments, the commands it sends, the
  automatic join, the keys, the screen, and the frame loop. The terminal library is outside the
  model: a key is what \<open>getch\<close> returned, with a constructor for each key code the code names, and
  the screen of a frame is the list of \<open>mvprintw\<close> calls. \<open>Env\<close> holds the readings of the clock and
  the results of the \<open>send\<close> calls of each command. Character classes are those of ASCII.
\<close>

section \<open>State\<close>

record AutoJoinConfig =
  aj_enabled :: bool
  aj_choice :: char
  aj_spawn_x :: int
  aj_spawn_y :: int
  aj_hello_sent :: bool
  aj_choice_sent :: bool
  aj_spawn_sent :: bool

record Env =
  env_clock :: "nat \<Rightarrow> time_reading"
  env_send :: "nat \<Rightarrow> nat \<Rightarrow> send_result"

text \<open>The variables of \<open>main\<close>, how far clock and send results are used up, and the bytes sent.\<close>

record Client =
  cl_state :: ClientState
  cl_net :: Player
  cl_auto :: AutoJoinConfig
  cl_cursor_x :: int
  cl_cursor_y :: int
  cl_name_edit :: bool
  cl_clock_pos :: nat
  cl_commands :: nat
  cl_wire :: string

abbreviation on_state :: "(ClientState \<Rightarrow> ClientState) \<Rightarrow> Client \<Rightarrow> Client" where
  "on_state f c \<equiv> c\<lparr>cl_state := f (cl_state c)\<rparr>"

section \<open>Arguments\<close>

definition parse_choice_arg :: "string option \<Rightarrow> char option" where
  "parse_choice_arg value =
     (case value of
        Some [v] \<Rightarrow>
          let c = to_upper v
          in if c \<noteq> CHR ''R'' \<and> c \<noteq> CHR ''P'' \<and> c \<noteq> CHR ''S'' then None else Some c
      | _ \<Rightarrow> None)"

definition parse_spawn_arg :: "string option \<Rightarrow> int \<Rightarrow> int option" where
  "parse_spawn_arg value max_exclusive =
     (case value of None \<Rightarrow> None
      | Some v \<Rightarrow>
          (case scan_long v of
             None \<Rightarrow> None
           | Some (parsed, end_ptr) \<Rightarrow>
               if end_ptr \<noteq> [] then None
               else if parsed < 0 \<or> max_exclusive \<le> parsed then None
               else Some parsed))"

definition no_auto_join :: AutoJoinConfig where
  "no_auto_join = \<lparr>aj_enabled = False, aj_choice = NUL, aj_spawn_x = 0, aj_spawn_y = 0,
     aj_hello_sent = False, aj_choice_sent = False, aj_spawn_sent = False\<rparr>"

definition auto_join_args :: "string \<Rightarrow> string \<Rightarrow> string \<Rightarrow> AutoJoinConfig option" where
  "auto_join_args choice x y =
     (case (parse_choice_arg (Some choice), parse_spawn_arg (Some x) GRID_W, parse_spawn_arg (Some y) GRID_H) of
        (Some c, Some sx, Some sy) \<Rightarrow>
          Some (no_auto_join\<lparr>aj_enabled := True, aj_choice := c, aj_spawn_x := sx, aj_spawn_y := sy\<rparr>)
      | _ \<Rightarrow> None)"

text \<open>The arguments after the program's name; \<open>None\<close> is the usage message and exit status 1.\<close>

fun parse_args :: "string list \<Rightarrow> (string \<times> AutoJoinConfig) option" where
  "parse_args [name, choice, x, y] = map_option (Pair name) (auto_join_args choice x y)"
| "parse_args [choice, x, y] = map_option (Pair ''player'') (auto_join_args choice x y)"
| "parse_args [name] = Some (name, no_auto_join)"
| "parse_args [] = Some (''player'', no_auto_join)"
| "parse_args _ = None"

section \<open>Commands\<close>

definition send_command_checked :: "Env \<Rightarrow> string \<Rightarrow> Client \<Rightarrow> status \<times> Client" where
  "send_command_checked env text c =
     (if MAX_LINE \<le> length text then (Failure, on_state (set_status ''Outgoing command was too long.'') c)
      else case send_line (env_send env (cl_commands c)) text of (r, bytes) \<Rightarrow>
        let c = c\<lparr>cl_commands := cl_commands c + 1, cl_wire := cl_wire c @ bytes\<rparr>
        in case r of
             Success \<Rightarrow> (Success, c)
           | Failure \<Rightarrow> (Failure, on_state (set_status ''Failed to send command to server.'') c))"

definition is_valid_name_char :: "char \<Rightarrow> bool" where
  "is_valid_name_char c \<longleftrightarrow> is_alpha c \<or> is_digit c \<or> c = CHR ''_''"

definition clamp_int :: "int \<Rightarrow> int \<Rightarrow> int \<Rightarrow> int" where
  "clamp_int v min_value max_value =
     (if v < min_value then min_value else if max_value < v then max_value else v)"

definition maybe_send_hello :: "Env \<Rightarrow> Client \<Rightarrow> Client" where
  "maybe_send_hello env c =
     (let st = cl_state c
      in if cs_name_registered st \<or> cs_name_check_pending st \<or> cs_name_input st = [] then c
         else
           let pending = snprintf_str MAX_NAME_LENGTH (cs_name_input st);
               c = on_state (\<lambda>st. st\<lparr>cs_pending_name := pending\<rparr>) c
           in case send_command_checked env (''HELLO '' @ pending) c of
                (Failure, c) \<Rightarrow> c
              | (Success, c) \<Rightarrow>
                  on_state (\<lambda>st. set_status (''Checking name '' @ [CHR 0x27] @ pending @ [CHR 0x27] @ ''...'')
                    (st\<lparr>cs_name_check_pending := True, cs_state_request_sent := False\<rparr>)) c)"

text \<open>A command after whose success the snapshot has to be requested again, or has been.\<close>

definition send_and_mark :: "Env \<Rightarrow> string \<Rightarrow> bool \<Rightarrow> Client \<Rightarrow> status \<times> Client" where
  "send_and_mark env text requested c =
     (case send_command_checked env text c of
        (Success, c) \<Rightarrow> (Success, on_state (\<lambda>st. st\<lparr>cs_state_request_sent := requested\<rparr>) c)
      | (Failure, c) \<Rightarrow> (Failure, c))"

definition request_state :: "Env \<Rightarrow> Client \<Rightarrow> Client" where
  "request_state env c = snd (send_and_mark env ''GET_STATE'' True c)"

definition spawn_command :: "int \<Rightarrow> int \<Rightarrow> string" where
  "spawn_command x y = ''SPAWN '' @ int_str x @ '' '' @ int_str y"

definition may_join :: "ClientState \<Rightarrow> bool" where
  "may_join st \<longleftrightarrow> cs_name_registered st \<and> \<not> cs_game_over st \<and> cs_can_attempt_join st \<and>
     \<not> cs_joined_match st \<and> \<not> cs_repick_phase st"

section \<open>The automatic join\<close>

definition auto_hello :: "Env \<Rightarrow> Client \<Rightarrow> Client" where
  "auto_hello env c =
     (let st = cl_state c
      in if \<not> cs_name_registered st \<and> \<not> cs_name_check_pending st \<and> \<not> aj_hello_sent (cl_auto c) \<and>
            cs_name_input st \<noteq> []
         then (let c = maybe_send_hello env c in c\<lparr>cl_auto := (cl_auto c)\<lparr>aj_hello_sent := True\<rparr>\<rparr>)
         else c)"

definition auto_choice :: "Env \<Rightarrow> Client \<Rightarrow> Client" where
  "auto_choice env c =
     (if aj_choice_sent (cl_auto c) then c
      else case send_and_mark env (''CHOICE '' @ [aj_choice (cl_auto c)]) False c of
        (Success, c) \<Rightarrow> c\<lparr>cl_auto := (cl_auto c)\<lparr>aj_choice_sent := True\<rparr>\<rparr>
      | (Failure, c) \<Rightarrow> c)"

definition auto_spawn :: "Env \<Rightarrow> Client \<Rightarrow> Client" where
  "auto_spawn env c =
     (if cs_choice_confirmed (cl_state c) \<and> \<not> aj_spawn_sent (cl_auto c) then
        (case send_and_mark env (spawn_command (aj_spawn_x (cl_auto c)) (aj_spawn_y (cl_auto c))) False c of
           (Success, c) \<Rightarrow> c\<lparr>cl_auto := (cl_auto c)\<lparr>aj_spawn_sent := True\<rparr>\<rparr>
         | (Failure, c) \<Rightarrow> c)
      else c)"

definition auto_join_step :: "Env \<Rightarrow> Client \<Rightarrow> Client" where
  "auto_join_step env c =
     (if \<not> aj_enabled (cl_auto c) then c
      else let c = auto_hello env c
           in if may_join (cl_state c) then auto_spawn env (auto_choice env c) else c)"

section \<open>Keys\<close>

datatype Key = KeyCh char | KEY_LEFT | KEY_RIGHT | KEY_UP | KEY_DOWN | KEY_BACKSPACE | KEY_ENTER | KEY_OTHER

definition is_key :: "string \<Rightarrow> Key \<Rightarrow> bool" where
  "is_key cs k \<longleftrightarrow> (case k of KeyCh c \<Rightarrow> c \<in> set cs | _ \<Rightarrow> False)"

definition enter_key :: "Key \<Rightarrow> bool" where
  "enter_key k \<longleftrightarrow> is_key [newline, cret] k \<or> k = KEY_ENTER"

text \<open>Editing the name; \<open>None\<close> when the key goes on to the tests below.\<close>

definition edit_name_key :: "Env \<Rightarrow> Key \<Rightarrow> Client \<Rightarrow> Client option" where
  "edit_name_key env k c =
     (if is_key [CHR 0x1B] k then Some (c\<lparr>cl_name_edit := False\<rparr>)
      else if k = KEY_BACKSPACE \<or> is_key [CHR 0x7F, CHR 0x08] k then
        Some (on_state (\<lambda>st. st\<lparr>cs_name_input := butlast (cs_name_input st)\<rparr>) c)
      else if enter_key k then Some (maybe_send_hello env c)
      else case k of
        KeyCh ch \<Rightarrow>
          if is_valid_name_char ch then
            Some (on_state (\<lambda>st. if length (cs_name_input st) < MAX_NAME_LENGTH - 1
                                 then st\<lparr>cs_name_input := cs_name_input st @ [ch]\<rparr> else st) c)
          else None
      | _ \<Rightarrow> None)"

definition rps_key :: "Key \<Rightarrow> char option" where
  "rps_key k = (case k of KeyCh c \<Rightarrow> if c \<in> set ''rRpPsS'' then Some (to_upper c) else None | _ \<Rightarrow> None)"

text \<open>The keys of the match: rematch, choice or repick, spawn.\<close>

definition spawn_key :: "Env \<Rightarrow> Key \<Rightarrow> Client \<Rightarrow> Client" where
  "spawn_key env k c =
     (if (is_key '' '' k \<or> enter_key k) \<and> may_join (cl_state c) \<and> cs_choice_confirmed (cl_state c)
      then snd (send_and_mark env (spawn_command (cl_cursor_x c) (cl_cursor_y c)) False c) else c)"

definition match_key :: "Env \<Rightarrow> Key \<Rightarrow> Client \<Rightarrow> Client" where
  "match_key env k c =
     (if is_key ''hH'' k \<and> \<not> cs_name_registered (cl_state c) then maybe_send_hello env c
      else if is_key ''mM'' k \<and> cs_game_over (cl_state c) then snd (send_and_mark env ''REMATCH'' False c)
      else case rps_key k of
        Some ch \<Rightarrow>
          if \<not> cs_game_over (cl_state c) \<and> cs_repick_phase (cl_state c) then
            snd (send_and_mark env (''REPICK '' @ [ch]) False c)
          else if may_join (cl_state c) then snd (send_and_mark env (''CHOICE '' @ [ch]) False c)
          else spawn_key env k c
      | None \<Rightarrow> spawn_key env k c)"

definition move_key :: "Env \<Rightarrow> Key \<Rightarrow> Client \<Rightarrow> Client" where
  "move_key env k c =
     (case k of
        KEY_LEFT \<Rightarrow> c\<lparr>cl_cursor_x := clamp_int (cl_cursor_x c - 1) 0 (GRID_W - 1)\<rparr>
      | KEY_RIGHT \<Rightarrow> c\<lparr>cl_cursor_x := clamp_int (cl_cursor_x c + 1) 0 (GRID_W - 1)\<rparr>
      | KEY_UP \<Rightarrow> c\<lparr>cl_cursor_y := clamp_int (cl_cursor_y c - 1) 0 (GRID_H - 1)\<rparr>
      | KEY_DOWN \<Rightarrow> c\<lparr>cl_cursor_y := clamp_int (cl_cursor_y c + 1) 0 (GRID_H - 1)\<rparr>
      | _ \<Rightarrow> match_key env k c)"

definition handle_key :: "Env \<Rightarrow> Key \<Rightarrow> Client \<Rightarrow> Client" where
  "handle_key env k c =
     (if is_key ''gG'' k then request_state env c
      else if \<not> cs_name_registered (cl_state c) \<and> is_key ''uU'' k then c\<lparr>cl_name_edit := \<not> cl_name_edit c\<rparr>
      else if \<not> cs_name_registered (cl_state c) \<and> cl_name_edit c then
        (case edit_name_key env k c of Some c' \<Rightarrow> c' | None \<Rightarrow> move_key env k c)
      else move_key env k c)"

text \<open>The keys of a frame; the flag says whether the client goes on.\<close>

fun key_loop :: "Env \<Rightarrow> Key list \<Rightarrow> Client \<Rightarrow> bool \<times> Client" where
  "key_loop env [] c = (True, c)"
| "key_loop env (k # ks) c =
     (if is_key ''qQ'' k then (False, c) else key_loop env ks (handle_key env k c))"

section \<open>The screen\<close>

datatype draw = Draw int int string

definition ljust :: "nat \<Rightarrow> string \<Rightarrow> string" where
  "ljust n s = s @ replicate (n - length s) (CHR '' '')"

definition rjust :: "nat \<Rightarrow> string \<Rightarrow> string" where
  "rjust n s = replicate (n - length s) (CHR '' '') @ s"

definition to_grid_coord :: "fp \<Rightarrow> int" where
  "to_grid_coord v = (if fp_lt v fp_zero then - 1 else fp_to_int (fp_add F32 v (fp_lit F32 5 10)))"

definition choice_label :: "char \<Rightarrow> string" where
  "choice_label c =
     (if c = CHR ''R'' then ''Rock'' else if c = CHR ''P'' then ''Paper''
      else if c = CHR ''S'' then ''Scissors'' else ''-'')"

definition grid_marker :: "ClientState \<Rightarrow> int \<Rightarrow> int \<Rightarrow> char" where
  "grid_marker st x y =
     (case find (\<lambda>i. let p = cs_players st i
                     in cp_used p \<and> (cp_alive p \<noteq> 0 \<or> cp_waiting p \<noteq> 0) \<and>
                        to_grid_coord (cp_x p) = x \<and> to_grid_coord (cp_y p) = y) [0..<MAX_PLAYERS] of
        None \<Rightarrow> CHR ''.''
      | Some i \<Rightarrow> if cp_choice (cs_players st i) \<noteq> NUL then cp_choice (cs_players st i) else CHR ''?'')"

definition draw_grid :: "ClientState \<Rightarrow> int \<Rightarrow> int \<Rightarrow> int \<Rightarrow> int \<Rightarrow> draw list" where
  "draw_grid st row0 left cursor_x cursor_y =
     Draw (row0 - 1) left (''Grid ('' @ int_str GRID_W @ ''x'' @ int_str GRID_H @ '')'') #
     concat (map (\<lambda>y. map (\<lambda>x.
       let marker = grid_marker st x y
       in if x = cursor_x \<and> y = cursor_y
          then Draw (row0 + y) (left + x * 3) (''['' @ [marker] @ '']'')
          else Draw (row0 + y) (left + x * 3) ('' '' @ [marker] @ '' '')) [0..GRID_W - 1]) [0..GRID_H - 1])"

definition list_row :: "ClientPlayer \<Rightarrow> string" where
  "list_row p =
     ljust 10 (cp_name p) @ '' '' @ ljust 9 (choice_label (cp_choice p)) @ '' ('' @
     rjust 4 (fixed_str 1 (cp_x p)) @ '','' @ rjust 4 (fixed_str 1 (cp_y p)) @ '') '' @
     ljust 7 (if cp_alive p \<noteq> 0 then ''alive'' else if cp_waiting p \<noteq> 0 then ''waiting'' else ''out'')"

definition draw_player_list :: "ClientState \<Rightarrow> int \<Rightarrow> int \<Rightarrow> int \<Rightarrow> draw list" where
  "draw_player_list st row0 left max_rows =
     Draw row0 left ''Players'' #
     snd (for_upto MAX_PLAYERS (\<lambda>i (row, ds).
       if row < row0 + max_rows \<and> cp_used (cs_players st i)
       then (row + 1, ds @ [Draw row left (list_row (cs_players st i))]) else (row, ds)) (row0 + 1, []))"

definition countdown :: "fp \<Rightarrow> fp \<Rightarrow> string" where
  "countdown end_time now = int_str (fp_to_int (fp_add F64 (fp_sub F64 end_time now) (fp_lit F64 999 1000)))"

definition draw_status :: "fp \<Rightarrow> ClientState \<Rightarrow> int \<Rightarrow> int \<Rightarrow> draw list" where
  "draw_status now st row0 left =
     [Draw row0 left (''Status: '' @ cs_status_text st),
      Draw (row0 + 1) left (''You: '' @ (if cs_name_registered st then cs_my_name st
        else if cs_pending_name st \<noteq> [] then cs_pending_name st else ''(not registered)'')),
      Draw (row0 + 2) left (''Selected choice: '' @ choice_label (cs_selected_choice st))] @
     (if \<not> cs_game_over st \<and> fp_lt now (cs_lobby_end_time st)
      then [Draw (row0 + 3) left (''Join window: '' @ countdown (cs_lobby_end_time st) now)] else []) @
     (if \<not> cs_game_over st \<and> fp_lt now (cs_setup_end_time st)
      then [Draw (row0 + 4) left (''Setup time left: '' @ countdown (cs_setup_end_time st) now)] else []) @
     (if \<not> cs_game_over st \<and> \<not> cs_repick_phase st \<and> fp_lt now (cs_round_end_time st)
      then [Draw (row0 + 5) left (''Round timer: '' @ countdown (cs_round_end_time st) now)] else []) @
     (if cs_repick_phase st then [Draw (row0 + 7) left ''REPICK PHASE: press R/P/S''] else []) @
     (if cs_game_over st
      then [Draw (row0 + 8) left ((if 0 < cs_match_result st then ''You won''
              else if cs_match_result st < 0 then ''You lost'' else ''Game over'') @
              '' (press M for rematch)'')] else [])"

definition draw_controls :: "int \<Rightarrow> int \<Rightarrow> bool \<Rightarrow> draw list" where
  "draw_controls rows left name_edit_active =
     (let base = (if rows - 7 < 0 then 0 else rows - 7)
      in [Draw base left ''Controls: U(toggle name edit) Enter(send name/spawn) Space(spawn) Arrows(move cursor)'',
          Draw (base + 1) left ''R/P/S(select type or repick) M(rematch) G(refresh) Q(quit)'',
          Draw (base + 2) left (''Name edit: '' @ (if name_edit_active then ''ON'' else ''OFF''))])"

definition render_ui :: "fp \<Rightarrow> int \<Rightarrow> int \<Rightarrow> Client \<Rightarrow> draw list" where
  "render_ui now rows cols c =
     (let st = cl_state c
      in [Draw 0 2 ''RPS Battle Royale - client_text (ncursesw)'',
          Draw 1 2 (''Spawn cursor: ('' @ int_str (cl_cursor_x c) @ '','' @ int_str (cl_cursor_y c) @ '')''),
          Draw 2 2 (''Name input: '' @ cs_name_input st @ (if cl_name_edit c then ''_'' else ''''))] @
         (if rows < 22 \<or> cols < 108
          then [Draw 4 2 ''Terminal too small. Resize to at least 108x22.'']
          else draw_grid st 5 2 (cl_cursor_x c) (cl_cursor_y c) @ draw_player_list st 5 38 (rows - 13) @
               draw_status now st 5 78 @ draw_controls rows 2 (cl_name_edit c)))"

section \<open>The frame loop\<close>

record Frame =
  fr_pump :: "pump_event list"
  fr_keys :: "Key list"
  fr_rows :: int
  fr_cols :: int

definition pump_step :: "Env \<Rightarrow> pump_event list \<Rightarrow> Client \<Rightarrow> Client" where
  "pump_step env es c =
     (case pump_client_network (\<lambda>k. rps_now_seconds (env_clock env k)) es (cl_clock_pos c, cl_net c, cl_state c) of
        (k, net_player, st) \<Rightarrow> c\<lparr>cl_clock_pos := k, cl_net := net_player, cl_state := st\<rparr>)"

text \<open>
  One pass of the loop: whether the client goes on, its state, the screen. The screen is drawn
  before the loop condition is tested; drawing reads the clock when the status is on the screen.
\<close>

definition client_frame :: "Env \<Rightarrow> Frame \<Rightarrow> Client \<Rightarrow> bool \<times> Client \<times> draw list" where
  "client_frame env fr c =
     (let c = auto_join_step env (pump_step env (fr_pump fr) c);
          c = (if cs_state_request_sent (cl_state c) then c else request_state env c)
      in case key_loop env (fr_keys fr) c of (running, c) \<Rightarrow>
        (running, c\<lparr>cl_clock_pos := cl_clock_pos c + 1\<rparr>,
         render_ui (rps_now_seconds (env_clock env (cl_clock_pos c))) (fr_rows fr) (fr_cols fr) c))"

text \<open>The variables before the loop, and the snapshot requested first.\<close>

definition client_begin :: "int \<Rightarrow> string \<Rightarrow> AutoJoinConfig \<Rightarrow> Client" where
  "client_begin fd initial_name auto =
     \<lparr>cl_state = init_client_state initial_name, cl_net = zero_player\<lparr>p_fd := fd\<rparr>, cl_auto = auto,
      cl_cursor_x = 0, cl_cursor_y = 0, cl_name_edit = (\<not> aj_enabled auto), cl_clock_pos = 0,
      cl_commands = 0, cl_wire = []\<rparr>"

definition client_start :: "Env \<Rightarrow> int \<Rightarrow> string \<Rightarrow> AutoJoinConfig \<Rightarrow> Client" where
  "client_start env fd initial_name auto = request_state env (client_begin fd initial_name auto)"

text \<open>
  How the client stands after a list of frames, with the descriptors it closed: ended by the usage
  message, ended by \<open>fatal("connect")\<close>, in its loop, or ended with status 0.
\<close>

datatype client_outcome =
    ClientUsage
  | ClientFatal "int list"
  | ClientRunning Client
  | ClientExited Client "int list"

fun client_loop :: "Env \<Rightarrow> int \<Rightarrow> Frame list \<Rightarrow> Client \<Rightarrow> client_outcome" where
  "client_loop env fd [] c = ClientRunning c"
| "client_loop env fd (fr # frs) c =
     (case client_frame env fr c of (running, c, screen) \<Rightarrow>
        if running then client_loop env fd frs c
        else ClientExited (snd (send_command_checked env ''QUIT'' c)) [fd])"

definition client_process :: "Env \<Rightarrow> ConnectCalls \<Rightarrow> string list \<Rightarrow> Frame list \<Rightarrow> client_outcome" where
  "client_process env calls args frs =
     (case parse_args args of
        None \<Rightarrow> ClientUsage
      | Some (initial_name, auto) \<Rightarrow>
          (case connect_to_server calls ''127.0.0.1'' PORT of (fd, shut) \<Rightarrow>
             if fd = INVALID_SOCKET then ClientFatal shut
             else client_loop env fd frs (client_start env fd initial_name auto)))"

text \<open>The client that got as far as the loop.\<close>

fun client_of :: "client_outcome \<Rightarrow> Client option" where
  "client_of ClientUsage = None"
| "client_of (ClientFatal shut) = None"
| "client_of (ClientRunning c) = Some c"
| "client_of (ClientExited c shut) = Some c"

end
