(* ===== verification/Text_Props.thy ===== *)
theory Text_Props
  imports CText
begin

text \<open>
  What \<open>printf\<close> writes, \<open>scanf\<close> reads back: the digits of a number, the conversions \<open>%d\<close> and
  \<open>%.3f\<close>, and the length of a word read with a width.
\<close>

section \<open>Digits\<close>

lemma digit_char_code: "0 \<le> d \<Longrightarrow> d < 10 \<Longrightarrow> char_code (digit_char d) = 48 + d"
  by (simp add: char_code_def digit_char_def)

lemma digit_char_simps [simp]:
  assumes "0 \<le> d" and "d < 10"
  shows "is_digit (digit_char d)" and "digit_val (digit_char d) = d"
  using digit_char_code [OF assms] assms by (simp_all add: is_digit_def digit_val_def)

lemma digits_val_append: "digits_val (a @ b) = digits_val a * 10 ^ length b + digits_val b"
proof (induction b rule: rev_induct)
  case (snoc c b)
  have "digits_val (t @ [c]) = 10 * digits_val t + digit_val c" for t by (simp add: digits_val_def)
  from this [of "a @ b"] this [of b] snoc show ?case by (simp add: algebra_simps)
qed (simp add: digits_val_def)

lemma digits_val_single [simp]: "digits_val [c] = digit_val c"
  by (simp add: digits_val_def)

lemma nat_str_digits: "0 \<le> n \<Longrightarrow> (\<forall>c \<in> set (nat_str n). is_digit c) \<and> nat_str n \<noteq> [] \<and> digits_val (nat_str n) = n"
proof (induction n rule: nat_str.induct)
  case (1 n)
  show ?case
  proof (cases "n < 10")
    case True
    with 1 show ?thesis by (simp add: nat_str.simps [of n])
  next
    case False
    with 1 have "(\<forall>c \<in> set (nat_str (n div 10)). is_digit c) \<and> digits_val (nat_str (n div 10)) = n div 10"
      by simp
    with False 1(2) show ?thesis
      by (simp add: nat_str.simps [of n] digits_val_append)
  qed
qed

lemma pad_digits_props:
  "0 \<le> n \<Longrightarrow> (\<forall>c \<in> set (pad_digits p n). is_digit c) \<and> length (pad_digits p n) = p \<and>
     digits_val (pad_digits p n) = n mod 10 ^ p"
proof (induction p arbitrary: n)
  case (Suc p)
  have "n mod (10 * 10 ^ p) = 10 * (n div 10 mod 10 ^ p) + n mod 10"
    by (simp add: zmod_zmult2_eq)
  with Suc.IH [of "n div 10"] Suc.prems show ?case by (simp add: digits_val_append mult.commute)
qed (simp add: digits_val_def)

lemma digits_val_fixed: "0 \<le> k \<Longrightarrow> digits_val (nat_str (k div 10 ^ p) @ pad_digits p k) = k"
  using nat_str_digits [of "k div 10 ^ p"] pad_digits_props [of k p]
  by (simp add: digits_val_append pos_imp_zdiv_nonneg_iff div_mult_mod_eq)

lemma nat_str_length: "0 \<le> n \<Longrightarrow> n < 10 ^ k \<Longrightarrow> length (nat_str n) \<le> max 1 k"
proof (induction n arbitrary: k rule: nat_str.induct)
  case (1 n)
  show ?case
  proof (cases "n < 10")
    case True
    then show ?thesis by (simp add: nat_str.simps [of n])
  next
    case False
    with 1(3) obtain j where j: "k = Suc j" "1 \<le> j" by (cases k; cases "k - 1") auto
    with False 1(1) [of j] 1(2,3) show ?thesis by (simp add: nat_str.simps [of n])
  qed
qed

lemma int_str_length: "\<bar>k\<bar> < 10 ^ n \<Longrightarrow> 1 \<le> n \<Longrightarrow> length (int_str k) \<le> Suc n"
  using nat_str_length [of "\<bar>k\<bar>" n] by (auto simp: int_str_def abs_if split: if_splits)

lemma int_str_chars: "c \<in> set (int_str k) \<Longrightarrow> is_digit c \<or> c = CHR ''-''"
  using nat_str_digits [of "\<bar>k\<bar>"] by (auto simp: int_str_def abs_if split: if_splits)

section \<open>Reading words of digits\<close>

text \<open>What ends a number: the end of the string or a space.\<close>

definition at_gap :: "string \<Rightarrow> bool" where
  "at_gap r \<longleftrightarrow> (case r of [] \<Rightarrow> True | c # _ \<Rightarrow> c = CHR '' '')"

lemma at_gap_simps [simp]: "at_gap []" "at_gap (CHR '' '' # r)"
  by (simp_all add: at_gap_def)

lemma at_gap_take_drop [simp]:
  assumes "at_gap r"
  shows "takeWhile is_digit r = []" and "dropWhile is_digit r = r"
  using assms by (cases r; simp add: at_gap_def is_digit_def char_code_def)+

lemma takeWhile_digits:
  "\<forall>c \<in> set ds. is_digit c \<Longrightarrow> takeWhile is_digit (ds @ r) = ds @ takeWhile is_digit r"
  by (simp add: takeWhile_append)

lemma dropWhile_digits:
  "\<forall>c \<in> set ds. is_digit c \<Longrightarrow> dropWhile is_digit (ds @ r) = dropWhile is_digit r"
  by (simp add: dropWhile_append)

text \<open>A number's first character is neither a space nor a sign nor the start of a word.\<close>

lemma digit_not:
  assumes "is_digit c"
  shows "\<not> is_space c" and "c \<noteq> CHR ''-''" and "c \<noteq> CHR ''+''" and "to_lower c = c"
    and "c \<noteq> CHR ''n''" and "c \<noteq> CHR ''i''" and "c \<noteq> CHR ''x''" and "c \<noteq> CHR ''.''"
  using assms by (auto simp: is_digit_def is_space_def char_code_def to_lower_def)

lemma nat_str_Cons:
  assumes "0 \<le> n"
  obtains c ds where "nat_str n = c # ds" and "is_digit c"
  using nat_str_digits [OF assms] by (cases "nat_str n") auto

lemma skip_ws_simps [simp]:
  "skip_ws [] = []" "skip_ws (CHR '' '' # r) = skip_ws r" "skip_ws (CHR ''-'' # r) = CHR ''-'' # r"
  "is_digit c \<Longrightarrow> skip_ws (c # r) = c # r"
  by (simp_all add: skip_ws_def is_space_def char_code_def is_digit_def)

lemma scan_long_int_str:
  assumes "at_gap r"
  shows "scan_long (int_str k @ r) = Some (clamp_long k, r)"
proof -
  obtain c ds where n: "nat_str \<bar>k\<bar> = c # ds" "is_digit c" using nat_str_Cons [of "\<bar>k\<bar>"] by auto
  have d: "\<forall>x \<in> set (nat_str \<bar>k\<bar>). is_digit x" "digits_val (nat_str \<bar>k\<bar>) = \<bar>k\<bar>"
    using nat_str_digits [of "\<bar>k\<bar>"] by simp_all
  have s: "split_sign (skip_ws (int_str k @ r)) = (k < 0, nat_str \<bar>k\<bar> @ r)"
    using n digit_not [OF n(2)] by (auto simp: int_str_def)
  show ?thesis
    unfolding scan_long_def s using d n(1) assms
    by (simp add: takeWhile_digits dropWhile_digits Let_def del: takeWhile_append dropWhile_append)
qed

lemma scan_int_str:
  assumes "at_gap r" and "\<bar>k\<bar> < 2 ^ 31"
  shows "scan_int (int_str k @ r) = Some (k, r)"
proof -
  have "wrap_int (clamp_long k) = k"
    using assms(2) by (auto simp: clamp_long_def LONG_MAX_def wrap_int_def)
  then show ?thesis by (simp add: scan_int_def scan_long_int_str [OF assms(1)])
qed

section \<open>Reading decimals\<close>

text \<open>What the text of a coordinate with \<open>p\<close> decimals stands for: the decimal, rounded to a \<open>float\<close>.\<close>

fun wire_coord :: "nat \<Rightarrow> fp \<Rightarrow> fp" where
  "wire_coord p (FFin s m e) = round_ratio F32 s (fixed_int p m e) (10 ^ p)"
| "wire_coord p (FInf s) = FInf s"
| "wire_coord p (FNaN s) = FNaN s"

lemma fixed_int_nonneg:
  assumes "0 \<le> m"
  shows "0 \<le> fixed_int p m e"
proof -
  have "0 \<le> scale_num (m * 10 ^ p) (- e) div scale_den 1 (- e)"
    using assms by (simp add: scale_num_def scale_den_def pos_imp_zdiv_nonneg_iff)
  then show ?thesis by (simp add: fixed_int_def rne_div_def Let_def)
qed

lemma starts_ci_digit:
  assumes "is_digit c"
  shows "\<not> starts_ci ''n'' (c # r)" and "\<not> starts_ci ''i'' (c # r)"
  using digit_not [OF assms] by (simp_all add: starts_ci_def)

lemma not_hex_prefix:
  assumes "\<forall>c \<in> set ds. is_digit c" and "ds \<noteq> []" and "r = [] \<or> to_lower (hd r) \<noteq> CHR ''x''"
  shows "\<not> starts_ci ''0x'' (ds @ r)"
proof (cases ds)
  case (Cons c cs)
  with assms digit_not(4,7) [of "hd cs"] show ?thesis
    by (cases cs; cases r) (auto simp: starts_ci_def)
qed (use assms in simp)

lemma scan_exp_gap: "at_gap r \<Longrightarrow> scan_exp (CHR ''e'') r = Some (0, r)"
  by (cases r) (simp_all add: scan_exp_def at_gap_def to_lower_def char_code_def)

lemma scan_dec_flt_point:
  assumes "\<forall>c \<in> set ip. is_digit c" and "\<forall>c \<in> set fs. is_digit c" and "ip \<noteq> []" and "fs \<noteq> []" and "at_gap r"
  shows "scan_dec_flt neg (ip @ CHR ''.'' # fs @ r) =
    Some (round_ratio F32 neg (digits_val (ip @ fs)) (10 ^ length fs), r)"
proof -
  have dot: "\<not> is_digit (CHR ''.'')" by (simp add: is_digit_def char_code_def)
  have "scan_frac is_digit (ip @ CHR ''.'' # fs @ r) = (ip, fs, r)"
    using assms dot by (simp add: scan_frac_def takeWhile_digits dropWhile_digits
        del: takeWhile_append dropWhile_append)
  then show ?thesis using assms(3-5) by (simp add: scan_dec_flt_def scan_exp_gap)
qed

lemma scan_flt_digits:
  assumes "\<forall>c \<in> set ds. is_digit c" and "ds \<noteq> []" and "r = [] \<or> to_lower (hd r) \<noteq> CHR ''x''"
  shows "scan_flt ((if s then ''-'' else []) @ ds @ r) = scan_dec_flt s (ds @ r)"
proof -
  obtain c cs where c: "ds = c # cs" "is_digit c" using assms(1,2) by (cases ds) auto
  have "split_sign (skip_ws ((if s then ''-'' else []) @ ds @ r)) = (s, ds @ r)"
    using c digit_not [OF c(2)] by simp
  then show ?thesis
    using not_hex_prefix [OF assms] starts_ci_digit [OF c(2), of "cs @ r"] c(1)
    by (simp add: scan_flt_def)
qed

lemma scan_fixed_str:
  assumes "fp_ok F32 x" and "0 < p" and "at_gap r"
  shows "scan_flt (fixed_str p x @ r) = Some (wire_coord p x, r)"
proof (cases x)
  case (FFin s m e)
  with assms(1) have "0 \<le> m" by simp
  define k where "k = fixed_int p m e"
  have k: "0 \<le> k" using fixed_int_nonneg [OF \<open>0 \<le> m\<close>] by (simp add: k_def)
  note ip = nat_str_digits [of "k div 10 ^ p"] and fs = pad_digits_props [OF k, of p]
  have "pad_digits p k \<noteq> []" using fs assms(2) by auto
  with ip fs k assms(3) show ?thesis
    using scan_flt_digits [of "nat_str (k div 10 ^ p)" "CHR ''.'' # pad_digits p k @ r" s]
    by (simp add: FFin k_def [symmetric] scan_dec_flt_point digits_val_fixed to_lower_def char_code_def
        pos_imp_zdiv_nonneg_iff)
next
  case (FInf s)
  with assms(3) show ?thesis
    by (cases r) (auto simp: scan_flt_def at_gap_def starts_ci_def to_lower_def char_code_def skip_ws_def is_space_def)
next
  case (FNaN s)
  with assms(3) show ?thesis
    by (cases r) (auto simp: scan_flt_def at_gap_def starts_ci_def to_lower_def char_code_def skip_ws_def
        is_space_def scan_nan_tail_def)
qed

lemma fixed_str_chars:
  assumes "fp_ok F32 x" and "c \<in> set (fixed_str p x)"
  shows "is_digit c \<or> c \<in> set ''-.naif''"
proof (cases x)
  case (FFin s m e)
  then have "0 \<le> fixed_int p m e" using assms(1) by (simp add: fixed_int_nonneg)
  then show ?thesis
    using assms(2) nat_str_digits [of "fixed_int p m e div 10 ^ p"] pad_digits_props [of "fixed_int p m e" p]
    by (auto simp: FFin Let_def pos_imp_zdiv_nonneg_iff split: if_splits)
qed (use assms(2) in \<open>auto split: if_splits\<close>)

text \<open>The conversions skip white space themselves.\<close>

lemma skip_ws_idem [simp]: "skip_ws (skip_ws s) = skip_ws s"
  by (induction s) (simp_all add: skip_ws_def)

lemma scan_skip [simp]:
  "scan_flt (skip_ws s) = scan_flt s" "scan_flt (CHR '' '' # s) = scan_flt s"
  "scan_int (skip_ws s) = scan_int s" "scan_int (CHR '' '' # s) = scan_int s"
  by (simp_all add: scan_flt_def scan_int_def scan_long_def)

lemma scan_flt_int_str:
  assumes "at_gap r"
  shows "scan_flt (int_str k @ r) = Some (fp_of_int F32 k, r)"
proof -
  note d = nat_str_digits [of "\<bar>k\<bar>"]
  have "int_str k = (if k < 0 then ''-'' else []) @ nat_str \<bar>k\<bar>" by (simp add: int_str_def)
  moreover have "r = [] \<or> to_lower (hd r) \<noteq> CHR ''x''"
    using assms by (cases r) (auto simp: at_gap_def to_lower_def char_code_def)
  moreover have w: "takeWhile is_digit (nat_str \<bar>k\<bar> @ r) = nat_str \<bar>k\<bar>"
    "dropWhile is_digit (nat_str \<bar>k\<bar> @ r) = r"
    using d assms takeWhile_digits [of "nat_str \<bar>k\<bar>" r] dropWhile_digits [of "nat_str \<bar>k\<bar>" r] by simp_all
  have "scan_frac is_digit (nat_str \<bar>k\<bar> @ r) = (nat_str \<bar>k\<bar>, [], r)"
    unfolding scan_frac_def Let_def w using assms by (cases r) (simp_all add: at_gap_def)
  then have "scan_dec_flt (k < 0) (nat_str \<bar>k\<bar> @ r) = Some (fp_of_int F32 k, r)"
    using d assms by (simp add: scan_dec_flt_def scan_exp_gap fp_of_int_def)
  ultimately show ?thesis using d scan_flt_digits [of "nat_str \<bar>k\<bar>" r "k < 0"] by simp
qed

section \<open>Words\<close>

lemma scan_word:
  assumes "\<forall>c \<in> set n. \<not> is_space c" and "n \<noteq> []" and "length n \<le> w" and "at_gap r"
  shows "scan_dirs (DStr w # ds) (n @ r) = VStr n # scan_dirs ds r"
proof -
  have s: "skip_ws (n @ r) = n @ r" using assms(1,2) by (cases n) (simp_all add: skip_ws_def)
  have "takeWhile (\<lambda>c. \<not> is_space c) (take w (n @ r)) = n @ takeWhile (\<lambda>c. \<not> is_space c) (take (w - length n) r)"
    using assms(1,3) by (simp add: takeWhile_append)
  moreover have "takeWhile (\<lambda>c. \<not> is_space c) (take (w - length n) r) = []"
    using assms(4) by (cases r; cases "w - length n") (auto simp: at_gap_def is_space_def char_code_def)
  ultimately have t: "takeWhile (\<lambda>c. \<not> is_space c) (take w (n @ r)) = n" by simp
  show ?thesis using assms(2) by (simp only: scan_dirs.simps s t Let_def) simp
qed

lemma scan_dirs_length: "VStr n \<in> set (scan_dirs ds s) \<Longrightarrow> \<exists>w. DStr w \<in> set ds \<and> length n \<le> w"
proof (induction ds s rule: scan_dirs.induct)
  case (5 w ds s)
  let ?tok = "takeWhile (\<lambda>c. \<not> is_space c) (take w (skip_ws s))"
  have "length ?tok \<le> w" by (rule order_trans [OF length_takeWhile_le]) simp
  with 5 show ?case by (auto simp: Let_def split: if_splits)
qed (auto split: list.splits option.splits prod.splits dest!: sym [of "Some _"])

lemma wrap_int_range: "- (2 ^ 31) \<le> wrap_int k \<and> wrap_int k < 2 ^ 31"
proof -
  define r where "r = (k + 2 ^ 31) mod 2 ^ 32"
  have "0 \<le> r" "r < 2 ^ 32" by (simp_all add: r_def)
  moreover have "wrap_int k = r - 2 ^ 31" by (simp add: wrap_int_def r_def)
  ultimately show ?thesis by simp
qed

text \<open>What \<open>%f\<close> stores is a \<open>float\<close>, and what \<open>%d\<close> stores an \<open>int\<close>.\<close>

lemma scan_dirs_float: "VFlt x \<in> set (scan_dirs ds s) \<Longrightarrow> fp_ok F32 x"
proof (induction ds s rule: scan_dirs.induct)
  case (8 ds s)
  then show ?case by (cases "scan_flt s") (auto dest: scan_flt_ok)
qed (auto simp: Let_def split: list.splits option.splits prod.splits if_splits dest!: sym [of "Some _"])

lemma scan_dirs_int: "VInt k \<in> set (scan_dirs ds s) \<Longrightarrow> DLong \<notin> set ds \<Longrightarrow> - (2 ^ 31) \<le> k \<and> k < 2 ^ 31"
proof (induction ds s rule: scan_dirs.induct)
  case (6 ds s)
  then show ?case
  proof (cases "scan_int s")
    case (Some kr)
    then obtain k' r where k: "scan_int s = Some (k', r)" by (cases kr) auto
    then have "- (2 ^ 31) \<le> k' \<and> k' < 2 ^ 31" using wrap_int_range by (auto simp: scan_int_def)
    with 6 k show ?thesis by auto
  qed simp
qed (auto simp: Let_def split: list.splits option.splits prod.splits if_splits dest!: sym [of "Some _"])

section \<open>How far off a printed coordinate is\<close>

lemma rne_div_half:
  assumes "0 < d"
  shows "2 * \<bar>rne_div n d * d - n\<bar> \<le> d"
proof -
  define q r where "q = n div d" and "r = n mod d"
  have n: "n = q * d + r" by (simp add: q_def r_def)
  have "0 \<le> r" "r < d" using assms by (simp_all add: r_def)
  moreover have "rne_div n d = q \<and> 2 * r \<le> d \<or> rne_div n d = q + 1 \<and> d \<le> 2 * r"
    by (auto simp: rne_div_def Let_def q_def r_def)
  moreover have "q * d - n = - r" "(q + 1) * d - n = d - r" by (simp_all add: n algebra_simps)
  ultimately show ?thesis by auto
qed

lemma fixed_int_close:
  assumes "0 \<le> m"
  shows "\<bar>real_of_int (fixed_int p m e) - of_int m * 2 powi e * 10 ^ p\<bar> \<le> 1 / 2"
proof -
  define n d where "n = scale_num (m * 10 ^ p) (- e)" and "d = scale_den 1 (- e)"
  have d: "0 < d" by (simp add: d_def)
  have v: "real_of_int n = of_int m * 2 powi e * 10 ^ p * of_int d"
    using scale_ratio [of 1 "m * 10 ^ p" "- e"]
    by (simp add: n_def d_def power_int_minus divide_simps mult_ac)
  have "2 * \<bar>of_int (fixed_int p m e) * of_int d - real_of_int n\<bar> \<le> of_int d"
    using rne_div_half [OF d, of n, folded of_int_le_iff [where ?'a = real]]
    by (simp add: fixed_int_def n_def [symmetric] d_def [symmetric])
  also have "of_int (fixed_int p m e) * of_int d - real_of_int n =
      (of_int (fixed_int p m e) - of_int m * 2 powi e * 10 ^ p) * of_int d"
    by (simp add: v algebra_simps)
  finally show ?thesis using d by (simp add: abs_mult)
qed

lemma wire_coord_close:
  assumes x: "fp_ok F32 x" "fp_fin x" and b: "\<bar>fpval x\<bar> \<le> 16"
  shows "fp_fin (wire_coord p x)" and "\<bar>fpval (wire_coord p x) - fpval x\<bar> \<le> 1 / 10 ^ p"
proof -
  obtain s m e where xe: "x = FFin s m e" using x(2) by (rule fp_fin_cases)
  define k where "k = fixed_int p m e"
  have m: "0 \<le> m" using x(1) xe by simp
  have k: "0 \<le> k" using fixed_int_nonneg [OF m] by (simp add: k_def)
  have "\<bar>real_of_int k - of_int m * 2 powi e * 10 ^ p\<bar> \<le> 1 / 2"
    using fixed_int_close [OF m] by (simp add: k_def)
  then have "\<bar>(real_of_int k - of_int m * 2 powi e * 10 ^ p) / 10 ^ p\<bar> \<le> 1 / 2 / 10 ^ p"
    using divide_right_mono [of "\<bar>real_of_int k - of_int m * 2 powi e * 10 ^ p\<bar>" "1 / 2" "10 ^ p"]
    by (simp add: abs_divide)
  then have c: "\<bar>of_int (with_sign s k) / 10 ^ p - fpval x\<bar> \<le> 1 / 2 / 10 ^ p"
    by (cases s) (simp_all add: xe with_sign_def diff_divide_distrib abs_minus_commute add_divide_distrib)
  have half: "1 / 2 / 10 ^ p \<le> (1 / 2 :: real)" by (simp add: divide_simps)
  have kb: "real_of_int k / of_int (10 ^ p) \<le> 17"
  proof -
    have "\<bar>of_int (with_sign s k) / 10 ^ p\<bar> \<le> (17::real)" using c b half by linarith
    then show ?thesis using k by (cases s) (simp_all add: with_sign_def)
  qed
  have "rep F32 17" using rep_of_int [OF fmt_ok_F32, of 17] by (simp add: F32_def)
  then have "rounds_to F32 (of_int (with_sign s k) / of_int (10 ^ p)) (wire_coord p x)"
    using round_ratio_rounds [OF fmt_ok_F32 k _ kb] by (simp add: xe k_def F32_def power_int_def)
  then have r: "fp_fin (wire_coord p x)" "closest F32 (of_int (with_sign s k) / 10 ^ p) (fpval (wire_coord p x))"
    by (simp_all add: rounds_to_def)
  show "fp_fin (wire_coord p x)" by (fact r(1))
  have "\<bar>fpval (wire_coord p x) - of_int (with_sign s k) / 10 ^ p\<bar> \<le> \<bar>fpval x - of_int (with_sign s k) / 10 ^ p\<bar>"
    using r(2) rep_fpval [OF x(1)] by (simp add: closest_def)
  moreover have "1 / 2 / 10 ^ p + 1 / 2 / 10 ^ p = (1::real) / 10 ^ p" by simp
  ultimately show "\<bar>fpval (wire_coord p x) - fpval x\<bar> \<le> 1 / 10 ^ p" using c by linarith
qed

end
