(* ===== verification/Client_Contract.thy ===== *)
theory Client_Contract
  imports ClientText Server_Contract Text_Props Protocol_Props
begin

text \<open>
  The contract of a client invariant: the direct effects the keys, the automatic join and the
  frame loop have are the laws, and the conclusions are that every key, every frame and every run
  preserve the invariant.
\<close>

section \<open>The player table\<close>

text \<open>The values of the C types of an entry: an array for the name, \<open>float\<close>s, \<open>int\<close>s.\<close>

definition int32 :: "int \<Rightarrow> bool" where
  "int32 k \<longleftrightarrow> - (2 ^ 31) \<le> k \<and> k < 2 ^ 31"

definition entry_ok :: "ClientPlayer \<Rightarrow> bool" where
  "entry_ok p \<longleftrightarrow> length (cp_name p) < MAX_NAME_LENGTH \<and> fp_ok F32 (cp_x p) \<and> fp_ok F32 (cp_y p) \<and>
     int32 (cp_alive p) \<and> int32 (cp_waiting p)"

lemma coord_consts_ok [simp]: "fp_ok F32 fp_zero" "fp_ok F32 fp_minus_one" "int32 0" "int32 1"
  by (simp_all add: fp_zero_def fp_minus_one_def F32_def int32_def)

definition table_ok :: "(nat \<Rightarrow> ClientPlayer) \<Rightarrow> bool" where
  "table_ok tab \<longleftrightarrow> (\<forall>i. entry_ok (tab i)) \<and> (\<forall>i \<ge> MAX_PLAYERS. \<not> cp_used (tab i)) \<and>
     (\<forall>i j. cp_used (tab i) \<longrightarrow> cp_used (tab j) \<longrightarrow> cp_name (tab i) = cp_name (tab j) \<longrightarrow> i = j)"

lemma table_ok_clear [simp]: "table_ok clear_players"
  by (simp add: table_ok_def clear_players_def entry_ok_def zero_client_player_def MAX_NAME_LENGTH_def)

text \<open>An update of an entry that keeps the name and its types and does not bring the entry into use.\<close>

lemma table_ok_upd:
  assumes "table_ok tab" and "cp_name (f (tab i)) = cp_name (tab i)" and "cp_used (f (tab i)) \<Longrightarrow> cp_used (tab i)"
    and "entry_ok (tab i) \<Longrightarrow> entry_ok (f (tab i))"
  shows "table_ok (tab(i := f (tab i)))"
  using assms by (auto simp: table_ok_def)

lemma find_slot_Some: "find P [0..<n] = Some i \<Longrightarrow> i < n \<and> P i"
  by (auto simp: find_Some_iff)

lemma find_player_None: "find_player tab name = None \<longleftrightarrow> (\<forall>i < MAX_PLAYERS. \<not> (cp_used (tab i) \<and> cp_name (tab i) = name))"
  by (auto simp: find_player_def find_None_iff)

lemma table_ok_add:
  assumes tab: "table_ok tab" and name: "length name < MAX_NAME_LENGTH"
    and g: "get_or_add_player tab name = (r, tab')"
  shows "table_ok tab'" and "r = Some i \<Longrightarrow> i < MAX_PLAYERS \<and> cp_used (tab' i) \<and> cp_name (tab' i) = name"
proof -
  have n: "snprintf_str MAX_NAME_LENGTH name = name"
    using name by (simp add: snprintf_str_def MAX_NAME_LENGTH_def)
  show "table_ok tab'"
  proof (cases "\<exists>k. find_player tab name = None \<and> find (\<lambda>i. \<not> cp_used (tab i)) [0..<MAX_PLAYERS] = Some k")
    case True
    then obtain k where k: "find_player tab name = None" "find (\<lambda>i. \<not> cp_used (tab i)) [0..<MAX_PLAYERS] = Some k"
      by blast
    have "tab' = tab(k := new_client_player name)" using g k by (simp add: get_or_add_player_def)
    moreover have "cp_name (tab i) \<noteq> name" if "cp_used (tab i)" for i
      using that tab k(1) by (auto simp: find_player_None table_ok_def not_le dest: leI)
    ultimately show ?thesis
      using tab name find_slot_Some [OF k(2)] by (auto simp: table_ok_def new_client_player_def n entry_ok_def
          zero_client_player_def)
  next
    case False
    with g tab show ?thesis by (auto simp: get_or_add_player_def split: option.splits)
  qed
  show "i < MAX_PLAYERS \<and> cp_used (tab' i) \<and> cp_name (tab' i) = name" if "r = Some i"
    using that g by (auto simp: get_or_add_player_def find_player_def new_client_player_def n
        split: option.splits dest: find_slot_Some)
qed

lemma snprintf_length [simp]: "0 < n \<Longrightarrow> length (snprintf_str n t) < n"
  by (auto simp: snprintf_str_def)

lemma sizes_pos [simp]: "0 < STATUS_SIZE" "0 < MAX_NAME_LENGTH"
  by (simp_all add: STATUS_SIZE_def MAX_NAME_LENGTH_def)

section \<open>The input buffer\<close>

definition net_ok :: "Player \<Rightarrow> bool" where
  "net_ok p \<longleftrightarrow> newline \<notin> set (p_inbuf p) \<and> length (p_inbuf p) < INBUF_SIZE"

lemma read_failed_same: "read_into_player_buffer r p = (rc, q) \<Longrightarrow> read_failed rc \<Longrightarrow> p_inbuf q = p_inbuf p"
  by (auto simp: read_into_player_buffer_def split: recv_result.splits if_splits)

lemma read_bounded:
  "read_into_player_buffer r p = (rc, q) \<Longrightarrow> length (p_inbuf p) < INBUF_SIZE \<Longrightarrow> length (p_inbuf q) < INBUF_SIZE"
  by (auto simp: read_into_player_buffer_def split: recv_result.splits if_splits)

section \<open>What the lines of the server do to the state\<close>

text \<open>Case analysis along the tests of a parser.\<close>

lemma scan_case_if: "(b \<Longrightarrow> P x) \<Longrightarrow> (\<not> b \<Longrightarrow> P y) \<Longrightarrow> P (if b then x else y)"
  by simp

lemma scan_case_option:
  "(\<And>x. v = Some x \<Longrightarrow> P (f x)) \<Longrightarrow> P d \<Longrightarrow> P (case v of None \<Rightarrow> d | Some x \<Rightarrow> f x)"
  by (cases v) simp_all

lemma scan_case_prod: "(\<And>x y. v = (x, y) \<Longrightarrow> P (f x y)) \<Longrightarrow> P (case v of (x, y) \<Rightarrow> f x y)"
  by (cases v) simp

lemmas scan_cases = scan_case_if scan_case_option scan_case_prod

text \<open>
  An invariant of the client's state: the flags do not matter to it, and it is kept by the
  assignments of values of their types to the status line, the table, the own name, the result
  and the times.
\<close>

definition same_data :: "ClientState \<Rightarrow> ClientState \<Rightarrow> bool" where
  "same_data s t \<longleftrightarrow> cs_players s = cs_players t \<and> cs_status_text s = cs_status_text t \<and>
     cs_name_input s = cs_name_input t \<and> cs_pending_name s = cs_pending_name t \<and> cs_my_name s = cs_my_name t \<and>
     cs_match_result s = cs_match_result t \<and> cs_lobby_end_time s = cs_lobby_end_time t \<and>
     cs_setup_end_time s = cs_setup_end_time t \<and> cs_round_end_time s = cs_round_end_time t"

lemma dbl_zero_ok [simp]: "fp_ok F64 dbl_zero"
  by (simp add: dbl_zero_def F64_def)

lemma end_time_ok: "fp_ok F64 now \<Longrightarrow> fp_ok F64 (fp_add F64 now (fp_of_int F64 k))"
  by (simp add: fp_add_ok fp_of_int_ok)

lemma player_scan_typed:
  assumes "as_player (sscanf ''PLAYER %31s %c %f %f %d %d'' line) = Some (n, c, x, y, k, l)"
  shows "fp_ok F32 x" and "fp_ok F32 y" and "int32 k" and "int32 l"
proof -
  have d: "DLong \<notin> set (fmt_dirs ''PLAYER %31s %c %f %f %d %d'')" by (simp add: is_space_def char_code_def)
  have m: "{VFlt x, VFlt y, VInt k, VInt l} \<subseteq> set (scan_dirs (fmt_dirs ''PLAYER %31s %c %f %f %d %d'') line)"
    using assms by (simp add: as_player_Some sscanf_def del: fmt_dirs.simps)
  then show "fp_ok F32 x" "fp_ok F32 y" by (blast intro: scan_dirs_float)+
  from m d show "int32 k" "int32 l" unfolding int32_def by (blast dest: scan_dirs_int)+
qed

lemma win_scan_typed:
  assumes "as_win (sscanf fmt line) = Some (a, b, c, d, w, x, y)"
  shows "fp_ok F32 x" and "fp_ok F32 y"
proof -
  have "{VFlt x, VFlt y} \<subseteq> set (scan_dirs (fmt_dirs fmt) line)"
    using assms by (cases "sscanf fmt line" rule: as_win.cases) (auto simp: sscanf_def)
  then show "fp_ok F32 x" "fp_ok F32 y" by (blast intro: scan_dirs_float)+
qed

lemma sscanf_word_length: "VStr n \<in> set (sscanf fmt s) \<Longrightarrow> list_all (\<lambda>d. case d of DStr w \<Rightarrow> w \<le> 31 | _ \<Rightarrow> True) (fmt_dirs fmt) \<Longrightarrow> length n \<le> 31"
  unfolding sscanf_def by (drule scan_dirs_length) (auto simp: list_all_iff dest: bspec)

locale client_state_inv =
  fixes J :: "ClientState \<Rightarrow> bool"
  assumes inv_flags: "J s \<Longrightarrow> same_data s2 s \<Longrightarrow> J s2"
    and inv_status: "J s \<Longrightarrow> length t < STATUS_SIZE \<Longrightarrow> J (s\<lparr>cs_status_text := t\<rparr>)"
    and inv_table: "J s \<Longrightarrow> (table_ok (cs_players s) \<Longrightarrow> table_ok tab) \<Longrightarrow> J (s\<lparr>cs_players := tab\<rparr>)"
    and inv_my_name: "J s \<Longrightarrow> length n < MAX_NAME_LENGTH \<Longrightarrow> J (s\<lparr>cs_my_name := n\<rparr>)"
    and inv_result: "J s \<Longrightarrow> r \<in> {- 1, 0, 1} \<Longrightarrow> J (s\<lparr>cs_match_result := r\<rparr>)"
    and inv_lobby_end: "J s \<Longrightarrow> fp_ok F64 u \<Longrightarrow> J (s\<lparr>cs_lobby_end_time := u\<rparr>)"
    and inv_setup_end: "J s \<Longrightarrow> fp_ok F64 u \<Longrightarrow> J (s\<lparr>cs_setup_end_time := u\<rparr>)"
    and inv_round_end: "J s \<Longrightarrow> fp_ok F64 u \<Longrightarrow> J (s\<lparr>cs_round_end_time := u\<rparr>)"
begin

lemmas inv_times [simp] = inv_lobby_end inv_setup_end inv_round_end inv_result

lemma set_status_ok [simp]: "J st \<Longrightarrow> J (set_status t st)"
  by (simp add: set_status_def inv_status)

lemma inv_fields [simp]:
  "J (st\<lparr>cs_name_registered := b\<rparr>) = J st"
  "J (st\<lparr>cs_name_check_pending := b\<rparr>) = J st"
  "J (st\<lparr>cs_state_request_sent := b\<rparr>) = J st"
  "J (st\<lparr>cs_repick_phase := b\<rparr>) = J st"
  "J (st\<lparr>cs_game_over := b\<rparr>) = J st"
  "J (st\<lparr>cs_can_attempt_join := b\<rparr>) = J st"
  "J (st\<lparr>cs_joined_match := b\<rparr>) = J st"
  "J (st\<lparr>cs_choice_confirmed := b\<rparr>) = J st"
  "J (st\<lparr>cs_spawn_confirmed := b\<rparr>) = J st"
  "J (st\<lparr>cs_selected_choice := c\<rparr>) = J st"
  by (rule iffI; erule inv_flags; simp add: same_data_def)+

lemma inv_entry:
  "J st \<Longrightarrow> cp_name (f (cs_players st i)) = cp_name (cs_players st i) \<Longrightarrow>
   (cp_used (f (cs_players st i)) \<Longrightarrow> cp_used (cs_players st i)) \<Longrightarrow>
   (entry_ok (cs_players st i) \<Longrightarrow> entry_ok (f (cs_players st i))) \<Longrightarrow> J (upd_entry i f st)"
  unfolding upd_entry_def by (rule inv_table) (auto intro: table_ok_upd)


lemma player_entry_ok:
  assumes st: "J st" and name: "length name \<le> 31"
    and typed: "fp_ok F32 x" "fp_ok F32 y" "int32 alive" "int32 waiting"
  shows "J (player_entry name choice x y alive waiting st)"
proof -
  obtain r tab where g: "get_or_add_player (cs_players st) name = (r, tab)" by fastforce
  have "J (st\<lparr>cs_players := tab\<rparr>)"
    using table_ok_add(1) [OF _ _ g] name by (intro inv_table [OF st]) (simp add: MAX_NAME_LENGTH_def)
  then have "J (case r of None \<Rightarrow> st\<lparr>cs_players := tab\<rparr>
      | Some i \<Rightarrow> upd_entry i (\<lambda>p. p\<lparr>cp_choice := choice, cp_x := x, cp_y := y, cp_alive := alive,
          cp_waiting := waiting\<rparr>) (st\<lparr>cs_players := tab\<rparr>))"
    using typed by (cases r) (auto intro!: inv_entry simp: entry_ok_def)
  then show ?thesis by (auto simp: player_entry_def g Let_def split: option.splits)
qed

lemmas scan_cases_ok = scan_cases [where P = J]

lemma pair_won_ok: "J st \<Longrightarrow> fp_ok F32 x \<Longrightarrow> fp_ok F32 y \<Longrightarrow> J (pair_won n1 n2 w x y st)"
  by (auto simp: pair_won_def Let_def entry_ok_def split: option.split intro!: set_status_ok inv_entry)

lemma game_over_received_ok: "J st \<Longrightarrow> J (game_over_received word st)"
  by (simp add: game_over_received_def Let_def)

lemma parse_bye_or_over_ok: "J st \<Longrightarrow> J (parse_bye_or_over line st)"
  unfolding parse_bye_or_over_def by (intro scan_cases_ok set_status_ok game_over_received_ok)

lemma parse_pair_ok: "J st \<Longrightarrow> J (parse_pair line st)"
  unfolding parse_pair_def
  by (intro scan_cases_ok) (simp_all add: pair_won_ok win_scan_typed parse_bye_or_over_ok)

lemma snapshot_line_ok:
  assumes st: "J st" and now: "fp_ok F64 now"
  shows "J (parse_state_snapshot_line now line st)"
proof -
  have len: "length n \<le> 31" if "as_player (sscanf ''PLAYER %31s %c %f %f %d %d'' line) = Some (n, c, x, y, k, l)"
    for n c x y k l
    by (rule sscanf_word_length [of n "''PLAYER %31s %c %f %f %d %d''" line])
      (use that in \<open>simp add: as_player_Some\<close>, simp add: is_space_def char_code_def)
  have "J (st\<lparr>cs_players := clear_players\<rparr>)"
    using st by (rule inv_table) simp
  with st now show ?thesis
    unfolding parse_state_snapshot_line_def
    by (intro scan_cases_ok)
      (simp_all add: player_entry_ok len player_scan_typed parse_pair_ok parse_bye_or_over_ok end_time_ok)
qed

lemma parse_errors_ok: "J st \<Longrightarrow> J (parse_errors line st)"
  unfolding parse_errors_def
  by (intro scan_cases_ok)
    (auto simp: left_received_def entry_ok_def split: option.split intro!: set_status_ok inv_entry)

lemma parse_confirmations_ok: "J st \<Longrightarrow> J (parse_confirmations line st)"
  unfolding parse_confirmations_def by (intro scan_cases_ok) (simp_all add: parse_errors_ok)

lemma welcome_received_ok: "J st \<Longrightarrow> J (welcome_received st)"
  by (simp add: welcome_received_def Let_def inv_my_name)

lemma match_reset_received_ok: "J st \<Longrightarrow> J (match_reset_received st)"
  using inv_table [of st clear_players] by (simp add: match_reset_received_def)

lemma general_line_ok: "J st \<Longrightarrow> fp_ok F64 now \<Longrightarrow> J (parse_general_line now line st)"
  unfolding parse_general_line_def
  by (intro scan_cases_ok) (simp_all add: welcome_received_ok match_reset_received_ok parse_confirmations_ok end_time_ok)

lemma handle_server_line_ok: "J st \<Longrightarrow> fp_ok F64 now \<Longrightarrow> J (handle_server_line now line st)"
  by (simp add: handle_server_line_def general_line_ok snapshot_line_ok split: option.split LineParser.split)

lemma drain_server_lines_ok:
  "J st \<Longrightarrow> (\<And>j. fp_ok F64 (clock j)) \<Longrightarrow> drain_server_lines clock (k, buf, st) = (k', buf', st') \<Longrightarrow>
   J st' \<and> newline \<notin> set buf' \<and> length buf' \<le> length buf"
proof (induction clock "(k, buf, st)" arbitrary: k buf st rule: drain_server_lines.induct)
  case (1 clock k buf st)
  show ?case
  proof (cases "pop_line MAX_LINE buf")
    case None
    with 1 show ?thesis by (simp add: drain_server_lines.simps pop_line_None)
  next
    case (Some lr)
    then obtain line rest where p: "pop_line MAX_LINE buf = Some (line, rest)" by (cases lr) auto
    with 1 have "J st' \<and> newline \<notin> set buf' \<and> length buf' \<le> length rest"
      by (simp add: drain_server_lines.simps [of _ k] handle_server_line_ok)
    with pop_line_shorter [OF p] show ?thesis by simp
  qed
qed

lemma pump_client_network_ok:
  "J st \<Longrightarrow> net_ok p \<Longrightarrow> (\<And>j. fp_ok F64 (clock j)) \<Longrightarrow> pump_client_network clock es (k, p, st) = (k', p', st') \<Longrightarrow>
   J st' \<and> net_ok p'"
proof (induction es arbitrary: k p st)
  case (Cons e es)
  show ?case
  proof (cases e)
    case (SelectReady r)
    obtain rc q where r: "read_into_player_buffer r p = (rc, q)" by fastforce
    obtain k2 buf st2 where d: "drain_server_lines clock (k, p_inbuf q, st) = (k2, buf, st2)" by (metis prod_cases3)
    from drain_server_lines_ok [OF Cons.prems(1) Cons.prems(3) d] have "J st2" "net_ok (q\<lparr>p_inbuf := buf\<rparr>)"
      using read_bounded [OF r] Cons.prems(2) by (simp_all add: net_ok_def)
    moreover have "net_ok q" if "read_failed rc"
      using read_failed_same [OF r that] Cons.prems(2) by (simp add: net_ok_def)
    ultimately show ?thesis
      using Cons.IH [of st2 "q\<lparr>p_inbuf := buf\<rparr>" k2] Cons.prems SelectReady r d
      by (auto split: if_splits)
  qed (use Cons in auto)
qed simp

end

section \<open>What the keys and the frames do\<close>

definition on_board :: "int \<Rightarrow> int \<Rightarrow> bool" where
  "on_board x y \<longleftrightarrow> 0 \<le> x \<and> x < GRID_W \<and> 0 \<le> y \<and> y < GRID_H"

definition auto_ok :: "AutoJoinConfig \<Rightarrow> bool" where
  "auto_ok a \<longleftrightarrow> aj_enabled a \<longrightarrow> rps_char (aj_choice a) \<and> on_board (aj_spawn_x a) (aj_spawn_y a)"

text \<open>The lines the client sends besides HELLO.\<close>

inductive client_request :: "string \<Rightarrow> bool" where
  get_state: "client_request ''GET_STATE''"
| rematch: "client_request ''REMATCH''"
| quit: "client_request ''QUIT''"
| choice: "rps_char c \<Longrightarrow> client_request (''CHOICE '' @ [c])"
| repick: "rps_char c \<Longrightarrow> client_request (''REPICK '' @ [c])"
| spawn: "on_board x y \<Longrightarrow> client_request (spawn_command x y)"

lemmas client_request_intros = client_request.intros
  client_request.choice [simplified] client_request.repick [simplified]

lemma on_board_move:
  "on_board x y \<Longrightarrow> on_board (clamp_int (x + d) 0 (GRID_W - 1)) y"
  "on_board x y \<Longrightarrow> on_board x (clamp_int (y + d) 0 (GRID_H - 1))"
  by (auto simp: on_board_def clamp_int_def GRID_W_def GRID_H_def)

lemma to_upper_rps [simp]:
  "to_upper (CHR ''r'') = CHR ''R''" "to_upper (CHR ''p'') = CHR ''P''" "to_upper (CHR ''s'') = CHR ''S''"
  "to_upper (CHR ''R'') = CHR ''R''" "to_upper (CHR ''P'') = CHR ''P''" "to_upper (CHR ''S'') = CHR ''S''"
  by code_simp+

lemma rps_key_char: "rps_key k = Some ch \<Longrightarrow> rps_char ch"
  by (auto simp: rps_key_def rps_char_def split: Key.splits if_splits)

lemma parse_choice_arg_char: "parse_choice_arg v = Some c \<Longrightarrow> rps_char c"
  by (auto simp: parse_choice_arg_def rps_char_def Let_def split: option.splits list.splits if_splits)

lemma parse_spawn_arg_range: "parse_spawn_arg v n = Some k \<Longrightarrow> 0 \<le> k \<and> k < n"
  by (auto simp: parse_spawn_arg_def split: option.splits prod.splits if_splits)

lemma parse_args_ok: "parse_args args = Some (name, auto) \<Longrightarrow> auto_ok auto"
proof -
  have a: "auto_join_args c x y = Some auto \<Longrightarrow> auto_ok auto" for c x y
    using parse_choice_arg_char parse_spawn_arg_range
    by (fastforce simp: auto_join_args_def auto_ok_def on_board_def no_auto_join_def split: option.splits)
  assume "parse_args args = Some (name, auto)"
  then show ?thesis
    by (cases args rule: parse_args.cases) (auto dest: a simp: auto_ok_def no_auto_join_def)
qed

locale client_inv =
  fixes I :: "Client \<Rightarrow> bool" and env :: Env
  assumes inv_pump: "I c \<Longrightarrow> I (pump_step env es c)"
    and inv_hello: "I c \<Longrightarrow> I (maybe_send_hello env c)"
    and inv_send: "I c \<Longrightarrow> client_request t \<Longrightarrow> I (snd (send_command_checked env t c))"
    and inv_requested: "I c \<Longrightarrow> I (on_state (\<lambda>st. st\<lparr>cs_state_request_sent := b\<rparr>) c)"
    and inv_edit: "I c \<Longrightarrow> length n < MAX_NAME_LENGTH \<Longrightarrow>
      (\<And>ch. ch \<in> set n \<Longrightarrow> ch \<in> set (cs_name_input (cl_state c)) \<or> is_valid_name_char ch) \<Longrightarrow>
      I (on_state (\<lambda>st. st\<lparr>cs_name_input := n\<rparr>) c)"
    and inv_name: "I c \<Longrightarrow> length (cs_name_input (cl_state c)) < MAX_NAME_LENGTH"
    and inv_name_edit: "I c \<Longrightarrow> I (c\<lparr>cl_name_edit := b\<rparr>)"
    and inv_cursor: "I c \<Longrightarrow> on_board (cl_cursor_x c) (cl_cursor_y c)"
    and inv_move: "I c \<Longrightarrow> on_board x y \<Longrightarrow> I (c\<lparr>cl_cursor_x := x, cl_cursor_y := y\<rparr>)"
    and inv_auto: "I c \<Longrightarrow> auto_ok (cl_auto c)"
    and inv_auto_step: "I c \<Longrightarrow> auto_ok a \<Longrightarrow> I (c\<lparr>cl_auto := a\<rparr>)"
    and inv_clock: "I c \<Longrightarrow> I (c\<lparr>cl_clock_pos := k\<rparr>)"
begin

lemma send_and_mark_inv: "I c \<Longrightarrow> client_request t \<Longrightarrow> I (snd (send_and_mark env t b c))"
  using inv_send [of c t] by (auto simp: send_and_mark_def intro: inv_requested split: status.split prod.split)

lemma request_state_inv: "I c \<Longrightarrow> I (request_state env c)"
  by (simp add: request_state_def send_and_mark_inv client_request.intros)

lemma auto_ok_sent [simp]:
  "auto_ok (a\<lparr>aj_hello_sent := b\<rparr>) = auto_ok a" "auto_ok (a\<lparr>aj_choice_sent := b\<rparr>) = auto_ok a"
  "auto_ok (a\<lparr>aj_spawn_sent := b\<rparr>) = auto_ok a"
  by (simp_all add: auto_ok_def)

lemma auto_hello_inv: "I c \<Longrightarrow> I (auto_hello env c)"
  by (simp add: auto_hello_def Let_def inv_auto_step inv_auto inv_hello)

lemma auto_choice_inv:
  assumes "I c" and "aj_enabled (cl_auto c)"
  shows "I (auto_choice env c)"
proof -
  have "client_request (''CHOICE '' @ [aj_choice (cl_auto c)])"
    using inv_auto [OF assms(1)] assms(2) by (auto simp: auto_ok_def intro: client_request_intros)
  from send_and_mark_inv [OF assms(1) this, of False] assms(1) show ?thesis
    by (auto simp: auto_choice_def inv_auto_step inv_auto split: status.split prod.split)
qed

lemma auto_spawn_inv:
  assumes "I c" and "aj_enabled (cl_auto c)"
  shows "I (auto_spawn env c)"
proof -
  have "client_request (spawn_command (aj_spawn_x (cl_auto c)) (aj_spawn_y (cl_auto c)))"
    using inv_auto [OF assms(1)] assms(2) by (auto simp: auto_ok_def intro: client_request.spawn)
  from send_and_mark_inv [OF assms(1) this, of False] assms(1) show ?thesis
    by (auto simp: auto_spawn_def inv_auto_step inv_auto split: status.split prod.split)
qed

lemma send_command_auto [simp]: "cl_auto (snd (send_command_checked env t c)) = cl_auto c"
  by (auto simp: send_command_checked_def Let_def split: status.split prod.split)

lemma auto_enabled [simp]:
  "aj_enabled (cl_auto (auto_hello env c)) = aj_enabled (cl_auto c)"
  "aj_enabled (cl_auto (auto_choice env c)) = aj_enabled (cl_auto c)"
proof -
  have s: "cl_auto v = cl_auto c" if "send_command_checked env t c = (r, v)" for t r v c
    using send_command_auto [of t c] that by simp
  show "aj_enabled (cl_auto (auto_hello env c)) = aj_enabled (cl_auto c)"
    by (auto simp: auto_hello_def maybe_send_hello_def Let_def split: status.split prod.split dest!: s)
  show "aj_enabled (cl_auto (auto_choice env c)) = aj_enabled (cl_auto c)"
    by (auto simp: auto_choice_def send_and_mark_def split: status.splits prod.splits dest!: s)
qed

lemma auto_join_step_inv: "I c \<Longrightarrow> I (auto_join_step env c)"
  by (simp add: auto_join_step_def Let_def auto_spawn_inv auto_choice_inv auto_hello_inv)

lemma edit_name_key_inv: "I c \<Longrightarrow> edit_name_key env k c = Some c' \<Longrightarrow> I c'"
  using inv_name [of c]
  by (auto simp: edit_name_key_def inv_name_edit inv_hello split: if_splits Key.splits
      intro!: inv_edit dest: in_set_butlastD)

lemma spawn_key_inv: "I c \<Longrightarrow> I (spawn_key env k c)"
  by (simp add: spawn_key_def send_and_mark_inv client_request.spawn inv_cursor)

lemma match_key_inv: "I c \<Longrightarrow> I (match_key env k c)"
  by (auto simp: match_key_def spawn_key_inv inv_hello split: option.split
      intro!: send_and_mark_inv client_request_intros dest: rps_key_char)

lemma move_key_inv:
  assumes "I c"
  shows "I (move_key env k c)"
proof -
  have m: "I (c\<lparr>cl_cursor_x := x\<rparr>)" if "on_board x (cl_cursor_y c)" for x
    using inv_move [OF assms that] by simp
  have n: "I (c\<lparr>cl_cursor_y := y\<rparr>)" if "on_board (cl_cursor_x c) y" for y
    using inv_move [OF assms that] by simp
  note b = on_board_move [OF inv_cursor [OF assms]]
  show ?thesis
    using b(1) [of 1] b(1) [of "- 1"] b(2) [of 1] b(2) [of "- 1"]
    by (auto simp: move_key_def assms split: Key.split intro: m n match_key_inv)
qed

lemma handle_key_inv: "I c \<Longrightarrow> I (handle_key env k c)"
  by (auto simp: handle_key_def request_state_inv inv_name_edit move_key_inv split: option.split
      intro: edit_name_key_inv)

lemma key_loop_inv: "I c \<Longrightarrow> key_loop env ks c = (b, c') \<Longrightarrow> I c'"
  by (induction ks arbitrary: c) (auto split: if_splits intro: handle_key_inv)

lemma client_frame_inv: "I c \<Longrightarrow> client_frame env fr c = (b, c', scr) \<Longrightarrow> I c'"
  by (auto simp: client_frame_def Let_def split: prod.splits if_splits
      intro!: inv_clock request_state_inv auto_join_step_inv inv_pump elim!: key_loop_inv [rotated])

lemma client_loop_inv: "I c \<Longrightarrow> pred_option I (client_of (client_loop env fd frs c))"
proof (induction frs arbitrary: c)
  case (Cons fr frs)
  obtain b c' scr where f: "client_frame env fr c = (b, c', scr)" by (metis prod_cases3)
  from client_frame_inv [OF Cons.prems f] Cons.IH show ?case
    by (simp add: f inv_send client_request.quit)
qed simp

end

end
