(* ===== verification/Client_Props.thy ===== *)
theory Client_Props
  imports Client_Contract
begin

text \<open>
  The invariant of the terminal client: the status line, the names and the player table stay
  within their arrays, no name is listed twice, the cursor stays on the board and no complete
  line waits in the input buffer between two frames.
\<close>

section \<open>The state\<close>

definition client_state_ok :: "ClientState \<Rightarrow> bool" where
  "client_state_ok st \<longleftrightarrow>
     table_ok (cs_players st) \<and> length (cs_status_text st) < STATUS_SIZE \<and>
     length (cs_name_input st) < MAX_NAME_LENGTH \<and> length (cs_pending_name st) < MAX_NAME_LENGTH \<and>
     length (cs_my_name st) < MAX_NAME_LENGTH \<and> cs_match_result st \<in> {- 1, 0, 1} \<and>
     fp_ok F64 (cs_lobby_end_time st) \<and> fp_ok F64 (cs_setup_end_time st) \<and> fp_ok F64 (cs_round_end_time st)"

interpretation cst: client_state_inv client_state_ok
  by unfold_locales (auto simp: client_state_ok_def same_data_def)

section \<open>Commands, keys, frames\<close>

definition client_ok :: "Client \<Rightarrow> bool" where
  "client_ok c \<longleftrightarrow> client_state_ok (cl_state c) \<and> net_ok (cl_net c) \<and>
     on_board (cl_cursor_x c) (cl_cursor_y c) \<and> auto_ok (cl_auto c)"

lemma client_ok_fields [simp]:
  "client_ok (c\<lparr>cl_name_edit := b\<rparr>) = client_ok c"
  "client_ok (c\<lparr>cl_clock_pos := k\<rparr>) = client_ok c"
  "client_ok (c\<lparr>cl_commands := k\<rparr>) = client_ok c"
  "client_ok (c\<lparr>cl_wire := t\<rparr>) = client_ok c"
  by (simp_all add: client_ok_def)

lemma client_ok_state:
  "client_ok c \<Longrightarrow> (client_state_ok (cl_state c) \<Longrightarrow> client_state_ok st) \<Longrightarrow> client_ok (c\<lparr>cl_state := st\<rparr>)"
  by (simp add: client_ok_def)

lemma send_command_checked_ok: "client_ok c \<Longrightarrow> client_ok (snd (send_command_checked env t c))"
  by (auto simp: send_command_checked_def Let_def split: status.split prod.split intro!: client_ok_state)

lemma maybe_send_hello_ok: "client_ok c \<Longrightarrow> client_ok (maybe_send_hello env c)"
proof -
  assume c: "client_ok c"
  let ?n = "snprintf_str MAX_NAME_LENGTH (cs_name_input (cl_state c))"
  have "client_ok (on_state (\<lambda>st. st\<lparr>cs_pending_name := ?n\<rparr>) c)"
    using c by (rule client_ok_state) (simp add: client_state_ok_def)
  from send_command_checked_ok [OF this, of env "''HELLO '' @ ?n"] c show ?thesis
    by (auto simp: maybe_send_hello_def Let_def split: status.split prod.split intro!: client_ok_state)
qed

lemma pump_step_ok:
  assumes "client_ok c"
  shows "client_ok (pump_step env es c)"
proof -
  obtain k p st where p: "pump_client_network (\<lambda>k. rps_now_seconds (env_clock env k)) es (cl_clock_pos c, cl_net c, cl_state c) = (k, p, st)"
    by (metis prod_cases3)
  with cst.pump_client_network_ok [OF _ _ _ p] assms show ?thesis by (simp add: pump_step_def client_ok_def)
qed

interpretation cli: client_inv client_ok env for env
proof unfold_locales
  fix c and n :: string
  assume "client_ok c" and "length n < MAX_NAME_LENGTH"
  then show "client_ok (on_state (\<lambda>st. st\<lparr>cs_name_input := n\<rparr>) c)"
    by (simp add: client_ok_def client_state_ok_def)
qed (simp_all add: pump_step_ok maybe_send_hello_ok send_command_checked_ok client_ok_state,
    simp_all add: client_ok_def client_state_ok_def)

lemma zero_player_inbuf [simp]: "p_inbuf (zero_player\<lparr>p_fd := fd\<rparr>) = []"
  by (simp add: zero_player_def)

lemma client_begin_ok: "auto_ok auto \<Longrightarrow> client_ok (client_begin fd name auto)"
  by (simp add: client_begin_def client_ok_def net_ok_def on_board_def GRID_W_def GRID_H_def INBUF_SIZE_def
      client_state_ok_def init_client_state_def STATUS_SIZE_def flip: clear_players_def)

lemma client_process_ok: "pred_option client_ok (client_of (client_process env calls args frs))"
proof (cases "parse_args args")
  case (Some na)
  then obtain name auto where a: "parse_args args = Some (name, auto)" by (cases na) auto
  then have "client_ok (client_start env fd name auto)" for fd
    unfolding client_start_def by (intro cli.request_state_inv client_begin_ok parse_args_ok)
  from cli.client_loop_inv [OF this] show ?thesis
    by (simp add: client_process_def a split: prod.split)
qed (simp add: client_process_def)

lemma client_loop_some: "client_of (client_loop env fd frs c) \<noteq> None"
  by (induction frs arbitrary: c) (auto split: prod.split)

definition client_bounded :: "Client \<Rightarrow> bool" where
  "client_bounded c \<longleftrightarrow>
     (let st = cl_state c; tab = cs_players st
      in length (cs_status_text st) < STATUS_SIZE \<and> length (cs_name_input st) < MAX_NAME_LENGTH \<and>
         length (cs_pending_name st) < MAX_NAME_LENGTH \<and> length (cs_my_name st) < MAX_NAME_LENGTH \<and>
         (\<forall>i. length (cp_name (tab i)) < MAX_NAME_LENGTH \<and> (MAX_PLAYERS \<le> i \<longrightarrow> \<not> cp_used (tab i))) \<and>
         (\<forall>i j. cp_used (tab i) \<longrightarrow> cp_used (tab j) \<longrightarrow> cp_name (tab i) = cp_name (tab j) \<longrightarrow> i = j)) \<and>
     newline \<notin> set (p_inbuf (cl_net c)) \<and> length (p_inbuf (cl_net c)) < INBUF_SIZE \<and>
     on_board (cl_cursor_x c) (cl_cursor_y c)"

text \<open>
  C5. Whatever arguments, bytes, keys and clock readings the client gets: after any number of
  frames its status line, names and input buffer are within their arrays, no name is listed twice
  in its player table, no complete line is left unread, and its cursor is on the board.
\<close>

theorem client_invariant: "pred_option client_bounded (client_of (client_process env calls args frs))"
  by (rule option.pred_mono_strong [OF client_process_ok])
    (simp add: client_bounded_def client_ok_def client_state_ok_def table_ok_def entry_ok_def net_ok_def Let_def)

end
