(* ===== verification/Command_Props.thy ===== *)
theory Command_Props
  imports Match_Props
begin

text \<open>
  The command handlers of \<open>src/src/server_commands.c\<close>: dispatch, registration, what admission keeps,
  and how far the reservation of a spawn goes. \<open>Admission\<close> puts them together.
\<close>

section \<open>Dispatch\<close>

lemma parse_command_word:
  assumes "CHR '' '' \<notin> set cmd" and "cmd \<noteq> []" and "length cmd < n"
  shows "parse_command cmd n = Some (cmd, None)"
  using assms by (simp add: parse_command_def snprintf_str_def)

lemma parse_command_args:
  assumes "CHR '' '' \<notin> set cmd" and "cmd \<noteq> []" and "length cmd < n"
    and "args \<noteq> []" and "hd args \<noteq> CHR '' ''"
  shows "parse_command (cmd @ replicate (Suc k) (CHR '' '') @ args) n = Some (cmd, Some args)"
proof -
  define sp where "sp = replicate (Suc k) (CHR '' '')"
  have t: "takeWhile (\<lambda>c. c \<noteq> CHR '' '') (cmd @ sp @ args) = cmd"
    using assms(1) takeWhile_append_stop [of "CHR '' ''" cmd "replicate k (CHR '' '') @ args"]
    by (simp add: sp_def)
  have "dropWhile (\<lambda>c. c = CHR '' '') (replicate m (CHR '' '') @ args) = args" for m
    using assms(4,5) by (induction m) (cases args, simp_all)
  then have d: "dropWhile (\<lambda>c. c = CHR '' '') (sp @ args) = args" unfolding sp_def .
  have "CHR '' '' \<in> set (cmd @ sp @ args)" by (simp add: sp_def)
  then show ?thesis
    using assms(2,3,4) t d unfolding sp_def [symmetric]
    by (simp add: parse_command_def Let_def)
qed

text \<open>The protocol's commands with their handlers.\<close>

definition handlers :: "(string \<times> (nat \<Rightarrow> string option \<Rightarrow> World \<Rightarrow> World)) list" where
  "handlers =
     [(''HELLO'', handle_hello_command), (''GET_STATE'', \<lambda>i _. handle_get_state_command i),
      (''CHOICE'', handle_choice_command), (''SPAWN'', handle_spawn_command),
      (''REPICK'', handle_repick_command), (''REMATCH'', \<lambda>i _. handle_rematch_command i),
      (''QUIT'', \<lambda>i _. handle_quit_command i)]"

definition command_line :: "string \<Rightarrow> nat \<Rightarrow> string option \<Rightarrow> string" where
  "command_line cmd k args =
     cmd @ (case args of None \<Rightarrow> [] | Some a \<Rightarrow> replicate (Suc k) (CHR '' '') @ a)"

definition good_args :: "string option \<Rightarrow> bool" where
  "good_args args \<longleftrightarrow> (case args of None \<Rightarrow> True | Some a \<Rightarrow> a \<noteq> [] \<and> hd a \<noteq> CHR '' '')"

text \<open>
  A line made of a command word, spaces and arguments reaches the handler of that word with
  exactly those arguments, a word alone reaches it without; any other word that fits the buffer
  is answered with ERROR bad_command and does nothing else.
\<close>

lemma dispatch:
  assumes "CHR '' '' \<notin> set cmd" and "cmd \<noteq> []" and "length cmd < 16" and "good_args args"
  shows "handle_command i (command_line cmd k args) w =
    (case map_of handlers cmd of
       Some h \<Rightarrow> h i args w
     | None \<Rightarrow> say i ''ERROR bad_command'' w)"
proof -
  have "parse_command (command_line cmd k args) 16 = Some (cmd, args)"
    using assms parse_command_word [of cmd 16] parse_command_args [of cmd 16 _ k]
    by (cases args) (auto simp: command_line_def good_args_def)
  then show ?thesis by (simp add: handle_command_def handlers_def)
qed

section \<open>Registration\<close>

lemma say_frame [simp]:
  "j \<noteq> i \<Longrightarrow> players (say i t w) j = players w j"
  "p_registered (players (say i t w) j) = p_registered (players w j)"
  "p_name (players (say i t w) j) = p_name (players w j)"
  "p_connected (players (say i t w) j) = p_connected (players w j)"
  "p_admitted (players (say i t w) j) = p_admitted (players w j)"
  "p_id (players (say i t w) j) = p_id (players w j)"
  "join_deadline (say i t w) = join_deadline w"
  by (auto simp: say_def queue_line_eq)

definition name_taken :: "World \<Rightarrow> string \<Rightarrow> bool" where
  "name_taken w n \<longleftrightarrow> (\<exists>j < MAX_PLAYERS. player_is_registered (players w j) \<and> p_name (players w j) = n)"

text \<open>
  HELLO registers a client exactly when its argument starts with a name that no registered
  client has; the client then has that name, at most 31 characters without white space, is not
  admitted, and no other slot, nor the phase or the lobby, has changed.
\<close>

lemma hello_effect:
  assumes "p_connected (players w i)" and "\<not> p_registered (players w i)"
  shows "let v = handle_hello_command i args w; p = players v i in
    (p_registered p \<longleftrightarrow> (\<exists>n. scan_name args = Some n \<and> \<not> name_taken w n)) \<and>
    (p_registered p \<longrightarrow> scan_name args = Some (p_name p) \<and> valid_name (p_name p) \<and> \<not> p_admitted p) \<and>
    (\<forall>j. j \<noteq> i \<longrightarrow> players v j = players w j) \<and> phase v = phase w \<and> join_deadline v = join_deadline w"
proof -
  have lob: "players (queue_lobby_status_for_player i v) j = players v j" if "j \<noteq> i" for v j
    using that by (simp add: queue_lobby_status_for_player_def Let_def)
  have lobi: "p_registered (players (queue_lobby_status_for_player i v) i) = p_registered (players v i)"
    "p_name (players (queue_lobby_status_for_player i v) i) = p_name (players v i)"
    "p_admitted (players (queue_lobby_status_for_player i v) i) = p_admitted (players v i)"
    "phase (queue_lobby_status_for_player i v) = phase v"
    "join_deadline (queue_lobby_status_for_player i v) = join_deadline v" for v
    by (simp_all add: queue_lobby_status_for_player_def Let_def)
  show ?thesis
  proof (cases "scan_name args")
    case None
    then show ?thesis using assms by (simp add: handle_hello_command_def Let_def)
  next
    case (Some n)
    note n = scan_name_valid [OF Some]
    have f: "(find_name w n = None) \<longleftrightarrow> \<not> name_taken w n"
      by (auto simp: find_name_None name_taken_def)
    have r: "p_name (register_player n p) = n" "\<not> p_admitted (register_player n p)" for p
      using n by (simp_all add: register_player_def reset_player_progress_def valid_name_snprintf)
    show ?thesis
      using assms Some n f
      by (simp add: handle_hello_command_def Let_def lob lobi r split: if_splits)
  qed
qed

section \<open>Admission\<close>

lemma lobby_reevaluate: "phase w = PHASE_LOBBY_OPEN \<Longrightarrow> reevaluate_state w = reevaluate_lobby_open w"
  by (simp add: reevaluate_state_eq [of w] reevaluate_with_def)

text \<open>In the lobby, the slot \<open>i\<close> if still connected is admitted and waits for the round.\<close>

definition waits :: "nat \<Rightarrow> World \<Rightarrow> bool" where
  "waits i w \<longleftrightarrow> phase w = PHASE_LOBBY_OPEN \<and>
     (p_connected (players w i) \<longrightarrow> p_admitted (players w i) \<and> p_waiting (players w i))"

interpretation wts: engine_step_inv "waits i" for i
  by unfold_locales (auto simp: waits_def players_append_out players_drop_slot split: if_splits)

lemma admit_player_waits:
  assumes "phase w = PHASE_LOBBY_OPEN"
  shows "waits i (admit_player i w)"
proof -
  let ?v = "upd_player i (\<lambda>p. p\<lparr>p_admitted := True, p_waiting := True\<rparr>) w"
  obtain r u where q: "queue_or_drop i ''JOINED_MATCH'' ?v = (r, u)" by fastforce
  have "waits i ?v" using assms by (simp add: waits_def)
  from wts.queue_or_drop_inv [OF this, of i "''JOINED_MATCH''"] have "waits i u" by (simp add: q)
  then show ?thesis
    by (cases r) (auto simp: admit_player_def q intro!: wts.broadcast_game_state_inv wts.queue_broadcast_inv)
qed

section \<open>What goes wrong when the announcement drops a client\<close>

definition no_window :: "World \<Rightarrow> bool" where
  "no_window w \<longleftrightarrow> phase w = PHASE_LOBBY_OPEN \<and> join_deadline w = 0"

interpretation now: engine_step_inv no_window
  by unfold_locales (auto simp: no_window_def)

lemma admitted_set_sub_0: "admitted_set w = {} \<Longrightarrow> (\<And>j. player_is_admitted (players v j) \<Longrightarrow> player_is_admitted (players w j)) \<Longrightarrow>
  admitted_count v = 0"
  by (auto simp: admitted_count_card admitted_set_def)

lemma players_fold_drops:
  "players (fold drop_slot is w) j =
     (if j \<in> set is \<and> p_connected (players w j) then empty_slot else players w j)"
  by (induction "is" arbitrary: w) (auto simp: players_drop_slot)

lemma phase_fold_drop [simp]: "phase (fold drop_slot is w) = phase w"
  by (induction "is" arbitrary: w) simp_all

text \<open>The broadcast that opens the window, when somebody has no room for it.\<close>

lemma opening_dropped:
  assumes ph: "phase w = PHASE_LOBBY_OPEN" and none: "admitted_set w = {}"
    and j: "j < MAX_PLAYERS" "p_connected (players w j)" "\<not> room (cstr (snprintf_str MAX_LINE t)) (players w j)"
  shows "no_window (queue_broadcast t w) \<and> players (queue_broadcast t w) j = empty_slot"
proof -
  define line where "line = cstr (snprintf_str MAX_LINE t)"
  obtain v d where b: "broadcast_loop line w = (v, d)" by fastforce
  note r = broadcast_loop_result [of line w, unfolded b fst_conv snd_conv]
  define u where "u = fold drop_slot d v"
  have jd: "j \<in> set d" and vj: "p_connected (players v j)" using r j by (auto simp: line_def)
  have "v = w\<lparr>players := players v\<rparr>" using r by blast
  then have "phase v = phase w" by (metis ServerState.select_convs(4) ServerState.surjective ServerState.update_convs(1))
  then have phu: "phase u = PHASE_LOBBY_OPEN" using ph by (simp add: u_def)
  have "player_is_admitted (players v k) = player_is_admitted (players w k)" for k
    using r by (simp add: player_is_admitted_def)
  then have "player_is_admitted (players u k) \<Longrightarrow> player_is_admitted (players w k)" for k
    by (auto simp: u_def players_fold_drops player_is_admitted_def split: if_splits)
  then have "admitted_count u = 0" using none by (rule admitted_set_sub_0 [rotated])
  then have "queue_broadcast t w = u\<lparr>join_deadline := 0\<rparr>"
    using jd lobby_reevaluate [OF phu]
    by (auto simp: queue_broadcast_def queue_broadcast_with_def b Let_def reevaluate_lobby_open_def
        simp flip: line_def u_def)
  moreover have "players u j = empty_slot" using jd vj by (simp add: u_def players_fold_drops)
  ultimately show ?thesis using phu by (simp add: no_window_def)
qed

definition first_ready :: "World \<Rightarrow> nat \<Rightarrow> bool" where
  "first_ready w i \<longleftrightarrow> phase w = PHASE_LOBBY_OPEN \<and> join_deadline w = 0 \<and> admitted_set w = {} \<and>
     player_is_registered (players w i) \<and> \<not> p_admitted (players w i) \<and>
     p_choice_chosen (players w i) \<and> p_spawn_chosen (players w i)"

definition opening_line :: string where
  "opening_line = ''LOBBY_OPEN 60''"

lemma opening_line_eq:
  "''LOBBY_OPEN '' @ int_str JOIN_WINDOW_SECONDS = opening_line"
  "cstr (snprintf_str MAX_LINE opening_line) = opening_line"
  by code_simp+

lemma maybe_admit_first:
  assumes "first_ready w i"
  shows "maybe_admit_player i w =
    admit_player i (queue_broadcast opening_line (time_tick (w\<lparr>join_deadline := time_now w + JOIN_WINDOW_SECONDS\<rparr>)))"
  using assms by (simp add: maybe_admit_player_def first_ready_def player_is_registered_def Let_def
      opening_line_eq(1) [symmetric])

definition ready_player :: Player where
  "ready_player = zero_player\<lparr>p_id := 1, p_connected := True, p_registered := True, p_name := ''ann'',
     p_choice := CHR ''R'', p_choice_chosen := True, p_spawn_chosen := True\<rparr>"

text \<open>One player is ready in a fresh lobby; a spectator's output buffer holds \<open>n\<close> bytes.\<close>

definition ready_world :: "nat \<Rightarrow> World" where
  "ready_world n = upd_player 1 (\<lambda>_. zero_player\<lparr>p_connected := True, p_outbuf := replicate n (CHR ''x'')\<rparr>)
     (upd_player 0 (\<lambda>_. ready_player) (init_server_state (\<lambda>_. 0)))"

lemma ready_world_facts:
  "phase (ready_world n) = PHASE_LOBBY_OPEN" "join_deadline (ready_world n) = 0"
  "players (ready_world n) 0 = ready_player" "p_connected (players (ready_world n) 1)"
  "p_outbuf (players (ready_world n) 1) = replicate n (CHR ''x'')"
  "player_is_registered ready_player" "\<not> p_admitted ready_player" "p_choice_chosen ready_player"
  "p_spawn_chosen ready_player" "p_connected ready_player"
  by (simp_all add: ready_world_def ready_player_def init_server_state_def zero_player_def player_is_registered_def)

lemma first_ready_world: "first_ready (ready_world n) 0"
  by (simp add: first_ready_def ready_world_facts)
    (auto simp: admitted_set_def player_is_admitted_def ready_world_def ready_player_def init_server_state_def
      zero_player_def)

text \<open>The slot \<open>i\<close> is not connected and yet flagged as admitted, with output nobody will get.\<close>

definition ghost :: "nat \<Rightarrow> World \<Rightarrow> bool" where
  "ghost i w \<longleftrightarrow> phase w = PHASE_LOBBY_OPEN \<and> \<not> p_connected (players w i) \<and>
     p_admitted (players w i) \<and> p_waiting (players w i) \<and> prefix ''JOINED_MATCH'' (p_outbuf (players w i))"

interpretation gst: engine_step_inv "ghost i" for i
  by unfold_locales
    (auto simp: ghost_def players_append_out players_drop_slot intro: prefix_prefix)

text \<open>
  C35. If the player who is ready is itself the client without room, its slot is cleared by the
  drop but the admission goes on: the free slot is flagged as admitted and gets output.
\<close>

theorem dropped_player_admitted:
  assumes "first_ready w i" and "i < MAX_PLAYERS" and "\<not> room opening_line (players w i)"
  shows "\<not> p_connected (players (maybe_admit_player i w) i) \<and> p_admitted (players (maybe_admit_player i w) i) \<and>
    p_outbuf (players (maybe_admit_player i w) i) \<noteq> []"
proof -
  let ?v = "time_tick (w\<lparr>join_deadline := time_now w + JOIN_WINDOW_SECONDS\<rparr>)"
  let ?u = "queue_broadcast opening_line ?v"
  have u: "no_window ?u" "players ?u i = empty_slot"
    using assms opening_dropped [of ?v i opening_line]
    by (simp_all add: opening_line_eq first_ready_def admitted_set_def player_is_registered_def)
  let ?a = "upd_player i (\<lambda>p. p\<lparr>p_admitted := True, p_waiting := True\<rparr>) ?u"
  have q: "queue_or_drop i ''JOINED_MATCH'' ?a = (Success, append_out i (''JOINED_MATCH'' @ [newline]) ?a)"
    using u(2) by (simp add: queue_or_drop_def queue_to_eq cstr_def room_def MAX_LINE_def OUTBUF_SIZE_def)
  have "ghost i (append_out i (''JOINED_MATCH'' @ [newline]) ?a)"
    using u by (simp add: ghost_def players_append_out no_window_def)
  then have "ghost i (maybe_admit_player i w)"
    unfolding maybe_admit_first [OF assms(1)]
    by (auto simp: admit_player_def q intro!: gst.broadcast_game_state_inv gst.queue_broadcast_inv)
  then show ?thesis by (auto simp: ghost_def)
qed


text \<open>The player who is ready has a full output buffer.\<close>

definition stuck_world :: World where
  "stuck_world = upd_player 0 (\<lambda>p. p\<lparr>p_outbuf := replicate 8192 (CHR ''x'')\<rparr>) (ready_world 0)"

theorem dropped_player_admitted_witness:
  "\<not> p_connected (players (maybe_admit_player 0 stuck_world) 0) \<and>
   p_admitted (players (maybe_admit_player 0 stuck_world) 0)"
proof -
  have "first_ready stuck_world 0"
    using first_ready_world [of 0]
    by (auto simp: first_ready_def stuck_world_def admitted_set_def player_is_admitted_def player_is_registered_def)
  moreover have "\<not> room opening_line (players stuck_world 0)"
    by (simp add: stuck_world_def room_def OUTBUF_SIZE_def)
  ultimately show ?thesis
    using dropped_player_admitted [of stuck_world 0] by (simp add: MAX_PLAYERS_def)
qed

section \<open>The reservation of spawns\<close>

lemma small_int_value:
  assumes "0 \<le> a" and "a < 10"
  shows "fp_fin (fp_of_int F32 a) \<and> fpval (fp_of_int F32 a) = of_int a"
proof -
  have "a = 0 \<or> a = 1 \<or> a = 2 \<or> a = 3 \<or> a = 4 \<or> a = 5 \<or> a = 6 \<or> a = 7 \<or> a = 8 \<or> a = 9"
    using assms by presburger
  moreover have "fp_of_int F32 0 = FFin False 0 (- 149)" "fp_of_int F32 1 = FFin False 8388608 (- 23)"
    "fp_of_int F32 2 = FFin False 8388608 (- 22)" "fp_of_int F32 3 = FFin False 12582912 (- 22)"
    "fp_of_int F32 4 = FFin False 8388608 (- 21)" "fp_of_int F32 5 = FFin False 10485760 (- 21)"
    "fp_of_int F32 6 = FFin False 12582912 (- 21)" "fp_of_int F32 7 = FFin False 14680064 (- 21)"
    "fp_of_int F32 8 = FFin False 8388608 (- 20)" "fp_of_int F32 9 = FFin False 9437184 (- 20)"
    by code_simp+
  ultimately show ?thesis by (auto simp: with_sign_def power_int_def power_divide)
qed

lemma fp_eq_whole:
  assumes "0 \<le> a" and "a < 10"
  shows "fp_eq x (fp_of_int F32 a) \<longleftrightarrow> fp_fin x \<and> fpval x = of_int a"
proof (cases "fp_fin x")
  case True
  with small_int_value [OF assms] show ?thesis by (simp add: fp_eq_val)
next
  case False
  obtain s m e where "fp_of_int F32 a = FFin s m e"
    using small_int_value [OF assms] by (cases "fp_of_int F32 a") auto
  with False show ?thesis by (cases x) simp_all
qed

text \<open>
  A spawn counts as taken exactly when another admitted player stands, to the last bit, at
  the corner of that cell.
\<close>

lemma spawn_taken_iff:
  assumes "0 \<le> a" "a < 10" and "0 \<le> b" "b < 10"
  shows "spawn_taken w a b i \<longleftrightarrow>
    (\<exists>j < MAX_PLAYERS. j \<noteq> i \<and> player_is_admitted (players w j) \<and> p_spawn_chosen (players w j) \<and>
       fp_fin (p_x (players w j)) \<and> fp_fin (p_y (players w j)) \<and>
       fpval (p_x (players w j)) = of_int a \<and> fpval (p_y (players w j)) = of_int b)"
  using assms by (auto simp: spawn_taken_def first_slot_def find_None_iff fp_eq_whole)

definition two_and_a_half :: fp where
  "two_and_a_half = FFin False 10485760 (- 22)"

text \<open>The answer to SPAWN with a fractional point, unless somebody stands at the corner of its cell.\<close>

lemma fractional_spawn:
  assumes "p_registered (players w i)" and "\<not> p_admitted (players w i)"
    and "\<And>j. j \<noteq> i \<Longrightarrow> player_is_admitted (players w j) \<Longrightarrow> fpval (p_x (players w j)) \<noteq> 2 \<or> fpval (p_y (players w j)) \<noteq> 2"
  shows "handle_spawn_command i (Some ''2.5 2.5'') w =
    maybe_admit_player i (say i ''SPAWN_OK 2.5 2.5''
      (upd_player i (\<lambda>p. p\<lparr>p_x := two_and_a_half, p_y := two_and_a_half, p_spawn_chosen := True\<rparr>) w))"
proof -
  have s: "scan_spawn (Some ''2.5 2.5'') = Some (two_and_a_half, two_and_a_half)" by code_simp
  have g: "\<not> spawn_off_grid two_and_a_half two_and_a_half" "fp_to_int two_and_a_half = 2"
    "fixed_str 1 two_and_a_half = ''2.5''" by code_simp+
  have "\<not> spawn_taken w 2 2 i" using assms(3) by (auto simp: spawn_taken_iff)
  then show ?thesis
    using assms(1,2) by (simp add: handle_spawn_command_def require_registered_not_admitted_def s g Let_def
        del: One_nat_def)
qed

lemma not_at_INT_MIN:
  assumes "world_ok w" and "player_is_admitted (players w j)"
  shows "\<not> fp_eq (p_x (players w j)) (fp_of_int F32 INT_MIN)"
proof -
  have m: "fp_of_int F32 INT_MIN = FFin True 8388608 8" by code_simp
  have "coord_ok (p_x (players w j)) \<or> p_x (players w j) = fp_minus_one"
    using world_ok_slot [OF assms(1), of j] assms(2)
    by (auto simp: slot_ok_def setup_ok_def placed_def out_of_play_def player_is_admitted_def)
  then show ?thesis
  proof
    assume c: "coord_ok (p_x (players w j))"
    show ?thesis
    proof (cases "fp_is_nan (p_x (players w j))")
      case True
      then show ?thesis by (cases "p_x (players w j)") simp_all
    next
      case False
      with c have "fp_fin (p_x (players w j))" "0 \<le> fpval (p_x (players w j))"
        by (auto simp: coord_ok_def on_grid_def)
      then show ?thesis by (simp add: m fp_eq_val with_sign_def power_int_def)
    qed
  next
    assume "p_x (players w j) = fp_minus_one"
    then show ?thesis by (simp add: m fp_minus_one_def at_exp_def Let_def with_sign_def)
  qed
qed

text \<open>
  C36. SPAWN with NaN coordinates passes the check of the grid: the client is answered SPAWN_OK
  and placed at NaN, where no hunter ever reaches it.
\<close>

theorem nan_spawn_accepted:
  assumes "world_ok w" and "p_registered (players w i)" and "\<not> p_admitted (players w i)"
  shows "handle_spawn_command i (Some ''nan nan'') w =
    maybe_admit_player i (say i ''SPAWN_OK nan nan''
      (upd_player i (\<lambda>p. p\<lparr>p_x := FNaN False, p_y := FNaN False, p_spawn_chosen := True\<rparr>) w))"
proof -
  have s: "scan_spawn (Some ''nan nan'') = Some (FNaN False, FNaN False)" by code_simp
  have "\<not> spawn_off_grid (FNaN False) (FNaN False)" "fp_to_int (FNaN False) = INT_MIN"
    "fixed_str 1 (FNaN False) = ''nan''" by code_simp+
  moreover have "\<not> spawn_taken w INT_MIN INT_MIN i"
    using not_at_INT_MIN [OF assms(1)] by (auto simp: spawn_taken_def first_slot_def find_None_iff)
  ultimately show ?thesis
    using assms by (simp add: handle_spawn_command_def require_registered_not_admitted_def s Let_def
        del: One_nat_def)
qed


theorem nan_spawn_accepted_witness:
  "handle_spawn_command 0 (Some ''nan nan'') registered_one =
    maybe_admit_player 0 (say 0 ''SPAWN_OK nan nan''
      (upd_player 0 (\<lambda>p. p\<lparr>p_x := FNaN False, p_y := FNaN False, p_spawn_chosen := True\<rparr>) registered_one))"
  by (rule nan_spawn_accepted [OF world_ok_registered_one])
    (simp_all add: registered_one_def players_joined register_player_def
      reset_player_progress_def)

end
