(* ===== verification/Client_Server.thy ===== *)
theory Client_Server
  imports Client_Props Command_Props
begin

text \<open>
  The client and the server together: what the client puts on the wire is a sequence of lines the
  server's parsers accept, and the snapshot the server queues is the table the client ends up with.
\<close>

section \<open>What the client sends\<close>

text \<open>The server finds the arguments it asks for: no answer about usage or an illegal value.\<close>

definition well_formed_request :: "string \<Rightarrow> bool" where
  "well_formed_request t \<longleftrightarrow>
     (case parse_command t 16 of
        None \<Rightarrow> False
      | Some (cmd, args) \<Rightarrow>
          cmd \<in> {''GET_STATE'', ''REMATCH'', ''QUIT''} \<or>
          cmd = ''HELLO'' \<and> scan_name args \<noteq> None \<or>
          cmd \<in> {''CHOICE'', ''REPICK''} \<and> parse_rps_choice_arg args \<noteq> None \<or>
          cmd = ''SPAWN'' \<and> (case scan_spawn args of None \<Rightarrow> False | Some (x, y) \<Rightarrow> \<not> spawn_off_grid x y))"

definition sent_line :: "string \<Rightarrow> bool" where
  "sent_line t \<longleftrightarrow> clean_line t \<and> well_formed_request t"

lemma well_formed_args:
  assumes "CHR '' '' \<notin> set cmd" and "cmd \<noteq> []" and "length cmd < 16" and "a \<noteq> []" and "hd a \<noteq> CHR '' ''"
  shows "well_formed_request (cmd @ '' '' @ a) \<longleftrightarrow>
     cmd \<in> {''GET_STATE'', ''REMATCH'', ''QUIT''} \<or>
     cmd = ''HELLO'' \<and> scan_name (Some a) \<noteq> None \<or>
     cmd \<in> {''CHOICE'', ''REPICK''} \<and> parse_rps_choice_arg (Some a) \<noteq> None \<or>
     cmd = ''SPAWN'' \<and> (case scan_spawn (Some a) of None \<Rightarrow> False | Some (x, y) \<Rightarrow> \<not> spawn_off_grid x y)"
proof -
  have "parse_command (cmd @ '' '' @ a) 16 = Some (cmd, Some a)"
    using parse_command_args [of cmd 16 a 0] assms by simp
  then show ?thesis by (simp add: well_formed_request_def)
qed

lemma small_int_str: "0 \<le> x \<Longrightarrow> x < 10 \<Longrightarrow> int_str x = [digit_char x]"
  by (simp add: int_str_def nat_str.simps)

lemma digit_char_not:
  assumes "0 \<le> x" and "x < 10"
  shows "digit_char x \<noteq> CHR '' ''" and "digit_char x \<noteq> newline" and "digit_char x \<noteq> cret"
  using digit_not [of "digit_char x"] digit_char_simps(1) [OF assms]
  by (auto simp: is_space_def char_code_def is_digit_def)

lemma on_board_accepted:
  assumes "on_board x y"
  shows "\<not> spawn_off_grid (fp_of_int F32 x) (fp_of_int F32 y)"
proof -
  have ten: "fp_of_int F32 10 = FFin False 10485760 (- 20)" by code_simp
  have "\<not> fp_lt (fp_of_int F32 a) fp_zero \<and> \<not> fp_le (fp_of_int F32 10) (fp_of_int F32 a)" if "0 \<le> a" "a < 10" for a
    using that small_int_value [of a]
    by (simp add: fp_lt_val fp_le_val ten fp_zero_def with_sign_def power_int_def power_divide)
  with assms show ?thesis by (simp add: on_board_def GRID_W_def GRID_H_def spawn_off_grid_def)
qed

lemma client_request_sent: "client_request t \<Longrightarrow> sent_line t"
proof (induction rule: client_request.induct)
  case (spawn x y)
  then have r: "0 \<le> x" "x < 10" "0 \<le> y" "y < 10" by (simp_all add: on_board_def GRID_W_def GRID_H_def)
  let ?a = "int_str x @ '' '' @ int_str y"
  have "sscanf ''%f %f'' ?a = [VFlt (fp_of_int F32 x), VFlt (fp_of_int F32 y)]"
    using scan_flt_int_str [of "'' '' @ int_str y" x] scan_flt_int_str [of "[]" y] r
    by (simp add: sscanf_def is_space_def char_code_def small_int_str)
  then have "scan_spawn (Some ?a) = Some (fp_of_int F32 x, fp_of_int F32 y)" by (simp add: scan_spawn_def)
  moreover note on_board_accepted [OF spawn]
  ultimately have "well_formed_request (''SPAWN'' @ '' '' @ ?a)"
    by (subst well_formed_args) (simp_all add: r digit_char_not small_int_str)
  moreover have "clean_line (spawn_command x y)"
    using r digit_char_not digit_char_not [symmetric] by (simp add: clean_line_def spawn_command_def strip_cr_def small_int_str MAX_LINE_def)
  ultimately show ?case by (simp add: sent_line_def spawn_command_def)
qed (auto simp: sent_line_def clean_line_def strip_cr_def MAX_LINE_def well_formed_request_def rps_char_def
    parse_command_def parse_rps_choice_arg_def snprintf_str_def Let_def)

lemma hello_sent:
  assumes "list_all is_valid_name_char n" and "n \<noteq> []" and "length n < MAX_NAME_LENGTH"
  shows "sent_line (''HELLO '' @ n)"
proof -
  have v: "\<not> is_space c \<and> c \<noteq> CHR '' '' \<and> c \<noteq> newline \<and> c \<noteq> cret" if "c \<in> set n" for c
    using that assms(1) by (auto simp: list_all_iff is_valid_name_char_def is_space_def is_alpha_def is_digit_def char_code_def)
  then have "scan_name (Some n) = Some n"
    using assms(2,3) by (cases n) (auto simp: scan_name_eq Let_def skip_ws_def MAX_NAME_LENGTH_def)
  moreover have "hd n \<noteq> CHR '' ''" using v assms(2) by simp
  ultimately have "well_formed_request (''HELLO'' @ '' '' @ n)" using assms(2) by (subst well_formed_args) simp_all
  moreover have "clean_line (''HELLO '' @ n)"
    using v assms(2,3) v [OF last_in_set [OF assms(2)]]
    by (auto simp: clean_line_def strip_cr_def MAX_NAME_LENGTH_def MAX_LINE_def)
  ultimately show ?thesis by (simp add: sent_line_def)
qed

text \<open>A blocking socket on an open connection: every call of \<open>send\<close> takes at least one byte.\<close>

definition blocking :: "Env \<Rightarrow> bool" where
  "blocking env \<longleftrightarrow> (\<forall>k j. makes_progress (env_send env k j))"

lemma send_loop_all: "(\<And>j. makes_progress (src j)) \<Longrightarrow> send_loop src k done buf = (Success, done @ buf)"
proof (induction src k "done" buf rule: send_loop.induct)
  case (1 src k "done" buf)
  obtain n where n: "src k = Sent n" "0 < n"
    using 1(2) [of k] by (auto simp: makes_progress_def split: send_result.splits)
  with 1 show ?case by (simp add: send_loop.simps [of src k "done" buf])
qed

lemma send_blocking:
  assumes "blocking env" and "clean_line t"
  shows "send_command_checked env t c =
    (Success, c\<lparr>cl_commands := cl_commands c + 1, cl_wire := cl_wire c @ t @ [newline]\<rparr>)"
proof -
  have "send_line (env_send env (cl_commands c)) t = (Success, t @ [newline])"
    using assms by (simp add: send_line_def clean_line_def send_loop_all blocking_def MAX_LINE_def)
  then show ?thesis using assms(2) by (simp add: send_command_checked_def clean_line_def Let_def MAX_LINE_def)
qed

definition speaks :: "Client \<Rightarrow> bool" where
  "speaks c \<longleftrightarrow> list_all is_valid_name_char (cs_name_input (cl_state c)) \<and>
     (\<exists>ts. cl_wire c = wire ts \<and> list_all sent_line ts)"

lemma wire_append [simp]: "wire (ts @ us) = wire ts @ wire us"
  by (simp add: wire_def)

lemma speaks_send:
  assumes "blocking env" and "speaks c" and "sent_line t"
  shows "speaks (snd (send_command_checked env t c))"
proof -
  from assms(2) obtain ts where ts: "cl_wire c = wire ts" "list_all sent_line ts" by (auto simp: speaks_def)
  then have "cl_wire c @ t @ [newline] = wire (ts @ [t]) \<and> list_all sent_line (ts @ [t])"
    using assms(3) by simp
  moreover have "clean_line t" using assms(3) by (simp add: sent_line_def)
  ultimately show ?thesis
    using assms(1,2) by (auto simp: send_blocking speaks_def simp del: wire_append)
qed

lemma speaks_fields [simp]:
  "speaks (c\<lparr>cl_auto := a\<rparr>) = speaks c" "speaks (c\<lparr>cl_name_edit := b\<rparr>) = speaks c"
  "speaks (c\<lparr>cl_clock_pos := k\<rparr>) = speaks c" "speaks (c\<lparr>cl_cursor_x := x, cl_cursor_y := y\<rparr>) = speaks c"
  "cs_name_input st = cs_name_input (cl_state c) \<Longrightarrow> speaks (c\<lparr>cl_state := st\<rparr>) = speaks c"
  by (simp_all add: speaks_def)

text \<open>No line of the server touches the name being edited.\<close>

interpretation nin: client_state_inv "\<lambda>st. cs_name_input st = n" for n
  by unfold_locales (simp_all add: same_data_def)

lemma speaks_pump:
  assumes "client_ok c" and "speaks c"
  shows "speaks (pump_step env es c)"
proof -
  obtain k p st where p: "pump_client_network (\<lambda>k. rps_now_seconds (env_clock env k)) es (cl_clock_pos c, cl_net c, cl_state c) = (k, p, st)"
    by (metis prod_cases3)
  have "cs_name_input st = cs_name_input (cl_state c)"
    using nin.pump_client_network_ok [OF refl _ _ p] assms(1) by (simp add: client_ok_def)
  with assms(2) show ?thesis by (simp add: pump_step_def p speaks_def)
qed

lemma speaks_hello:
  assumes "blocking env" and "client_ok c" and "speaks c"
  shows "speaks (maybe_send_hello env c)"
proof (cases "cs_name_input (cl_state c) = []")
  case False
  let ?n = "cs_name_input (cl_state c)"
  let ?c = "on_state (\<lambda>st. st\<lparr>cs_pending_name := ?n\<rparr>) c"
  have len: "length ?n < MAX_NAME_LENGTH" using assms(2) by (simp add: client_ok_def client_state_ok_def)
  then have n: "snprintf_str MAX_NAME_LENGTH ?n = ?n" by (simp add: snprintf_str_def MAX_NAME_LENGTH_def)
  have s: "sent_line (''HELLO '' @ ?n)" using assms(3) False len by (intro hello_sent) (simp_all add: speaks_def)
  then have "speaks (snd (send_command_checked env (''HELLO '' @ ?n) ?c))"
    using assms(1,3) by (intro speaks_send) simp_all
  moreover obtain v where "send_command_checked env (''HELLO '' @ ?n) ?c = (Success, v)"
    using send_blocking [OF assms(1)] s by (auto simp: sent_line_def)
  ultimately show ?thesis
    using assms(3) by (simp add: maybe_send_hello_def Let_def n set_status_def)
qed (use assms in \<open>simp add: maybe_send_hello_def\<close>)

interpretation spk: client_inv "\<lambda>c. client_ok c \<and> (blocking env \<longrightarrow> speaks c)" env for env
proof unfold_locales
  fix c and n :: string
  assume c: "client_ok c \<and> (blocking env \<longrightarrow> speaks c)" and n: "length n < MAX_NAME_LENGTH"
    "\<And>ch. ch \<in> set n \<Longrightarrow> ch \<in> set (cs_name_input (cl_state c)) \<or> is_valid_name_char ch"
  then have "blocking env \<longrightarrow> list_all is_valid_name_char n" by (auto simp: speaks_def list_all_iff)
  with c n show "client_ok (on_state (\<lambda>st. st\<lparr>cs_name_input := n\<rparr>) c) \<and>
      (blocking env \<longrightarrow> speaks (on_state (\<lambda>st. st\<lparr>cs_name_input := n\<rparr>) c))"
    using cli.inv_edit [of c n] by (simp add: speaks_def)
qed (auto simp: cli.inv_pump cli.inv_hello cli.inv_send cli.inv_requested cli.inv_name cli.inv_cursor cli.inv_move
    cli.inv_auto cli.inv_auto_step speaks_pump speaks_hello speaks_send client_request_sent)

text \<open>
  C4. For a client started with a name of letters, digits and underscores, connected, and with a
  \<open>send\<close> that always takes some bytes: the bytes the client sends are whole lines, and in each of them the server's
  parsers find a command with the arguments it asks for: the server never has to answer with
  bad_command, a usage error, bad_choice or bad_spawn.
\<close>

theorem client_speaks_protocol:
  assumes "blocking env" and "parse_args args = Some (name, auto)" and "list_all is_valid_name_char name"
    and "fst (connect_to_server calls ''127.0.0.1'' PORT) \<noteq> INVALID_SOCKET"
  shows "\<exists>c. client_of (client_process env calls args frs) = Some c \<and>
    (case pop_lines MAX_LINE (cl_wire c) of (ts, rest) \<Rightarrow> rest = [] \<and> list_all well_formed_request ts)"
proof -
  define fd where "fd = fst (connect_to_server calls ''127.0.0.1'' PORT)"
  let ?s = "client_begin fd name auto"
  let ?o = "client_loop env fd frs (client_start env fd name auto)"
  have "list_all is_valid_name_char (snprintf_str MAX_NAME_LENGTH name)"
    using assms(3) by (auto simp: list_all_iff snprintf_str_def dest: in_set_takeD)
  then have "speaks ?s" by (auto simp: speaks_def client_begin_def init_client_state_def intro: exI [of _ "[]"])
  moreover have "client_ok ?s" by (rule client_begin_ok) (rule parse_args_ok [OF assms(2)])
  ultimately have "speaks (client_start env fd name auto) \<and> client_ok (client_start env fd name auto)"
    using spk.request_state_inv [of ?s env] assms(1) by (simp add: client_start_def)
  then have "pred_option speaks (client_of ?o)"
    using spk.client_loop_inv [of "client_start env fd name auto" env fd frs] assms(1)
    by (auto elim!: option.pred_mono_strong)
  moreover have "client_of (client_process env calls args frs) = client_of ?o" "client_of ?o \<noteq> None"
    using assms(2,4) client_loop_some by (auto simp: client_process_def fd_def simp del: not_None_eq split: prod.split)
  ultimately obtain c ts where c: "client_of (client_process env calls args frs) = Some c"
    and ts: "cl_wire c = wire ts" "list_all sent_line ts" by (auto simp: speaks_def)
  then have "pop_lines MAX_LINE (cl_wire c) = (ts, [])" "list_all well_formed_request ts"
    by (auto simp: list_all_iff sent_line_def intro: pop_lines_wire)
  with c show ?thesis by simp
qed

definition demo_env :: Env where
  "demo_env = \<lparr>env_clock = (\<lambda>k. Timespec (100 + int k) 0), env_send = (\<lambda>_ _. Sent 300)\<rparr>"

definition demo_frames :: "Frame list" where
  "demo_frames =
     [\<lparr>fr_pump = [SelectReady (RecvData (wire [''SPECTATING'']))], fr_keys = [], fr_rows = 24, fr_cols = 110\<rparr>,
      \<lparr>fr_pump = [SelectReady (RecvData (wire [''WELCOME 1'', ''CHOOSE_TYPE'']))], fr_keys = [KEY_LEFT],
       fr_rows = 24, fr_cols = 110\<rparr>,
      \<lparr>fr_pump = [SelectNone], fr_keys = [KeyCh (CHR ''q'')], fr_rows = 24, fr_cols = 110\<rparr>]"

definition demo_calls :: ConnectCalls where
  "demo_calls = \<lparr>cc_socket = 5, cc_pton = (\<lambda>_. 1), cc_connect = (\<lambda>_ _. 0)\<rparr>"

theorem client_speaks_protocol_witness:
  "\<exists>c. client_of (client_process demo_env demo_calls [''ann'', ''r'', ''3'', ''4''] demo_frames) = Some c \<and>
    (case pop_lines MAX_LINE (cl_wire c) of (ts, rest) \<Rightarrow> rest = [] \<and> list_all well_formed_request ts)"
proof (rule client_speaks_protocol)
  show "blocking demo_env" by (simp add: blocking_def demo_env_def makes_progress_def)
  show "parse_args [''ann'', ''r'', ''3'', ''4''] = Some (''ann'', no_auto_join\<lparr>aj_enabled := True,
    aj_choice := CHR ''R'', aj_spawn_x := 3, aj_spawn_y := 4\<rparr>)" by code_simp
  show "list_all is_valid_name_char ''ann''" by code_simp
  show "fst (connect_to_server demo_calls ''127.0.0.1'' PORT) \<noteq> INVALID_SOCKET" by code_simp
qed

end
