(* ===== verification/Projection.thy ===== *)
theory Projection
  imports Client_Server
begin

text \<open>
  The snapshot as a projection of the server's state: the lines queued for a client, popped and
  handled by it, make its table the list of the admitted players, whatever the table was before.
  The coordinates arrive rounded to the three decimals the line carries.
\<close>

section \<open>Reading a PLAYER line\<close>

definition tokens_ok :: "Player \<Rightarrow> bool" where
  "tokens_ok p \<longleftrightarrow> valid_name (p_name p) \<and> NUL \<notin> set (p_name p) \<and> p_choice_chosen p \<and> rps_char (p_choice p) \<and>
     fp_ok F32 (p_x p) \<and> fp_ok F32 (p_y p)"

definition client_entry :: "Player \<Rightarrow> ClientPlayer" where
  "client_entry p = \<lparr>cp_used = True, cp_name = p_name p, cp_choice = p_choice p,
     cp_x = wire_coord 3 (p_x p), cp_y = wire_coord 3 (p_y p),
     cp_alive = bool_int (p_alive p), cp_waiting = bool_int (p_waiting p)\<rparr>"

lemma bool_int_small: "\<bar>bool_int b\<bar> < 2 ^ 31"
  by (simp add: bool_int_def)

lemma scan_player_line:
  assumes "tokens_ok p"
  shows "sscanf ''PLAYER %31s %c %f %f %d %d'' (player_line p) =
    [VStr (p_name p), VChr (p_choice p), VFlt (wire_coord 3 (p_x p)), VFlt (wire_coord 3 (p_y p)),
     VInt (bool_int (p_alive p)), VInt (bool_int (p_waiting p))]"
proof -
  have name: "\<forall>c \<in> set (p_name p). \<not> is_space c" "p_name p \<noteq> []" "length (p_name p) \<le> 31"
    using assms by (auto simp: tokens_ok_def valid_name_def MAX_NAME_LENGTH_def)
  have skip: "skip_ws (p_name p @ r) = p_name p @ r" for r
    using name by (cases "p_name p") (simp_all add: skip_ws_def)
  have choice: "skip_ws (p_choice p # r) = p_choice p # r" for r
    using assms by (auto simp: tokens_ok_def rps_char_def skip_ws_def is_space_def char_code_def)
  have xy: "scan_flt (fixed_str 3 (p_x p) @ CHR '' '' # r) = Some (wire_coord 3 (p_x p), CHR '' '' # r)"
    "scan_flt (fixed_str 3 (p_y p) @ CHR '' '' # r) = Some (wire_coord 3 (p_y p), CHR '' '' # r)" for r
    using assms by (simp_all add: scan_fixed_str tokens_ok_def)
  have d: "scan_int (int_str (bool_int b) @ CHR '' '' # r) = Some (bool_int b, CHR '' '' # r)"
    "scan_int (int_str (bool_int b)) = Some (bool_int b, [])" for b r
    using scan_int_str [OF _ bool_int_small, of "CHR '' '' # r" b] scan_int_str [OF _ bool_int_small, of "[]" b]
    by simp_all
  have fmt: "fmt_dirs ''PLAYER %31s %c %f %f %d %d'' =
    map DLit ''PLAYER'' @ [DWs, DStr 31, DWs, DChr, DWs, DFlt, DWs, DFlt, DWs, DInt, DWs, DInt]"
    by (simp add: is_space_def char_code_def)
  have "scan_dirs (DStr 31 # ds) (p_name p @ CHR '' '' # r) = VStr (p_name p) # scan_dirs ds (CHR '' '' # r)" for ds r
    using scan_word [OF name] by simp
  then show ?thesis
    unfolding sscanf_def fmt using assms
    by (simp add: player_line_def tokens_ok_def skip choice xy d del: scan_dirs.simps(5))
qed

section \<open>The table after some PLAYER lines\<close>

definition table_of :: "ClientPlayer list \<Rightarrow> nat \<Rightarrow> ClientPlayer" where
  "table_of ps = (\<lambda>i. if i < length ps then ps ! i else zero_client_player)"

lemma table_of_Nil [simp]: "table_of [] = clear_players"
  by (simp add: table_of_def clear_players_def)

lemma table_of_add: "(table_of ps)(length ps := p) = table_of (ps @ [p])"
  by (auto simp: table_of_def nth_append)

lemma table_of_last [simp]:
  "(table_of (ps @ [q]))(length ps := p) = table_of (ps @ [p])" "table_of (ps @ [q]) (length ps) = q"
  by (auto simp: table_of_def nth_append)

lemma player_entry_new:
  assumes tab: "cs_players st = table_of ps" and used: "list_all cp_used ps" and len: "length ps < MAX_PLAYERS"
    and new: "n \<notin> cp_name ` set ps" and n: "length n < MAX_NAME_LENGTH"
  shows "cs_players (player_entry n c x y a b st) = table_of (ps @ [\<lparr>cp_used = True, cp_name = n, cp_choice = c,
    cp_x = x, cp_y = y, cp_alive = a, cp_waiting = b\<rparr>])"
proof -
  have none: "find_player (table_of ps) n = None"
    using new by (auto simp: find_player_None table_of_def zero_client_player_def)
  have "\<And>i. i < length ps \<Longrightarrow> cp_used (table_of ps i)"
    using used by (simp add: table_of_def list_all_length)
  moreover have "\<not> cp_used (table_of ps (length ps))" by (simp add: table_of_def zero_client_player_def)
  ultimately have "find (\<lambda>i. \<not> cp_used (table_of ps i)) [0..<MAX_PLAYERS] = Some (length ps)"
    using len by (auto simp: find_Some_iff intro: exI [of _ "length ps"])
  with none have g: "get_or_add_player (table_of ps) n = (Some (length ps), table_of (ps @ [new_client_player n]))"
    by (simp add: get_or_add_player_def table_of_add)
  have "snprintf_str MAX_NAME_LENGTH n = n" using n by (simp add: snprintf_str_def MAX_NAME_LENGTH_def)
  then show ?thesis
    by (simp add: player_entry_def tab g upd_entry_def Let_def new_client_player_def zero_client_player_def)
qed

lemma handle_player_line: "handle_server_line now (player_line p) = parse_state_snapshot_line now (player_line p)"
  by (simp add: fun_eq_iff handle_server_line_def dispatch_table_def line_matches_def starts_def player_line_def)

lemma player_line_handled:
  assumes "tokens_ok p" and "cs_players st = table_of ps" and "list_all cp_used ps" and "length ps < MAX_PLAYERS"
    and "p_name p \<notin> cp_name ` set ps"
  shows "cs_players (handle_server_line now (player_line p) st) = table_of (ps @ [client_entry p])"
proof -
  have "player_line p \<noteq> ''STATE_BEGIN''" "player_line p \<noteq> ''STATE_END''" by (simp_all add: player_line_def)
  moreover have "length (p_name p) < MAX_NAME_LENGTH" using assms(1) by (simp add: tokens_ok_def valid_name_def)
  ultimately show ?thesis
    using player_entry_new [OF assms(2-5)]
    by (simp add: handle_player_line parse_state_snapshot_line_def scan_player_line [OF assms(1)] client_entry_def)
qed

text \<open>The lines handled one after the other, each with its reading of the clock.\<close>

fun handle_lines :: "(nat \<Rightarrow> fp) \<Rightarrow> nat \<Rightarrow> string list \<Rightarrow> ClientState \<Rightarrow> ClientState" where
  "handle_lines clock k [] st = st"
| "handle_lines clock k (t # ts) st = handle_lines clock (Suc k) ts (handle_server_line (clock k) t st)"

lemma handle_lines_append:
  "handle_lines clock k (ts @ us) st = handle_lines clock (k + length ts) us (handle_lines clock k ts st)"
  by (induction ts arbitrary: k st) simp_all

lemma handle_player_lines:
  assumes "\<forall>p \<in> set qs. tokens_ok p" and "distinct (map cp_name ps @ map p_name qs)" and "list_all cp_used ps"
    and "length ps + length qs \<le> MAX_PLAYERS" and "cs_players st = table_of ps"
  shows "cs_players (handle_lines clock k (map player_line qs) st) = table_of (ps @ map client_entry qs)"
  using assms
proof (induction qs arbitrary: ps st k)
  case (Cons q qs)
  have "cs_players (handle_server_line (clock k) (player_line q) st) = table_of (ps @ [client_entry q])"
    using Cons.prems by (intro player_line_handled) auto
  then have "cs_players (handle_lines clock (Suc k) (map player_line qs) (handle_server_line (clock k) (player_line q) st)) =
      table_of ((ps @ [client_entry q]) @ map client_entry qs)"
    using Cons.prems by (intro Cons.IH) (auto simp: client_entry_def)
  then show ?case by simp
qed simp

lemma drain_wire:
  "\<forall>t \<in> set ts. clean_line t \<and> NUL \<notin> set t \<Longrightarrow>
   drain_server_lines clock (k, wire ts, st) = (k + length ts, [], handle_lines clock k ts st)"
proof (induction ts arbitrary: k st)
  case Nil
  show ?case by (simp add: drain_server_lines.simps pop_line_None [THEN iffD2])
next
  case (Cons t ts)
  then have "pop_line MAX_LINE (wire (t # ts)) = Some (t, wire ts)"
    by (simp add: pop_line_Some clean_line_def MAX_LINE_def)
  with Cons show ?case by (subst drain_server_lines.simps) (simp add: cstr_id)
qed

section \<open>Lines that leave the table alone\<close>

lemmas scan_cases_players = scan_cases [where P = "\<lambda>s. cs_players s = cs_players st" for st]

lemma sscanf_LEFT: "as_str (sscanf ''LEFT %31s'' line) = Some n \<Longrightarrow> take 4 line = ''LEFT''"
  by (auto simp: as_str_Some sscanf_def is_space_def char_code_def split: list.splits if_splits)

lemma sscanf_PLAYER:
  "as_player (sscanf ''PLAYER %31s %c %f %f %d %d'' line) = Some (n, c, x, y, k, l) \<Longrightarrow> take 6 line = ''PLAYER''"
  by (auto simp: as_player_Some sscanf_def is_space_def char_code_def split: list.splits if_splits)

lemma set_status_players [simp]: "cs_players (set_status t st) = cs_players st"
  by (simp add: set_status_def)

lemma parse_errors_players: "take 4 line \<noteq> ''LEFT'' \<Longrightarrow> cs_players (parse_errors line st) = cs_players st"
  unfolding parse_errors_def by (intro scan_cases_players) (auto dest: sscanf_LEFT)

lemma general_line_players:
  assumes "line \<noteq> ''MATCH_RESET''" and "take 4 line \<noteq> ''LEFT''"
  shows "cs_players (parse_general_line now line st) = cs_players st"
  unfolding parse_general_line_def parse_confirmations_def using assms
  by (intro scan_cases_players) (auto simp: welcome_received_def Let_def parse_errors_players)

lemma bye_or_over_players: "cs_players (parse_bye_or_over line st) = cs_players st"
  unfolding parse_bye_or_over_def
  by (intro scan_cases_players) (simp_all add: game_over_received_def Let_def)

lemma snapshot_line_players:
  assumes "line \<noteq> ''STATE_BEGIN''" and "take 6 line \<noteq> ''PLAYER''" and "\<not> starts ''PAIR '' line"
  shows "cs_players (parse_state_snapshot_line now line st) = cs_players st"
  unfolding parse_state_snapshot_line_def using assms
  by (intro scan_cases_players) (auto simp: bye_or_over_players dest: sscanf_PLAYER)

lemma handle_line_players:
  assumes "line \<noteq> ''MATCH_RESET''" and "take 4 line \<noteq> ''LEFT''" and "line \<noteq> ''STATE_BEGIN''"
    and "take 6 line \<noteq> ''PLAYER''" and "\<not> starts ''PAIR '' line"
  shows "cs_players (handle_server_line now line st) = cs_players st"
  using assms by (simp add: handle_server_line_def general_line_players snapshot_line_players
      split: option.split LineParser.split)

lemma handle_lines_players:
  "\<forall>t \<in> set ts. t \<noteq> ''MATCH_RESET'' \<and> take 4 t \<noteq> ''LEFT'' \<and> t \<noteq> ''STATE_BEGIN'' \<and> take 6 t \<noteq> ''PLAYER'' \<and> \<not> starts ''PAIR '' t \<Longrightarrow>
   cs_players (handle_lines clock k ts st) = cs_players st"
  by (induction ts arbitrary: k st) (simp_all add: handle_line_players)

section \<open>The lines of a snapshot are read back as they were written\<close>

definition plain_line :: "string \<Rightarrow> bool" where
  "plain_line t \<longleftrightarrow> clean_line t \<and> NUL \<notin> set t"

definition plain_char :: "char \<Rightarrow> bool" where
  "plain_char c \<longleftrightarrow> c \<noteq> newline \<and> c \<noteq> cret \<and> c \<noteq> NUL"

lemma plain_lineI:
  assumes "list_all plain_char t" and "length t < MAX_LINE - 2"
  shows "plain_line t"
proof -
  have "last t \<noteq> cret" if "t \<noteq> []"
    using assms(1) last_in_set [OF that] unfolding list_all_iff plain_char_def by blast
  then have "strip_cr t = t" by (auto simp: strip_cr_def)
  moreover have "newline \<notin> set t" "NUL \<notin> set t"
    using assms(1) unfolding list_all_iff plain_char_def by blast+
  ultimately show ?thesis using assms(2) by (simp add: plain_line_def clean_line_def)
qed

lemma plain_char_digit: "is_digit c \<Longrightarrow> plain_char c"
  by (auto simp: is_digit_def char_code_def plain_char_def)

lemma plain_char_minus: "plain_char (CHR ''-'')"
  by (simp add: plain_char_def)

lemma int_str_plain [simp]: "list_all plain_char (int_str k)"
  unfolding list_all_iff using int_str_chars plain_char_digit plain_char_minus by blast

lemma fixed_str_plain:
  assumes "fp_ok F32 x"
  shows "list_all plain_char (fixed_str p x)"
proof -
  have "list_all plain_char ''-.naif''" by (simp add: plain_char_def)
  then show ?thesis
    unfolding list_all_iff using fixed_str_chars [OF assms] plain_char_digit by blast
qed

lemma fixed_str_length:
  assumes "fp_ok F32 x" and "fp_is_nan x \<or> fp_fin x \<and> \<bar>fpval x\<bar> \<le> 16"
  shows "length (fixed_str 3 x) \<le> 7"
proof (cases x)
  case (FFin s m e)
  define k where "k = fixed_int 3 m e"
  have m: "0 \<le> m" using assms(1) FFin by simp
  then have k: "0 \<le> k" by (simp add: k_def fixed_int_nonneg)
  have "real_of_int m * 2 powi e \<le> 16" using assms(2) FFin m by (cases s) (simp_all add: with_sign_def)
  moreover have "\<bar>real_of_int k - of_int m * 2 powi e * 1000\<bar> \<le> 1 / 2"
    using fixed_int_close [OF m, of 3 e] by (simp add: k_def)
  ultimately have "real_of_int k \<le> 16001" by linarith
  then have "k div 1000 < 10 ^ 2" by simp
  then have "length (nat_str (k div 1000)) \<le> 2"
    using nat_str_length [of "k div 1000" 2] k by (simp add: pos_imp_zdiv_nonneg_iff)
  then show ?thesis using pad_digits_props [OF k, of 3] by (simp add: FFin k_def [symmetric])
qed (use assms(2) in simp_all)

lemma bool_str_length: "length (int_str (bool_int b)) \<le> 2"
  by (rule order_trans [OF int_str_length [where n = 1]]) (simp_all add: bool_int_def)

definition on_screen :: "fp \<Rightarrow> bool" where
  "on_screen x \<longleftrightarrow> fp_ok F32 x \<and> (fp_is_nan x \<or> fp_fin x \<and> \<bar>fpval x\<bar> \<le> 16)"

lemma player_line_plain:
  assumes "tokens_ok p" and "on_screen (p_x p)" and "on_screen (p_y p)"
  shows "plain_line (player_line p)"
proof (rule plain_lineI)
  have name: "list_all plain_char (p_name p)" "length (p_name p) \<le> 31"
    using assms(1) by (auto simp: tokens_ok_def valid_name_def MAX_NAME_LENGTH_def is_space_def char_code_def
        list_all_iff plain_char_def)
  have "plain_char (p_choice p)" using assms(1) by (auto simp: tokens_ok_def rps_char_def plain_char_def)
  then show "list_all plain_char (player_line p)"
    using name(1) assms(1) by (simp add: player_line_def tokens_ok_def fixed_str_plain, simp add: plain_char_def)
  show "length (player_line p) < MAX_LINE - 2"
    using name(2) assms(2,3) fixed_str_length [of "p_x p"] fixed_str_length [of "p_y p"]
      bool_str_length [of "p_alive p"] bool_str_length [of "p_waiting p"]
    by (simp add: player_line_def on_screen_def MAX_LINE_def)
qed

lemma coord_on_screen: "coord_ok x \<or> x = fp_minus_one \<Longrightarrow> on_screen x"
proof -
  have "on_screen fp_minus_one"
    by (simp add: on_screen_def fp_minus_one_def F32_def with_sign_def power_int_def power_divide)
  moreover have "on_screen x" if "coord_ok x"
    using that by (cases x) (auto simp: coord_ok_def on_grid_def on_screen_def)
  ultimately show "coord_ok x \<or> x = fp_minus_one \<Longrightarrow> on_screen x" by auto
qed

lemma admitted_line:
  assumes "world_ok w" and "player_is_admitted (players w i)"
  shows "tokens_ok (players w i) \<and> on_screen (p_x (players w i)) \<and> on_screen (p_y (players w i))"
proof -
  have s: "setup_ok (players w i)" "p_admitted (players w i)"
    using world_ok_slot [OF assms(1), of i] assms(2) by (auto simp: slot_ok_def player_is_admitted_def)
  then have "on_screen (p_x (players w i)) \<and> on_screen (p_y (players w i))"
    by (auto simp: setup_ok_def placed_def out_of_play_def intro!: coord_on_screen)
  with s show ?thesis by (auto simp: tokens_ok_def setup_ok_def on_screen_def)
qed

text \<open>The numbers of the state fit the C types that hold them.\<close>

definition machine_ints :: "World \<Rightarrow> bool" where
  "machine_ints w \<longleftrightarrow> seconds_left (join_deadline w) w \<le> LONG_MAX \<and> \<bar>round_no w\<bar> \<le> INT_MAX"

lemma wrap_int_small: "\<bar>wrap_int k\<bar> < 10 ^ 10"
  using wrap_int_range [of k] by auto

lemma phase_line_numbers:
  assumes "machine_ints w"
  shows "length (int_str (seconds_left (join_deadline w) w)) \<le> 20"
    and "length (int_str (round_no w)) \<le> 20" and "length (int_str (wrap_int k)) \<le> 20"
proof -
  have "length (int_str (seconds_left (join_deadline w) w)) \<le> Suc 19"
    using assms by (intro int_str_length) (auto simp: machine_ints_def LONG_MAX_def seconds_left_def Let_def)
  then show "length (int_str (seconds_left (join_deadline w) w)) \<le> 20" by simp
  have "length (int_str (round_no w)) \<le> Suc 19"
    using assms by (intro int_str_length) (auto simp: machine_ints_def INT_MAX_def)
  then show "length (int_str (round_no w)) \<le> 20" by simp
  have "length (int_str (wrap_int k)) \<le> Suc 10"
    using wrap_int_small [of k] by (intro int_str_length) simp_all
  then show "length (int_str (wrap_int k)) \<le> 20" by simp
qed

lemma phase_lines_plain:
  assumes "machine_ints w" and "t \<in> set (phase_lines dst w)"
  shows "plain_line t"
proof (rule plain_lineI)
  show "list_all plain_char t"
    using assms(2) int_str_plain
    by (cases "phase w") (auto simp: phase_lines_def game_over_line_def plain_char_def simp del: One_nat_def split: if_splits)
  note n = phase_line_numbers [OF assms(1)]
  show "length t < MAX_LINE - 2"
    using assms(2) n(1,2) n(3) [of "seconds_left (setup_deadline w) w"] n(3) [of "seconds_left (round_deadline w) w"]
    by (cases "phase w") (auto simp: phase_lines_def game_over_line_def MAX_LINE_def split: if_splits)
qed

lemma phase_lines_players:
  "cs_players (handle_lines clock k (phase_lines dst w) st) = cs_players st"
  by (rule handle_lines_players)
    (cases "phase w"; auto simp: phase_lines_def game_over_line_def starts_def)

section \<open>The projection\<close>

definition client_view :: "World \<Rightarrow> nat \<Rightarrow> ClientPlayer" where
  "client_view w = table_of (map (\<lambda>i. client_entry (players w i))
     (filter (\<lambda>i. player_is_admitted (players w i)) [0..<MAX_PLAYERS]))"

lemma snapshot_plain:
  assumes "world_ok w" and "machine_ints w" and "t \<in> set (snapshot_lines dst w)"
  shows "plain_line t"
proof -
  have "plain_line ''STATE_BEGIN''" "plain_line ''STATE_END''"
    by (rule plain_lineI; simp add: plain_char_def MAX_LINE_def)+
  then show ?thesis
    using assms phase_lines_plain [OF assms(2), of t dst] admitted_line [OF assms(1)] player_line_plain
    by (auto simp: snapshot_lines_def)
qed

lemma names_distinct:
  assumes "world_ok w"
  shows "distinct (map (\<lambda>i. p_name (players w i)) (filter (\<lambda>i. player_is_admitted (players w i)) [0..<n]))"
proof -
  have reg: "player_is_registered (players w i)" if "player_is_admitted (players w i)" for i
    using that world_ok_slot [OF assms, of i]
    by (auto simp: slot_ok_def setup_ok_def player_is_admitted_def player_is_registered_def)
  have "names_unique w" using assms by (simp add: world_ok_def world_core_def)
  then show ?thesis by (auto simp: distinct_map inj_on_def names_unique_def dest: reg)
qed

lemma snapshot_handled:
  assumes "world_ok w"
  shows "cs_players (handle_lines clock k (snapshot_lines dst w) st) = client_view w"
proof -
  let ?is = "filter (\<lambda>i. player_is_admitted (players w i)) [0..<MAX_PLAYERS]"
  have b: "cs_players (handle_server_line now ''STATE_BEGIN'' st) = clear_players" for now
    by (simp add: handle_server_line_def dispatch_table_def line_matches_def starts_def parse_state_snapshot_line_def)
  have e: "cs_players (handle_server_line now ''STATE_END'' s) = cs_players s" for now s
    by (rule handle_line_players) (simp_all add: starts_def)
  have "cs_players (handle_lines clock j (map player_line (map (players w) ?is)) s) =
      table_of ([] @ map client_entry (map (players w) ?is))"
    if "cs_players s = clear_players" for j s
    using that names_distinct [OF assms, of MAX_PLAYERS] admitted_line [OF assms]
    by (intro handle_player_lines) (auto simp: comp_def intro: order_trans [OF length_filter_le])
  then show ?thesis
    by (simp add: snapshot_lines_def handle_lines_append phase_lines_players b e client_view_def comp_def)
qed

text \<open>The bytes of a snapshot, cut into lines and handled by the client.\<close>

lemma snapshot_received:
  assumes "world_ok w" and "machine_ints w" and "p_outbuf (players w dst) = []"
    and "queue_game_state_for_player dst w = (Success, v)"
  shows "drain_server_lines clock (k, p_outbuf (players v dst), st) =
    (k + length (snapshot_lines dst w), [], handle_lines clock k (snapshot_lines dst w) st)"
proof -
  have plain: "\<forall>t \<in> set (snapshot_lines dst w). clean_line t \<and> NUL \<notin> set t"
    using snapshot_plain [OF assms(1,2)] by (auto simp: plain_line_def)
  then have "map cstr (snapshot_lines dst w) = snapshot_lines dst w"
    by (auto intro!: map_idI cstr_id)
  then have "p_outbuf (players v dst) = wire (snapshot_lines dst w)"
    using snapshot_appended [OF assms(4)] assms(3) by (simp add: players_append_out)
  then show ?thesis by (simp add: drain_wire [OF plain])
qed

text \<open>
  C3. The snapshot is a projection of the match: when the server has queued it for a client, the
  client that receives these bytes ends up with exactly the admitted players in its table, in
  slot order, each with the name, choice, coordinates (as far as the line carries them) and flags
  the server has for it, whatever its table was before; no byte is left over.
\<close>

theorem snapshot_projection:
  assumes "world_ok w" and "machine_ints w" and "p_outbuf (players w dst) = []"
    and "queue_game_state_for_player dst w = (Success, v)"
  shows "case drain_server_lines clock (k, p_outbuf (players v dst), st) of
    (k', rest, st') \<Rightarrow> rest = [] \<and> cs_players st' = client_view w"
  using snapshot_received [OF assms] snapshot_handled [OF assms(1)] by simp

text \<open>A lobby with one admitted player, at (3, 5).\<close>

definition camp :: World where
  "camp = upd_player 0 (\<lambda>p. p\<lparr>p_choice := CHR ''P'', p_choice_chosen := True, p_x := FFin False 3 0,
     p_y := FFin False 5 0, p_spawn_chosen := True, p_admitted := True, p_waiting := True\<rparr>) registered_one"

lemma players_camp:
  "players camp i = (if i = 0 then zero_player\<lparr>p_fd := 9, p_id := 1, p_connected := True, p_registered := True,
     p_name := ''ann'', p_choice := CHR ''P'', p_choice_chosen := True, p_x := FFin False 3 0,
     p_y := FFin False 5 0, p_spawn_chosen := True, p_admitted := True, p_waiting := True\<rparr> else zero_player)"
  by (simp add: camp_def registered_one_def players_joined register_player_def reset_player_progress_def
      init_player_slot_def zero_player_def snprintf_str_def MAX_NAME_LENGTH_def)

lemma camp_fields: "phase camp = PHASE_LOBBY_OPEN" "join_deadline camp = 0" "next_id camp = 2" "round_no camp = 0"
  "time_now camp = 100"
  by (simp_all add: camp_def registered_one_def joined_eq init_server_state_def time_now_def)

lemma world_ok_camp: "world_ok camp"
proof -
  have "slot_ok (players camp i)" for i
  proof (cases "i = 0")
    case True
    have "valid_name ''ann''" by (simp add: valid_name_def MAX_NAME_LENGTH_def is_space_def char_code_def)
    moreover have "placed (players camp 0)"
      by (simp add: players_camp placed_def coord_ok_def on_grid_def F32_def with_sign_def)
    ultimately show ?thesis
      using True by (simp add: slot_ok_def buffers_ok_def setup_ok_def players_camp zero_player_def rps_char_def
          placed_def OUTBUF_SIZE_def INBUF_SIZE_def)
  qed (simp add: players_camp slot_ok_def buffers_ok_def zero_player_def OUTBUF_SIZE_def INBUF_SIZE_def)
  then show ?thesis
    by (simp add: world_ok_def world_defs camp_fields players_camp player_is_registered_def player_is_alive_def
        zero_player_def MAX_PLAYERS_def)
qed

lemma camp_queued: "fst (queue_game_state_for_player 0 camp) = Success"
  by code_simp

theorem snapshot_projection_witness:
  "case drain_server_lines (\<lambda>_. dbl_zero) (0, p_outbuf (players (snd (queue_game_state_for_player 0 camp)) 0),
     init_client_state ''ann'') of (k, rest, st) \<Rightarrow> rest = [] \<and> cs_players st = client_view camp"
proof -
  have q: "queue_game_state_for_player 0 camp = (Success, snd (queue_game_state_for_player 0 camp))"
    using camp_queued by (metis prod.collapse)
  have "machine_ints camp"
    by (simp add: machine_ints_def seconds_left_def camp_fields LONG_MAX_def INT_MAX_def Let_def)
  moreover have "p_outbuf (players camp 0) = []" by (simp add: players_camp zero_player_def)
  ultimately show ?thesis by (rule snapshot_projection [OF world_ok_camp _ _ q])
qed

definition shown_close :: "fp \<Rightarrow> fp \<Rightarrow> bool" where
  "shown_close y x \<longleftrightarrow>
     fp_is_nan x \<and> fp_is_nan y \<or> fp_fin x \<and> fp_fin y \<and> \<bar>fpval y - fpval x\<bar> \<le> 1 / 1000"

lemma wire_coord_shown: "on_screen x \<Longrightarrow> shown_close (wire_coord 3 x) x"
  using wire_coord_close [of x 3] by (cases x) (auto simp: on_screen_def shown_close_def)

text \<open>
  C23. A player's line gives the client that player's name, choice and flags exactly and the
  coordinates to a thousandth; a NaN coordinate stays NaN.
\<close>

theorem player_line_accuracy:
  assumes "world_ok w" and "player_is_admitted (players w i)"
  shows "let p = players w i; e = cs_players (handle_server_line now (player_line p) (init_client_state n)) 0
    in cp_used e \<and> cp_name e = p_name p \<and> cp_choice e = p_choice p \<and>
       cp_alive e = bool_int (p_alive p) \<and> cp_waiting e = bool_int (p_waiting p) \<and>
       shown_close (cp_x e) (p_x p) \<and> shown_close (cp_y e) (p_y p)"
proof -
  note a = admitted_line [OF assms]
  have "cs_players (init_client_state n) = table_of []"
    by (simp add: init_client_state_def clear_players_def)
  with a have "cs_players (handle_server_line now (player_line (players w i)) (init_client_state n)) =
      table_of ([] @ [client_entry (players w i)])"
    by (intro player_line_handled) (simp_all add: MAX_PLAYERS_def)
  with a show ?thesis by (simp add: Let_def table_of_def client_entry_def wire_coord_shown)
qed

theorem player_line_accuracy_witness:
  "cp_name (cs_players (handle_server_line dbl_zero (player_line (players camp 0)) (init_client_state ''bob'')) 0) = ''ann''"
proof -
  have "player_is_admitted (players camp 0)" by (simp add: players_camp player_is_admitted_def)
  from player_line_accuracy [OF world_ok_camp this, of dbl_zero "''bob''"] show ?thesis
    by (simp add: Let_def players_camp)
qed

end
