(* ===== verification/Restart.thy ===== *)
theory Restart
  imports Projection
begin

text \<open>
  The closing of the lobby when a client has no room for the first announcement: the drop of that
  client re-evaluates the match in the middle of the announcements and starts the round, and the
  function that was announcing starts it a second time.
\<close>

section \<open>Broadcasts with room\<close>

text \<open>Only output buffers differ, and those of connected slots hold at most \<open>B\<close> bytes.\<close>

definition roomy :: "World \<Rightarrow> nat \<Rightarrow> World \<Rightarrow> bool" where
  "roomy u B v \<longleftrightarrow> (\<exists>out. v = u\<lparr>players := \<lambda>k. (players u k)\<lparr>p_outbuf := out k\<rparr>\<rparr> \<and>
     (\<forall>k < MAX_PLAYERS. p_connected (players u k) \<longrightarrow> length (out k) \<le> B))"

lemma roomy_refl:
  assumes "\<forall>k < MAX_PLAYERS. p_connected (players u k) \<longrightarrow> length (p_outbuf (players u k)) \<le> B"
  shows "roomy u B u"
  using assms by (auto simp: roomy_def intro!: exI [of _ "\<lambda>k. p_outbuf (players u k)"])

lemma roomy_mono: "roomy u B v \<Longrightarrow> B \<le> C \<Longrightarrow> roomy u C v"
  unfolding roomy_def by (elim exE, intro exI conjI) (auto intro: order_trans)

lemma roomy_fields:
  assumes "roomy u B v"
  shows "phase v = phase u" and "round_no v = round_no u" and "admitted_count v = admitted_count u"
    and "player_is_admitted (players v k) = player_is_admitted (players u k)"
    and "player_line (players v k) = player_line (players u k)"
  using assms by (auto simp: roomy_def admitted_count_def count_players_card player_is_admitted_def player_line_def)

lemma roomy_broadcast:
  assumes r: "roomy u B v" and t: "NUL \<notin> set t" "length t \<le> L" and L: "L < MAX_LINE - 2" "B + L < OUTBUF_SIZE"
  shows "roomy u (B + L + 1) (queue_broadcast t v)"
proof -
  have line: "cstr (snprintf_str MAX_LINE t) = t" using t L by (simp add: snprintf_str_def cstr_id)
  obtain out where v: "v = u\<lparr>players := \<lambda>k. (players u k)\<lparr>p_outbuf := out k\<rparr>\<rparr>"
    and out: "\<And>k. k < MAX_PLAYERS \<Longrightarrow> p_connected (players u k) \<Longrightarrow> length (out k) \<le> B"
    using r by (auto simp: roomy_def)
  have "room t (players v k)" if "k < MAX_PLAYERS" "p_connected (players v k)" for k
    using out [of k] that t L by (simp add: room_def v)
  then have "queue_broadcast t v = v\<lparr>players := \<lambda>k. if k < MAX_PLAYERS \<and> p_connected (players v k)
      then (players v k)\<lparr>p_outbuf := p_outbuf (players v k) @ t @ [newline]\<rparr> else players v k\<rparr>"
    by (intro queue_broadcast_all [of v t, unfolded line]) blast
  also have "\<dots> = u\<lparr>players := \<lambda>k. if k < MAX_PLAYERS \<and> p_connected (players v k)
      then (players v k)\<lparr>p_outbuf := p_outbuf (players v k) @ t @ [newline]\<rparr> else players v k\<rparr>"
    by (simp add: v)
  also have "(\<lambda>k. if k < MAX_PLAYERS \<and> p_connected (players v k)
      then (players v k)\<lparr>p_outbuf := p_outbuf (players v k) @ t @ [newline]\<rparr> else players v k) =
    (\<lambda>k. (players u k)\<lparr>p_outbuf :=
      if k < MAX_PLAYERS \<and> p_connected (players u k) then out k @ t @ [newline] else out k\<rparr>)"
    by (rule ext) (simp add: v)
  finally show ?thesis using out t(2) unfolding roomy_def by (intro exI conjI) (assumption, force)
qed

section \<open>The start of a round with room\<close>

lemma player_line_short:
  assumes "tokens_ok p" and "on_screen (p_x p)" and "on_screen (p_y p)"
  shows "NUL \<notin> set (player_line p) \<and> length (player_line p) \<le> 64"
proof
  show "NUL \<notin> set (player_line p)" using player_line_plain [OF assms] by (simp add: plain_line_def)
  have "length (p_name p) \<le> 31" using assms(1) by (auto simp: tokens_ok_def valid_name_def MAX_NAME_LENGTH_def)
  then show "length (player_line p) \<le> 64"
    using fixed_str_length [of "p_x p"] fixed_str_length [of "p_y p"] assms(2,3)
      bool_str_length [of "p_alive p"] bool_str_length [of "p_waiting p"]
    by (simp add: player_line_def on_screen_def)
qed

lemma roomy_positions:
  assumes r: "roomy u B v" and B: "B + 65 * MAX_PLAYERS \<le> 8000"
    and lines: "\<And>k. player_is_admitted (players u k) \<Longrightarrow>
      NUL \<notin> set (player_line (players u k)) \<and> length (player_line (players u k)) \<le> 64"
  shows "roomy u (B + 65 * MAX_PLAYERS) (broadcast_positions v)"
proof -
  have "roomy u (B + 65 * MAX_PLAYERS) (for_upto MAX_PLAYERS (\<lambda>i w.
       if player_is_admitted (players w i) then queue_broadcast (player_line (players w i)) w else w) v)"
  proof (rule for_upto_rule [where P = "\<lambda>n. roomy u (B + 65 * n)"])
    fix i x
    assume i: "i < MAX_PLAYERS" and x: "roomy u (B + 65 * i) x"
    have le: "65 * i + 65 \<le> 65 * MAX_PLAYERS" using i by simp
    have "roomy u (B + 65 * i + 64 + 1) (queue_broadcast (player_line (players x i)) x)"
      if "player_is_admitted (players x i)"
      using that lines [of i] B le
      by (intro roomy_broadcast [OF x]) (simp_all add: roomy_fields(4,5) [OF x] MAX_LINE_def OUTBUF_SIZE_def)
    moreover have "roomy u (B + 65 * i + 64 + 1) x"
      using x by (rule roomy_mono) simp
    moreover have "B + 65 * i + 64 + 1 = B + 65 * Suc i" by simp
    ultimately show "roomy u (B + 65 * Suc i)
        (if player_is_admitted (players x i) then queue_broadcast (player_line (players x i)) x else x)"
      by (simp only: if_split) blast
  qed (use r in simp)
  then show ?thesis by (simp only: broadcast_positions_def broadcast_positions_with_def queue_broadcast_def)
qed

text \<open>Nothing starts a round once the match is on.\<close>

definition on_round :: "int \<Rightarrow> World \<Rightarrow> bool" where
  "on_round r w \<longleftrightarrow> playing w \<and> round_no w = r"

lemma round_no_frame [simp]: "round_no (append_out i t w) = round_no w" "round_no (drop_slot i w) = round_no w"
  by (simp_all add: append_out_def drop_slot_def)

interpretation onr: engine_inv "on_round r" for r
  by unfold_locales (simp_all add: on_round_def playing_def)

lemma on_round_end_game: "on_round r w \<Longrightarrow> on_round r (end_game w)"
proof -
  assume "on_round r w"
  then have "on_round r (w\<lparr>phase := PHASE_GAME_OVER\<rparr>)" by (simp add: on_round_def playing_def)
  then show ?thesis
    unfolding end_game_def by (rule for_upto_inv) (auto intro!: onr.status_case_inv onr.queue_game_over_result_inv)
qed

lemma on_round_reevaluate: "on_round r w \<Longrightarrow> on_round r (reevaluate_state w)"
  using on_round_end_game [of r w]
  by (subst reevaluate_state_eq) (auto simp: on_round_def playing_def reevaluate_with_def reevaluate_round_active_def)

lemma start_active_round_on: "on_round (round_no w + 1) (start_active_round w)"
proof -
  have "on_round (round_no w + 1) (start_round w)" by (simp add: on_round_def playing_def)
  then show ?thesis
    unfolding start_active_round_def start_active_round_with_def Let_def
    by (intro onr.broadcast_positions_with_inv onr.queue_broadcast_with_inv on_round_reevaluate)
qed

lemma start_active_round_roomy:
  assumes B: "B \<le> 4100" and r: "\<bar>round_no w\<bar> < INT_MAX"
    and out: "\<forall>k < MAX_PLAYERS. p_connected (players w k) \<longrightarrow> length (p_outbuf (players w k)) \<le> B"
    and ok: "\<And>k. player_is_admitted (players w k) \<Longrightarrow> tokens_ok (players w k) \<and> on_screen (p_x (players w k)) \<and> on_screen (p_y (players w k))"
  shows "admitted_count (start_active_round w) = admitted_count w"
    and "roomy (start_round w) 6300 (start_active_round w)"
proof -
  let ?s = "start_round w"
  have f: "p_outbuf (start_round_player p) = p_outbuf p" "p_connected (start_round_player p) = p_connected p"
    "p_name (start_round_player p) = p_name p" "p_choice (start_round_player p) = p_choice p"
    "p_choice_chosen (start_round_player p) = p_choice_chosen p"
    "p_x (start_round_player p) = p_x p" "p_y (start_round_player p) = p_y p"
    "player_is_admitted (start_round_player p) = player_is_admitted p" for p
    by (auto simp: start_round_player_def Let_def player_is_admitted_def)
  have s: "roomy ?s B ?s" using out by (intro roomy_refl) (simp add: players_start_round f)
  have lines: "NUL \<notin> set (player_line (players ?s k)) \<and> length (player_line (players ?s k)) \<le> 64"
    if "player_is_admitted (players ?s k)" for k
    using that ok [of k] by (intro player_line_short) (auto simp: players_start_round f tokens_ok_def split: if_splits)
  define t where "t = ''ROUND_START '' @ int_str (round_no ?s) @ '' '' @ int_str ROUND_SECONDS"
  have n: "length (int_str (round_no ?s)) \<le> 11"
    using r int_str_length [of "round_no ?s" 10] by (simp add: INT_MAX_def)
  have five: "int_str ROUND_SECONDS = ''5''" by code_simp
  have "NUL \<notin> set t" using int_str_plain [of "round_no ?s"] by (auto simp: t_def five list_all_iff plain_char_def)
  then have "roomy ?s (B + 40 + 1) (queue_broadcast t ?s)"
    using n B by (intro roomy_broadcast [OF s]) (simp_all add: t_def five MAX_LINE_def OUTBUF_SIZE_def)
  then have "roomy ?s 4141 (queue_broadcast t ?s)" by (rule roomy_mono) (use B in simp)
  moreover have "start_active_round w = broadcast_positions (queue_broadcast t ?s)"
    by (simp only: start_active_round_def start_active_round_with_def Let_def t_def queue_broadcast_def
        broadcast_positions_def)
  moreover have "roomy ?s (4141 + 65 * MAX_PLAYERS) (broadcast_positions (queue_broadcast t ?s))"
    by (rule roomy_positions [OF calculation(1) _ lines]) (simp add: MAX_PLAYERS_def)
  ultimately have "roomy ?s (4141 + 65 * MAX_PLAYERS) (start_active_round w)" by (simp only:)
  then show R: "roomy ?s 6300 (start_active_round w)" by (rule roomy_mono) (simp add: MAX_PLAYERS_def)
  show "admitted_count (start_active_round w) = admitted_count w"
    unfolding roomy_fields(3) [OF R] admitted_count_def count_players_card
    by (rule arg_cong [of _ _ card]) (auto simp: roomy_fields(4) [OF R] players_start_round f)
qed

section \<open>The lobby closes twice\<close>

text \<open>
  The first announcement drops exactly the client without room, and the re-evaluation is the
  start of the round.
\<close>

definition crowded :: "nat \<Rightarrow> World \<Rightarrow> bool" where
  "crowded j w \<longleftrightarrow> j < MAX_PLAYERS \<and> p_connected (players w j) \<and> \<not> p_admitted (players w j) \<and>
     OUTBUF_SIZE < length (p_outbuf (players w j)) + 13 \<and>
     (\<forall>k < MAX_PLAYERS. k \<noteq> j \<longrightarrow> p_connected (players w k) \<longrightarrow> length (p_outbuf (players w k)) \<le> 4000)"

lemma closed_line: "cstr (snprintf_str MAX_LINE ''LOBBY_CLOSED'') = ''LOBBY_CLOSED''"
  by code_simp

lemma crowded_broadcast:
  assumes w: "world_ok w" and "phase w = PHASE_SETUP" and c: "crowded j w" and "2 \<le> admitted_count w"
  obtains u where "queue_broadcast ''LOBBY_CLOSED'' w = start_active_round u" and "world_ok u"
    and "round_no u = round_no w" and "admitted_count u = admitted_count w"
    and "\<forall>k < MAX_PLAYERS. p_connected (players u k) \<longrightarrow> length (p_outbuf (players u k)) \<le> 4013"
proof -
  obtain v d where b: "broadcast_loop ''LOBBY_CLOSED'' w = (v, d)" by fastforce
  note r = broadcast_loop_result [of "''LOBBY_CLOSED''" w, unfolded b fst_conv snd_conv]
  have d: "set d = {j}"
    using c r by (auto simp: crowded_def room_def MAX_LINE_def OUTBUF_SIZE_def not_less) 
  then have "d \<noteq> []" by auto
  define u where "u = fold drop_slot d v"
  have v: "v = w\<lparr>players := players v\<rparr>" using r by blast
  have fv: "phase v = phase w" "round_no v = round_no w" by (subst v, simp)+
  have fu: "phase u = phase v" "round_no u = round_no v"
    unfolding u_def by (induction d arbitrary: v) simp_all
  have "world_ok v" using ok.broadcast_loop_inv [OF w, of "''LOBBY_CLOSED''"] by (simp add: b)
  then have uok: "world_ok u" unfolding u_def by (rule ok.fold_drop_inv)
  have pu: "players u k = (if k = j then empty_slot else if k < MAX_PLAYERS \<and> p_connected (players w k)
      then (players w k)\<lparr>p_outbuf := p_outbuf (players w k) @ ''LOBBY_CLOSED'' @ [newline]\<rparr> else players w k)" for k
    using c r d by (auto simp: u_def players_fold_drops crowded_def room_def MAX_LINE_def OUTBUF_SIZE_def)
  have adm: "admitted_count u = admitted_count w"
    using c by (auto simp: admitted_count_def count_players_card player_is_admitted_def pu crowded_def
        intro!: arg_cong [of _ _ card])
  then have "all_admitted_ready u" using admitted_ready [OF uok] assms(4) by simp
  then have re: "reevaluate_state u = start_active_round u"
    using fv fu assms(2,4) adm
    by (subst reevaluate_state_eq) (simp add: reevaluate_with_def reevaluate_setup_with_def start_active_round_def)
  have "queue_broadcast ''LOBBY_CLOSED'' w = start_active_round u"
    using \<open>d \<noteq> []\<close> re by (simp add: queue_broadcast_def queue_broadcast_with_def closed_line b Let_def flip: u_def)
  moreover have "\<forall>k < MAX_PLAYERS. p_connected (players u k) \<longrightarrow> length (p_outbuf (players u k)) \<le> 4013"
    using c by (auto simp: pu crowded_def)
  ultimately show ?thesis using that uok fv fu adm by simp
qed

text \<open>
  C33. A lobby that closes while one client, not a player, has no room for LOBBY_CLOSED starts its
  round twice: once from inside that announcement, because the drop of the client re-evaluates the
  match, which is already in the setup phase and ready, and once more after the announcements: the
  round number goes up by two.
\<close>

theorem round_started_twice:
  assumes w: "world_ok w" and "phase w = PHASE_LOBBY_OPEN" and "join_deadline w \<noteq> 0"
    and "join_deadline w \<le> time_now w" and c: "crowded j w" and two: "2 \<le> admitted_count w"
    and r: "\<bar>round_no w\<bar> < INT_MAX"
  shows "round_no (close_lobby_if_needed w) = round_no w + 2"
proof -
  let ?t = "time_tick w"
  define x where "x = time_tick (?t\<lparr>phase := PHASE_SETUP,
    setup_deadline := time_now (?t\<lparr>phase := PHASE_SETUP\<rparr>) + SETUP_SECONDS\<rparr>)"
  have t: "world_ok ?t" using w by (rule ok.inv_tick)
  have "world_ok (?t\<lparr>phase := PHASE_SETUP\<rparr>)" using t assms(2) by (intro srv.inv_setup) simp_all
  from srv.inv_setup_deadline [OF this] have x: "world_ok x" unfolding x_def by (intro ok.inv_tick) simp
  have fx: "phase x = PHASE_SETUP" "crowded j x" "2 \<le> admitted_count x" "round_no x = round_no w"
    using c two by (simp_all add: x_def crowded_def admitted_count_def count_players_card)
  obtain u where q: "queue_broadcast ''LOBBY_CLOSED'' x = start_active_round u" and u: "world_ok u"
    "round_no u = round_no x" "admitted_count u = admitted_count x"
    "\<forall>k < MAX_PLAYERS. p_connected (players u k) \<longrightarrow> length (p_outbuf (players u k)) \<le> 4013"
    using crowded_broadcast [OF x fx(1-3)] by blast
  define v where "v = start_active_round u"
  have v: "admitted_count v = admitted_count u" "roomy (start_round u) 6300 v" "round_no v = round_no u + 1"
    using start_active_round_roomy [of 4013 u] u r fx(4) admitted_line [OF u(1)] start_active_round_on [of u]
    by (simp_all add: v_def on_round_def)
  define y where "y = queue_broadcast (''SETUP_OPEN '' @ int_str SETUP_SECONDS) v"
  have "''SETUP_OPEN '' @ int_str SETUP_SECONDS = ''SETUP_OPEN 20''" by code_simp
  then have "roomy (start_round u) (6300 + 13 + 1) y"
    unfolding y_def by (intro roomy_broadcast [OF v(2)]) (simp_all add: MAX_LINE_def OUTBUF_SIZE_def)
  then have y: "round_no y = round_no v" "admitted_count y = admitted_count v"
    using roomy_fields(2,3) v(2) by metis+
  have ann: "announce_setup ?t = y"
    unfolding announce_setup_def Let_def y_def v_def q [symmetric] x_def ..
  have "world_ok y" using srv.announce_setup_inv [OF t] assms(2) by (simp add: ann)
  then have "all_admitted_ready y" "\<not> admitted_count y < 2"
    using admitted_ready [of y] y v u fx by simp_all
  then have "close_lobby_if_needed w = start_active_round y"
    using assms(2-4) by (simp add: close_lobby_if_needed_def ann)
  then show ?thesis
    using start_active_round_on [of y] y v(3) u(2) fx(4) by (simp add: on_round_def)
qed

text \<open>Two players are ready when the window ends; a spectator has not read for a while.\<close>

definition full_house :: World where
  "full_house = (init_server_state (\<lambda>_. 100))\<lparr>join_deadline := 60, next_id := 4, players := (\<lambda>_. zero_player)
     (0 := zero_player\<lparr>p_id := 1, p_connected := True, p_registered := True, p_name := ''ann'', p_admitted := True,
        p_waiting := True, p_choice := CHR ''R'', p_choice_chosen := True, p_spawn_chosen := True,
        p_x := FFin False 1 0, p_y := FFin False 1 0\<rparr>,
      1 := zero_player\<lparr>p_id := 2, p_connected := True, p_registered := True, p_name := ''bob'', p_admitted := True,
        p_waiting := True, p_choice := CHR ''S'', p_choice_chosen := True, p_spawn_chosen := True,
        p_x := FFin False 8 0, p_y := FFin False 8 0\<rparr>,
      2 := zero_player\<lparr>p_id := 3, p_connected := True, p_outbuf := replicate 8185 (CHR ''x'')\<rparr>)\<rparr>"

lemma full_house_fields: "phase full_house = PHASE_LOBBY_OPEN" "join_deadline full_house = 60"
  "round_no full_house = 0" "next_id full_house = 4" "time_now full_house = 100"
  by (simp_all add: full_house_def init_server_state_def time_now_def)

lemma world_ok_full_house: "world_ok full_house"
proof -
  have "slot_ok (players full_house i)" for i
    by (simp add: full_house_def slot_ok_def buffers_ok_def setup_ok_def zero_player_def rps_char_def placed_def
        coord_ok_def on_grid_def F32_def with_sign_def valid_name_def is_space_def char_code_def
        OUTBUF_SIZE_def INBUF_SIZE_def MAX_NAME_LENGTH_def)
  then show ?thesis
    by (simp add: world_ok_def world_defs full_house_fields)
      (simp add: full_house_def player_is_registered_def player_is_alive_def zero_player_def MAX_PLAYERS_def)
qed

theorem round_started_twice_witness: "round_no (close_lobby_if_needed full_house) = 2"
proof -
  have "crowded 2 full_house"
    by (simp add: crowded_def full_house_def zero_player_def MAX_PLAYERS_def OUTBUF_SIZE_def)
  moreover have "{i. i < MAX_PLAYERS \<and> player_is_admitted (players full_house i)} = {0, 1}"
    by (auto simp: full_house_def player_is_admitted_def zero_player_def MAX_PLAYERS_def)
  then have "admitted_count full_house = 2" by (simp add: admitted_count_def count_players_card)
  ultimately show ?thesis
    using round_started_twice [OF world_ok_full_house, of 2] by (simp add: full_house_fields INT_MAX_def)
qed

end
