(* ===== verification/Endless.thy ===== *)
theory Endless
  imports Match_End Restart
begin

text \<open>
  A round that does not end: what a client gets by spawning at NaN. With players of two types whom
  nobody can capture, and clients that listen, the loop goes on in the round at every time, long
  after the deadline that \<open>ROUND_START\<close> announced, which no timer of the server reads.
\<close>

section \<open>Players nobody can capture\<close>

text \<open>A player at NaN, or one whose every predator is: a distance that is NaN is never small enough.\<close>

definition uncatchable :: "nat \<Rightarrow> World \<Rightarrow> bool" where
  "uncatchable i w \<longleftrightarrow> player_is_alive (players w i) \<and> (nan_at (players w i) \<or>
     (\<forall>k. player_is_alive (players w k) \<and> can_eat (p_choice (players w k)) (p_choice (players w i)) \<longrightarrow>
        nan_at (players w k)))"

lemma alive_before_hunt: "player_is_alive (players (hunt dt m w) k) \<Longrightarrow> player_is_alive (players w k)"
  by (cases dt m w rule: hunt_cases) (auto split: if_splits)

lemma nan_hunter: 
  assumes "nan_at (players w m)"
  shows "player_is_alive (players (hunt dt m w) i) \<longleftrightarrow> player_is_alive (players w i)"
proof (cases "player_is_alive (players w m)")
  case True
  show ?thesis
  proof (cases "find_nearest_prey w m")
    case (Some k)
    define v where "v = upd_player m (move_toward dt (players w k)) w"
    have "nan_at (players v m)" using assms by (simp add: v_def move_toward_nan)
    then have "\<not> fp_le (distance (players v m) (players v k)) CAPTURE_RADIUS"
      "\<not> fp_le (distance (players w m) (players w k)) CAPTURE_RADIUS"
      using assms distance_nan by simp_all
    then have "hunt dt m w = v" using True Some by (simp add: hunt_def Let_def flip: v_def)
    then show ?thesis by (simp add: v_def)
  qed (simp add: hunt_def)
qed (simp add: hunt_def)

lemma uncatchable_hunt:
  assumes "uncatchable i w"
  shows "uncatchable i (hunt dt m w)"
proof -
  have i: "player_is_alive (players w i)" using assms by (simp add: uncatchable_def)
  show ?thesis
  proof (cases "nan_at (players w i)")
    case True
    with hunt_nan [OF i True] show ?thesis by (simp add: uncatchable_def)
  next
    case False
    then have eat: "nan_at (players w k)"
      if "player_is_alive (players w k)" "can_eat (p_choice (players w k)) (p_choice (players w i))" for k
      using assms that by (auto simp: uncatchable_def)
    have "player_is_alive (players (hunt dt m w) i)"
    proof (cases "player_is_alive (players w m) \<and> find_nearest_prey w m = Some i")
      case True
      then have "nan_at (players w m)" using target_is_prey [of w m i] eat by blast
      with i show ?thesis by (simp add: nan_hunter)
    next
      case False
      then show ?thesis using i by (cases dt m w rule: hunt_cases) auto
    qed
    moreover have "nan_at (players (hunt dt m w) k)"
      if "player_is_alive (players (hunt dt m w) k)" "can_eat (p_choice (players w k)) (p_choice (players w i))" for k
      using that eat [of k] hunt_nan [of w k dt m] alive_before_hunt [OF that(1)] by simp
    ultimately show ?thesis by (simp add: uncatchable_def)
  qed
qed

section \<open>Clients that listen\<close>

text \<open>Nobody connects, leaves or sends; every \<open>send\<close> takes all it is given.\<close>

definition attentive :: "Event \<Rightarrow> bool" where
  "attentive ev \<longleftrightarrow> (\<forall>fd. \<not> ev_readable ev fd) \<and> (\<forall>fd. ev_writable ev fd) \<and> (\<forall>i k. ev_send ev i k = Sent OUTBUF_SIZE)"

lemma quiet_reads: "attentive ev \<Longrightarrow> process_player_reads ev w = w"
  unfolding process_player_reads_def
  by (rule for_upto_inv [where I = "\<lambda>v. v = w"]) (simp_all add: process_read_def attentive_def)

lemma flush_all:
  assumes "attentive ev" and "length (p_outbuf p) \<le> OUTBUF_SIZE"
  shows "flush_player_output (ev_send ev i) p = (AllFlushed, p\<lparr>p_outbuf := []\<rparr>)"
proof -
  have "flush_loop (ev_send ev i) k [] = (AllFlushed, [])" for k by (subst flush_loop.simps) simp
  then have "flush_loop (ev_send ev i) 0 (p_outbuf p) = (AllFlushed, [])"
    using assms by (subst flush_loop.simps) (simp add: attentive_def OUTBUF_SIZE_def)
  then show ?thesis by (simp add: flush_player_output_def)
qed

lemma all_flushed:
  assumes ev: "attentive ev" and w: "world_ok w"
  shows "roomy w 0 (before_timers listen_fd ev w)"
proof -
  have "before_timers listen_fd ev w = for_upto MAX_PLAYERS (process_write ev) w"
    using ev quiet_reads [OF ev]
    by (simp add: before_timers_def accept_new_clients_def process_player_writes_def attentive_def)
  moreover have "\<exists>out. for_upto MAX_PLAYERS (process_write ev) w = w\<lparr>players := \<lambda>k. (players w k)\<lparr>p_outbuf := out k\<rparr>\<rparr> \<and>
      (\<forall>k. length (out k) \<le> OUTBUF_SIZE) \<and> (\<forall>k < MAX_PLAYERS. p_connected (players w k) \<longrightarrow> out k = [])"
  proof (rule for_upto_rule [where P = "\<lambda>n v. \<exists>out. v = w\<lparr>players := \<lambda>k. (players w k)\<lparr>p_outbuf := out k\<rparr>\<rparr> \<and>
      (\<forall>k. length (out k) \<le> OUTBUF_SIZE) \<and> (\<forall>k < n. p_connected (players w k) \<longrightarrow> out k = [])"])
    show "\<exists>out. w = w\<lparr>players := \<lambda>k. (players w k)\<lparr>p_outbuf := out k\<rparr>\<rparr> \<and>
      (\<forall>k. length (out k) \<le> OUTBUF_SIZE) \<and> (\<forall>k < 0. p_connected (players w k) \<longrightarrow> out k = [])"
      using world_ok_bufs(1) [OF w] by (intro exI [of _ "\<lambda>k. p_outbuf (players w k)"]) simp
  next
    fix i v
    assume "\<exists>out. v = w\<lparr>players := \<lambda>k. (players w k)\<lparr>p_outbuf := out k\<rparr>\<rparr> \<and>
      (\<forall>k. length (out k) \<le> OUTBUF_SIZE) \<and> (\<forall>k < i. p_connected (players w k) \<longrightarrow> out k = [])"
    then obtain out where v: "v = w\<lparr>players := \<lambda>k. (players w k)\<lparr>p_outbuf := out k\<rparr>\<rparr>"
      and out: "\<And>k. length (out k) \<le> OUTBUF_SIZE" "\<And>k. k < i \<Longrightarrow> p_connected (players w k) \<Longrightarrow> out k = []"
      by blast
    have "process_write ev i v = (if p_connected (players w i) then upd_player i (\<lambda>p. p\<lparr>p_outbuf := []\<rparr>) v else v)"
      using ev flush_all [OF ev, of "players v i" i] out(1) [of i]
      by (simp add: process_write_def v attentive_def upd_player_def)
    also have "\<dots> = w\<lparr>players := \<lambda>k. (players w k)\<lparr>p_outbuf := if k = i \<and> p_connected (players w i) then [] else out k\<rparr>\<rparr>"
      by (auto simp: v upd_player_def fun_eq_iff)
    finally show "\<exists>out. process_write ev i v = w\<lparr>players := \<lambda>k. (players w k)\<lparr>p_outbuf := out k\<rparr>\<rparr> \<and>
      (\<forall>k. length (out k) \<le> OUTBUF_SIZE) \<and> (\<forall>k < Suc i. p_connected (players w k) \<longrightarrow> out k = [])"
      by (intro exI [of _ "\<lambda>k. if k = i \<and> p_connected (players w i) then [] else out k"])
        (auto simp: out less_Suc_eq)
  qed
  ultimately show ?thesis by (auto simp: roomy_def)
qed

section \<open>The round goes on\<close>

text \<open>A round between players of two types whom nobody can capture.\<close>

definition stalemate :: "nat \<Rightarrow> nat \<Rightarrow> World \<Rightarrow> bool" where
  "stalemate i j w \<longleftrightarrow> world_ok w \<and> phase w = PHASE_ROUND_ACTIVE \<and> uncatchable i w \<and> uncatchable j w \<and>
     p_choice (players w i) \<noteq> p_choice (players w j)"

lemma stalemate_roomy:
  assumes w: "stalemate i j w" and r: "roomy w B v" and v: "world_ok v"
  shows "stalemate i j v"
proof -
  obtain out where "v = w\<lparr>players := \<lambda>k. (players w k)\<lparr>p_outbuf := out k\<rparr>\<rparr>" using r by (auto simp: roomy_def)
  then show ?thesis
    using w v by (simp add: stalemate_def uncatchable_def player_is_alive_def nan_at_def)
qed

lemma two_types_left:
  assumes w: "world_ok w" and "uncatchable i w" and "uncatchable j w"
    and "p_choice (players w i) \<noteq> p_choice (players w j)"
  shows "2 \<le> count_choice_types_alive w"
proof -
  have "p_choice (players w k) \<in> alive_types w" if "uncatchable k w" for k
  proof -
    have a: "player_is_alive (players w k)" using that by (simp add: uncatchable_def)
    then have "p_connected (players w k)" "setup_ok (players w k)" "p_admitted (players w k)"
      using world_ok_slot [OF w, of k] by (auto simp: player_is_alive_def slot_ok_def)
    then show ?thesis
      using a w by (auto simp: alive_types_def alive_set_def setup_ok_def rps_char_def world_ok_def world_defs)
  qed
  then have "{p_choice (players w i), p_choice (players w j)} \<subseteq> alive_types w" using assms(2,3) by simp
  from card_mono [OF _ this] show ?thesis
    using assms(4) by (simp add: count_choice_types_alive_card alive_types_def)
qed

lemma hunts_roomy:
  assumes "roomy w 0 v"
  shows "roomy (for_upto MAX_PLAYERS (hunt dt) v) 0 (for_upto MAX_PLAYERS (hunt dt) v)"
proof -
  let ?I = "\<lambda>v. \<forall>k < MAX_PLAYERS. p_connected (players v k) \<longrightarrow> p_outbuf (players v k) = []"
  have "?I (hunt dt i u)" if "?I u" for i u
    using that by (cases dt i u rule: hunt_cases) (auto simp: capture_def)
  moreover have "?I v" using assms by (auto simp: roomy_def)
  ultimately have "?I (for_upto MAX_PLAYERS (hunt dt) v)" by (intro for_upto_inv [where I = ?I]) simp_all
  then show ?thesis by (intro roomy_refl) simp
qed

lemma stalemate_tick:
  assumes v: "stalemate i j v" and r: "roomy w 0 v"
  shows "stalemate i j (broadcast_positions (snd (simulate_chase_tick v CHASE_DT)))"
    and "\<not> fst (simulate_chase_tick v CHASE_DT)"
proof -
  let ?u = "for_upto MAX_PLAYERS (hunt CHASE_DT) v"
  have v': "world_ok v" "phase v = PHASE_ROUND_ACTIVE" using v by (simp_all add: stalemate_def)
  then have ok: "world_ok ?u" by (rule srv.chase_inv)
  have un: "uncatchable k ?u" if "uncatchable k v" for k
    using that uncatchable_hunt by (rule for_upto_inv)
  have choice: "p_choice (players ?u k) = p_choice (players v k)" for k
    by (rule for_upto_inv [where I = "\<lambda>x. p_choice (players x k) = p_choice (players v k)"]) simp_all
  have u: "stalemate i j ?u" using v ok un by (simp add: stalemate_def choice)
  then have "2 \<le> count_choice_types_alive ?u" by (intro two_types_left [of ?u i j]) (simp_all add: stalemate_def)
  then show "\<not> fst (simulate_chase_tick v CHASE_DT)" by (simp add: chase_tick_eq Let_def)
  have "roomy ?u (0 + 65 * MAX_PLAYERS) (broadcast_positions ?u)"
    using admitted_line [OF ok] player_line_short
    by (intro roomy_positions hunts_roomy [OF r]) (auto simp: MAX_PLAYERS_def)
  with u have "stalemate i j (broadcast_positions ?u)"
    using ok by (intro stalemate_roomy [OF u] ok.broadcast_positions_inv) 
  then show "stalemate i j (broadcast_positions (snd (simulate_chase_tick v CHASE_DT)))"
    by (simp add: chase_tick_eq Let_def)
qed

lemma stalemate_iteration:
  assumes ev: "attentive ev" and l: "stalemate i j (lp_state l)"
  shows "stalemate i j (lp_state (server_iteration listen_fd ev l))"
proof -
  let ?v = "before_timers listen_fd ev (lp_state l)"
  have w: "world_ok (lp_state l)" using l by (simp add: stalemate_def)
  have r: "roomy (lp_state l) 0 ?v" using ev w by (rule all_flushed)
  have "world_ok ?v" unfolding before_timers_def using w by (rule srv.server_io_inv)
  with l r have v: "stalemate i j ?v" by (rule stalemate_roomy)
  then have "phase ?v = PHASE_ROUND_ACTIVE" by (simp add: stalemate_def)
  moreover obtain u where u: "simulate_chase_tick ?v CHASE_DT = (False, u)"
    using stalemate_tick(2) [OF v r] by (cases "simulate_chase_tick ?v CHASE_DT") simp
  ultimately have "fst (advance_match_timers now CHASE_TICK_SECONDS (?v, t)) \<in> {?v, broadcast_positions u}" for now t
    by (simp add: advance_match_timers_def close_lobby_if_needed_def expire_unready_setup_players_def
        Let_def flip: CHASE_DT_def)
  then show ?thesis
    using stalemate_tick(1) [OF v r] u v server_iteration_timers [of listen_fd ev l] by (metis fst_conv insertE singletonD snd_conv)
qed

text \<open>
  C37. A round in which two players of different types cannot be captured, because they or those
  who could are at NaN, never ends as long as the clients listen and nobody leaves: after any
  number of iterations, at whatever times, the server is still in it.
\<close>

theorem endless_round:
  assumes "world_ok (lp_state l)" and "phase (lp_state l) = PHASE_ROUND_ACTIVE"
    and "uncatchable i (lp_state l)" and "uncatchable j (lp_state l)"
    and "p_choice (players (lp_state l) i) \<noteq> p_choice (players (lp_state l) j)"
    and "\<And>k. attentive (evs k)"
  shows "phase (lp_state (iterations listen_fd evs l n)) = PHASE_ROUND_ACTIVE"
proof -
  have "stalemate i j (lp_state (iterations listen_fd evs l n))"
    by (induction n) (use assms in \<open>simp_all add: stalemate_iteration\<close>, simp add: stalemate_def)
  then show ?thesis by (simp add: stalemate_def)
qed

text \<open>The witness: the duel, with one of the two at NaN.\<close>

definition nan_duel :: Loop where
  "nan_duel = duel_loop\<lparr>lp_state := upd_player 1 (\<lambda>p. p\<lparr>p_x := FNaN False\<rparr>) duel\<rparr>"

definition listening :: "nat \<Rightarrow> Event" where
  "listening k = (each_second k)\<lparr>ev_writable := \<lambda>_. True, ev_send := \<lambda>_ _. Sent OUTBUF_SIZE\<rparr>"

theorem endless_round_witness:
  "phase (lp_state (iterations 3 listening nan_duel 1000000)) = PHASE_ROUND_ACTIVE"
proof (rule endless_round [of _ 0 1])
  show "world_ok (lp_state nan_duel)"
    unfolding nan_duel_def
    by (simp, rule not_alive_by_slot [OF world_ok_duel])
      (simp_all add: duel_def slot_ok_def buffers_ok_def setup_ok_def zero_player_def rps_char_def placed_def
        coord_ok_def on_grid_def F32_def with_sign_def valid_name_def is_space_def char_code_def
        OUTBUF_SIZE_def INBUF_SIZE_def MAX_NAME_LENGTH_def)
  show "phase (lp_state nan_duel) = PHASE_ROUND_ACTIVE" by (simp add: nan_duel_def duel_def)
  show "uncatchable 0 (lp_state nan_duel)" "uncatchable 1 (lp_state nan_duel)"
    by (auto simp: uncatchable_def nan_duel_def duel_def player_is_alive_def nan_at_def can_eat_def zero_player_def
        split: if_splits)
  show "p_choice (players (lp_state nan_duel) 0) \<noteq> p_choice (players (lp_state nan_duel) 1)"
    by (simp add: nan_duel_def duel_def)
  show "attentive (listening k)" for k
    by (simp add: attentive_def listening_def each_second_def quiet_event_def)
qed

end
