(* ===== verification/Admission.thy ===== *)
theory Admission
  imports Command_Props Restart
begin

text \<open>
  Who gets into a match: what \<open>maybe_admit_player\<close> (\<open>src/src/server_state.c\<close>) does to everybody when
  the clients have room for what they are sent, and what it does when one of them has not; and two
  players at one point.
\<close>

section \<open>Output buffers that only grow\<close>

text \<open>
  \<open>v\<close> is \<open>u\<close> later: only output buffers and the position on the clock differ, the buffers have grown,
  those of connected slots to at most \<open>b k\<close> bytes.
\<close>

definition grown :: "World \<Rightarrow> (nat \<Rightarrow> nat) \<Rightarrow> World \<Rightarrow> bool" where
  "grown u b v \<longleftrightarrow> (\<exists>out t. v = u\<lparr>players := \<lambda>k. (players u k)\<lparr>p_outbuf := out k\<rparr>, time_pos := t\<rparr> \<and>
     (\<forall>k. prefix (p_outbuf (players u k)) (out k) \<and> (p_connected (players u k) \<longrightarrow> length (out k) \<le> b k)))"

lemma grownI:
  assumes "v = u\<lparr>players := \<lambda>k. (players u k)\<lparr>p_outbuf := out k\<rparr>, time_pos := t\<rparr>"
    and "\<And>k. prefix (p_outbuf (players u k)) (out k)" and "\<And>k. p_connected (players u k) \<Longrightarrow> length (out k) \<le> b k"
  shows "grown u b v"
  using assms by (auto simp: grown_def)

lemma grownE:
  assumes "grown u b v"
  obtains out t where "v = u\<lparr>players := \<lambda>k. (players u k)\<lparr>p_outbuf := out k\<rparr>, time_pos := t\<rparr>"
    and "\<And>k. prefix (p_outbuf (players u k)) (out k)" and "\<And>k. p_connected (players u k) \<Longrightarrow> length (out k) \<le> b k"
  using assms by (auto simp: grown_def)

lemma grown_refl: "(\<And>k. p_connected (players u k) \<Longrightarrow> length (p_outbuf (players u k)) \<le> b k) \<Longrightarrow> grown u b u"
  by (auto simp: grown_def intro!: exI [of _ "\<lambda>k. p_outbuf (players u k)"] exI [of _ "time_pos u"])

lemma grown_mono: "grown u b v \<Longrightarrow> (\<And>k. b k \<le> c k) \<Longrightarrow> grown u c v"
  unfolding grown_def by (blast intro: order_trans)

lemma grown_tick: "grown u b v \<Longrightarrow> grown u b (time_tick v)"
  by (force simp: grown_def time_tick_def)

lemma grown_fields:
  assumes "grown u b v"
  shows "phase v = phase u" and "join_deadline v = join_deadline u" and "time_src v = time_src u"
    and "p_connected (players v k) = p_connected (players u k)"
    and "player_is_registered (players v k) = player_is_registered (players u k)"
    and "player_is_admitted (players v k) = player_is_admitted (players u k)"
    and "player_line (players v k) = player_line (players u k)"
    and "(players v k)\<lparr>p_outbuf := []\<rparr> = (players u k)\<lparr>p_outbuf := []\<rparr>"
    and "prefix (p_outbuf (players u k)) (p_outbuf (players v k))"
    and "p_connected (players u k) \<Longrightarrow> length (p_outbuf (players v k)) \<le> b k"
  using assms by (auto elim!: grownE simp: player_is_registered_def player_is_admitted_def player_line_def)

lemma grown_append:
  assumes "grown u b v" and "p_connected (players u i) \<Longrightarrow> length t \<le> L"
  shows "grown u (b(i := b i + L)) (append_out i t v)"
proof -
  from assms(1) obtain out p where v: "v = u\<lparr>players := \<lambda>k. (players u k)\<lparr>p_outbuf := out k\<rparr>, time_pos := p\<rparr>"
    and out: "\<And>k. prefix (p_outbuf (players u k)) (out k)" "\<And>k. p_connected (players u k) \<Longrightarrow> length (out k) \<le> b k"
    by (elim grownE) blast
  have "append_out i t v = u\<lparr>players := \<lambda>k. (players u k)\<lparr>p_outbuf := if k = i then out k @ t else out k\<rparr>, time_pos := p\<rparr>"
    by (auto simp: v append_out_def upd_player_def fun_eq_iff)
  moreover have "prefix (p_outbuf (players u k)) (if k = i then out k @ t else out k)" for k
    using out(1) [of k] by (auto intro: prefix_prefix)
  moreover have "p_connected (players u k) \<Longrightarrow> length (if k = i then out k @ t else out k) \<le> (b(i := b i + L)) k" for k
    using out(2) [of k] assms(2) by (auto intro: add_mono)
  ultimately show ?thesis by (rule grownI)
qed

text \<open>A checked step that succeeds and leaves the buffers within \<open>b\<close>.\<close>

definition queued :: "World \<Rightarrow> (nat \<Rightarrow> nat) \<Rightarrow> status \<times> World \<Rightarrow> bool" where
  "queued u b r \<longleftrightarrow> fst r = Success \<and> grown u b (snd r)"

lemma queued_Pair [simp]: "queued u b (Success, v) \<longleftrightarrow> grown u b v"
  by (simp add: queued_def)

lemma queuedE:
  assumes "queued u b r"
  obtains v where "r = (Success, v)" and "grown u b v"
  using assms by (cases r) (auto simp: queued_def)

lemma queued_and_then: "queued u b r \<Longrightarrow> (\<And>v. grown u b v \<Longrightarrow> queued u c (f v)) \<Longrightarrow> queued u c (and_then r f)"
  by (auto elim: queuedE)

lemma grown_queue_to:
  assumes v: "grown u b v" and i: "p_connected (players u i)"
    and t: "NUL \<notin> set t" "length t < L" "L \<le> 254" "b i + L \<le> OUTBUF_SIZE"
  shows "queued u (b(i := b i + L)) (queue_to i t v)"
proof -
  have "length (p_outbuf (players v i)) \<le> b i" using grown_fields(10) [OF v i] .
  then have "queue_to i t v = (Success, append_out i (t @ [newline]) v)"
    using t by (simp add: queue_to_eq cstr_id room_def MAX_LINE_def)
  moreover have "grown u (b(i := b i + L)) (append_out i (t @ [newline]) v)"
    using t(2) by (intro grown_append [OF v]) simp
  ultimately show ?thesis by simp
qed

lemma grown_broadcast:
  assumes v: "grown u b v" and t: "NUL \<notin> set t" "length t < L" "L \<le> 254"
    and b: "\<And>k. p_connected (players u k) \<Longrightarrow> k < MAX_PLAYERS \<and> b k + L \<le> OUTBUF_SIZE"
  shows "grown u (\<lambda>k. b k + L) (queue_broadcast t v)"
proof -
  have line: "cstr (snprintf_str MAX_LINE t) = t" using t by (simp add: snprintf_str_def cstr_id MAX_LINE_def)
  from v obtain out p where e: "v = u\<lparr>players := \<lambda>k. (players u k)\<lparr>p_outbuf := out k\<rparr>, time_pos := p\<rparr>"
    and out: "\<And>k. prefix (p_outbuf (players u k)) (out k)" "\<And>k. p_connected (players u k) \<Longrightarrow> length (out k) \<le> b k"
    by (elim grownE) blast
  have "room t (players v k)" if "p_connected (players v k)" for k
    using out(2) [of k] b [of k] that t by (simp add: room_def e MAX_LINE_def)
  then have "queue_broadcast t v = v\<lparr>players := \<lambda>k. if k < MAX_PLAYERS \<and> p_connected (players v k)
      then (players v k)\<lparr>p_outbuf := p_outbuf (players v k) @ t @ [newline]\<rparr> else players v k\<rparr>"
    by (intro queue_broadcast_all [of v t, unfolded line]) blast
  also have "\<dots> = u\<lparr>players := \<lambda>k. (players u k)\<lparr>p_outbuf :=
      if k < MAX_PLAYERS \<and> p_connected (players u k) then out k @ t @ [newline] else out k\<rparr>, time_pos := p\<rparr>"
    by (auto simp: e fun_eq_iff)
  finally have q: "queue_broadcast t v = \<dots>" .
  have "prefix (p_outbuf (players u k)) (if k < MAX_PLAYERS \<and> p_connected (players u k) then out k @ t @ [newline] else out k)" for k
    using out(1) [of k] by (auto intro: prefix_prefix)
  moreover have "length (if k < MAX_PLAYERS \<and> p_connected (players u k) then out k @ t @ [newline] else out k) \<le> b k + L"
    if "p_connected (players u k)" for k
    using out(2) [OF that] b [OF that] t(2) that by simp
  ultimately show ?thesis unfolding q by (intro grownI) (rule refl, simp_all only:)
qed

section \<open>Snapshots with room\<close>

text \<open>A lobby whose times fit their types.\<close>

definition timely :: "World \<Rightarrow> bool" where
  "timely w \<longleftrightarrow> (\<forall>n. 0 \<le> time_src w n \<and> time_src w n + JOIN_WINDOW_SECONDS \<le> LONG_MAX) \<and> join_deadline w \<le> LONG_MAX"

lemma timely_left: "timely u \<Longrightarrow> grown u b v \<Longrightarrow> length (int_str (seconds_left (join_deadline v) v)) \<le> 20"
proof -
  assume u: "timely u" and v: "grown u b v"
  have "0 \<le> time_now v" "join_deadline v \<le> LONG_MAX"
    using u by (simp_all add: timely_def time_now_def grown_fields(2,3) [OF v])
  then have "length (int_str (seconds_left (join_deadline v) v)) \<le> Suc 19"
    by (intro int_str_length) (auto simp: seconds_left_def Let_def LONG_MAX_def)
  then show ?thesis by simp
qed

lemma grown_phase_lines:
  assumes v: "grown u b v" and u: "phase u = PHASE_LOBBY_OPEN" "timely u" and i: "p_connected (players u i)"
    and b: "b i + 40 \<le> OUTBUF_SIZE"
  shows "queued u (b(i := b i + 40)) (queue_phase_lines i v)"
proof -
  let ?t = "''LOBBY_OPEN '' @ int_str (seconds_left (join_deadline v) v)"
  have "NUL \<notin> set ?t" using int_str_plain [of "seconds_left (join_deadline v) v"]
    by (auto simp: list_all_iff plain_char_def)
  moreover have "length ?t < 40" using timely_left [OF u(2) v] by simp
  ultimately have "queued u (b(i := b i + 40)) (queue_to i ?t (time_tick v))"
    using b by (intro grown_queue_to [OF grown_tick [OF v] i]) simp_all
  moreover have "queued u (b(i := b i + 40)) (queue_to i ''LOBBY_WAITING'' v)"
    using b by (intro grown_queue_to [OF v i]) simp_all
  ultimately show ?thesis using u(1) by (simp add: queue_phase_lines_def grown_fields(1) [OF v])
qed

lemma grown_player_lines:
  assumes v: "grown u b v" and i: "p_connected (players u i)" and b: "b i + 65 * MAX_PLAYERS \<le> OUTBUF_SIZE"
    and lines: "\<And>k. player_is_admitted (players u k) \<Longrightarrow>
      NUL \<notin> set (player_line (players u k)) \<and> length (player_line (players u k)) \<le> 64"
  shows "queued u (b(i := b i + 65 * MAX_PLAYERS)) (queue_player_lines i v)"
  unfolding queue_player_lines_def
proof (rule for_upto_rule [where P = "\<lambda>n. queued u (b(i := b i + 65 * n))"])
  fix k r
  assume k: "k < MAX_PLAYERS" and r: "queued u (b(i := b i + 65 * k)) r"
  have le: "65 * k + 65 \<le> 65 * MAX_PLAYERS" using k by simp
  show "queued u (b(i := b i + 65 * Suc k)) (and_then r (\<lambda>w.
      if player_is_admitted (players w k) then queue_to i (player_line (players w k)) w else (Success, w)))"
  proof (rule queued_and_then [OF r])
    fix x
    assume x: "grown u (b(i := b i + 65 * k)) x"
    have "queued u ((b(i := b i + 65 * k))(i := (b(i := b i + 65 * k)) i + 65)) (queue_to i (player_line (players x k)) x)"
      if "player_is_admitted (players x k)"
      using lines [of k] that b le
      by (intro grown_queue_to [OF x i]) (simp_all add: grown_fields(6,7) [OF x])
    moreover have "grown u (b(i := b i + 65 * Suc k)) x" using x by (rule grown_mono) simp
    ultimately show "queued u (b(i := b i + 65 * Suc k)) (if player_is_admitted (players x k)
        then queue_to i (player_line (players x k)) x else (Success, x))"
      by (simp add: ac_simps)
  qed
qed (use v in simp)

text \<open>A lobby in which every admitted player has a line of at most 64 bytes.\<close>

definition short_lines :: "World \<Rightarrow> bool" where
  "short_lines u \<longleftrightarrow> (\<forall>k. player_is_admitted (players u k) \<longrightarrow>
     NUL \<notin> set (player_line (players u k)) \<and> length (player_line (players u k)) \<le> 64)"

lemma world_ok_short_lines: "world_ok u \<Longrightarrow> short_lines u"
  using admitted_line player_line_short by (simp add: short_lines_def)

lemma grown_snapshot:
  assumes v: "grown u b v" and u: "phase u = PHASE_LOBBY_OPEN" "timely u" "short_lines u"
    and i: "p_connected (players u i)" and b: "b i + 2142 \<le> OUTBUF_SIZE"
  shows "queued u (b(i := b i + 2142)) (queue_game_state_for_player i v)"
  unfolding queue_game_state_for_player_def
proof (intro queued_and_then)
  show "queued u (b(i := b i + 12)) (queue_to i ''STATE_BEGIN'' v)"
    using b by (intro grown_queue_to [OF v i]) simp_all
next
  fix x
  assume x: "grown u (b(i := b i + 12)) x"
  from grown_phase_lines [OF x u(1,2) i] b show "queued u (b(i := b i + 52)) (queue_phase_lines i x)"
    by (simp add: ac_simps)
next
  fix x
  assume x: "grown u (b(i := b i + 52)) x"
  from grown_player_lines [OF x i] b u(3) show "queued u (b(i := b i + 2132)) (queue_player_lines i x)"
    by (simp add: short_lines_def MAX_PLAYERS_def ac_simps)
next
  fix x
  assume x: "grown u (b(i := b i + 2132)) x"
  from grown_queue_to [OF x i, of "''STATE_END''" 10] b show "queued u (b(i := b i + 2142)) (queue_to i ''STATE_END'' x)"
    by (simp add: ac_simps)
qed

lemma grown_game_state:
  assumes v: "grown u b v" and u: "phase u = PHASE_LOBBY_OPEN" "timely u" "short_lines u"
    and b: "\<And>k. p_connected (players u k) \<Longrightarrow> b k + 2142 \<le> OUTBUF_SIZE"
  shows "grown u (\<lambda>k. b k + 2142) (broadcast_game_state v)"
proof -
  have "\<not> snd (state_loop v) \<and> grown u (\<lambda>k. if k < MAX_PLAYERS then b k + 2142 else b k) (fst (state_loop v))"
    unfolding state_loop_def
  proof (rule for_upto_rule [where P = "\<lambda>n r. \<not> snd r \<and> grown u (\<lambda>k. if k < n then b k + 2142 else b k) (fst r)"])
    fix i r
    let ?b = "\<lambda>n k. if k < n then b k + 2142 else b k"
    assume "\<not> snd r \<and> grown u (?b i) (fst r)"
    then obtain x where r: "r = (x, False)" and x: "grown u (?b i) x" by (cases r) auto
    have step: "(?b i)(i := ?b i i + 2142) = ?b (Suc i)" by (auto simp: fun_eq_iff less_Suc_eq)
    show "\<not> snd (case r of (w, dropped) \<Rightarrow> if player_is_registered (players w i)
          then case queue_game_state_for_player i w of (Success, w') \<Rightarrow> (w', dropped) | (Failure, w') \<Rightarrow> (drop_slot i w', True)
          else (w, dropped)) \<and>
      grown u (?b (Suc i)) (fst (case r of (w, dropped) \<Rightarrow> if player_is_registered (players w i)
          then case queue_game_state_for_player i w of (Success, w') \<Rightarrow> (w', dropped) | (Failure, w') \<Rightarrow> (drop_slot i w', True)
          else (w, dropped)))"
    proof (cases "player_is_registered (players x i)")
      case True
      then have "player_is_registered (players u i)" using grown_fields(5) [OF x, of i] by simp
      then have "p_connected (players u i)" by (simp add: player_is_registered_def)
      then have "queued u ((?b i)(i := ?b i i + 2142)) (queue_game_state_for_player i x)"
        using b [of i] by (intro grown_snapshot [OF x u]) simp_all
      then obtain y where "queue_game_state_for_player i x = (Success, y)" "grown u ((?b i)(i := ?b i i + 2142)) y"
        by (rule queuedE)
      with True step show ?thesis by (simp add: r)
    next
      case False
      then show ?thesis using grown_mono [OF x, of "?b (Suc i)"] by (simp add: r)
    qed
  qed (use v in simp)
  moreover have "grown u (\<lambda>k. b k + 2142) x"
    if "grown u (\<lambda>k. if k < MAX_PLAYERS then b k + 2142 else b k) x" for x
    using that by (rule grown_mono) simp
  ultimately show ?thesis
    by (simp add: broadcast_game_state_def broadcast_game_state_with_def split: prod.split) (metis fst_conv snd_conv)
qed

section \<open>Admission with room\<close>

text \<open>All connected clients but those in \<open>J\<close> have at most \<open>B\<close> bytes left to read.\<close>

definition at_ease :: "nat set \<Rightarrow> nat \<Rightarrow> World \<Rightarrow> bool" where
  "at_ease J B w \<longleftrightarrow> (\<forall>k. k \<notin> J \<longrightarrow> p_connected (players w k) \<longrightarrow> length (p_outbuf (players w k)) \<le> B)"

text \<open>
  What admission changes: the player's flags, and output buffers, the player's by \<open>ts\<close> first.
\<close>

definition admitted_as :: "nat \<Rightarrow> string list \<Rightarrow> World \<Rightarrow> World \<Rightarrow> bool" where
  "admitted_as i ts w v \<longleftrightarrow>
     (\<forall>k. (players v k)\<lparr>p_outbuf := []\<rparr> = (if k = i then (players w i)\<lparr>p_admitted := True, p_waiting := True, p_outbuf := []\<rparr>
        else (players w k)\<lparr>p_outbuf := []\<rparr>)) \<and>
     prefix (p_outbuf (players w i) @ wire ts) (p_outbuf (players v i)) \<and> phase v = phase w"

lemma admit_at_ease:
  assumes w: "world_ok w" "phase w = PHASE_LOBBY_OPEN" "timely w" "at_ease {} 5600 w"
    and i: "p_connected (players w i)" "p_registered (players w i)" "\<not> p_admitted (players w i)"
      "p_choice_chosen (players w i)" "p_spawn_chosen (players w i)"
  shows "admitted_as i [''JOINED_MATCH''] w (admit_player i w)" and "join_deadline (admit_player i w) = join_deadline w"
proof -
  define a where "a = upd_player i (\<lambda>p. p\<lparr>p_admitted := True, p_waiting := True\<rparr>) w"
  define u where "u = append_out i (''JOINED_MATCH'' @ [newline]) a"
  have "world_ok a" using w(1,2) i unfolding a_def by (intro srv.inv_admit) simp_all
  moreover have fits: "length (p_outbuf (players a k)) \<le> 5600" if "p_connected (players a k)" for k
    using w(4) that by (auto simp: at_ease_def a_def split: if_splits)
  ultimately have "world_ok u"
    unfolding u_def using i(1) fits [of i] by (intro ok.inv_out) (simp_all add: fits_out_def a_def OUTBUF_SIZE_def)
  have q: "queue_or_drop i ''JOINED_MATCH'' a = (Success, u)"
    using fits [of i] i(1) by (simp add: queue_or_drop_def queue_to_eq cstr_def room_def u_def a_def MAX_LINE_def OUTBUF_SIZE_def)
  have u: "phase u = PHASE_LOBBY_OPEN" "timely u" "short_lines u" "join_deadline u = join_deadline w"
    using w(2,3) world_ok_short_lines [OF \<open>world_ok u\<close>] by (simp_all add: u_def a_def timely_def append_out_def)
  have max: "p_connected (players u k) \<Longrightarrow> k < MAX_PLAYERS" for k
    using \<open>world_ok u\<close> by (simp add: world_ok_def world_defs)
  have g: "grown u (\<lambda>_. 5613) u"
    using fits by (intro grown_refl) (fastforce simp: u_def players_append_out split: if_splits)
  have "valid_name (p_name (players u i)) \<and> NUL \<notin> set (p_name (players u i))"
    using world_ok_slot [OF \<open>world_ok u\<close>, of i] i(1,2) by (simp add: slot_ok_def setup_ok_def u_def a_def players_append_out)
  then have "grown u (\<lambda>_. 5613 + 50) (queue_broadcast (''JOINED '' @ p_name (players u i)) u)"
    using max by (intro grown_broadcast [OF g]) (auto simp: valid_name_def MAX_NAME_LENGTH_def OUTBUF_SIZE_def)
  then have "grown u (\<lambda>_. 5663 + 2142) (broadcast_game_state (queue_broadcast (''JOINED '' @ p_name (players u i)) u))"
    by (intro grown_game_state u) (simp_all add: OUTBUF_SIZE_def)
  then have v: "grown u (\<lambda>_. 7805) (admit_player i w)" by (simp add: admit_player_def q flip: a_def)
  show "join_deadline (admit_player i w) = join_deadline w" using u(4) by (simp add: grown_fields(2) [OF v])
  show "admitted_as i [''JOINED_MATCH''] w (admit_player i w)"
    unfolding admitted_as_def grown_fields(8) [OF v] grown_fields(1) [OF v]
    using grown_fields(9) [OF v, of i] u(1) w(2) by (simp add: u_def a_def players_append_out)
qed

lemma opening_at_ease:
  assumes w: "world_ok w" "phase w = PHASE_LOBBY_OPEN" "timely w" "at_ease {} 5500 w" and i: "p_connected (players w i)"
  defines "z \<equiv> queue_broadcast opening_line (time_tick (w\<lparr>join_deadline := time_now w + JOIN_WINDOW_SECONDS\<rparr>))"
  shows "world_ok z" and "phase z = PHASE_LOBBY_OPEN" and "timely z" and "at_ease {} 5600 z"
    and "join_deadline z = time_now w + JOIN_WINDOW_SECONDS"
    and "(players z k)\<lparr>p_outbuf := []\<rparr> = (players w k)\<lparr>p_outbuf := []\<rparr>"
    and "p_outbuf (players z i) = p_outbuf (players w i) @ wire [opening_line]"
proof -
  define y where "y = time_tick (w\<lparr>join_deadline := time_now w + JOIN_WINDOW_SECONDS\<rparr>)"
  have "world_ok y" unfolding y_def using w(1,2) by (intro ok.inv_tick srv.inv_join_deadline)
  then show "world_ok z" unfolding z_def y_def [symmetric] by (rule ok.queue_broadcast_inv)
  have len: "length opening_line = 13" by (simp add: opening_line_def)
  have fits: "length (p_outbuf (players y k)) \<le> 5500" if "p_connected (players y k)" for k
    using w(4) that by (simp add: at_ease_def y_def)
  then have "room opening_line (players y k)" if "p_connected (players y k)" for k
    using fits [OF that] by (simp add: room_def len MAX_LINE_def OUTBUF_SIZE_def)
  then have z: "z = y\<lparr>players := \<lambda>k. if k < MAX_PLAYERS \<and> p_connected (players y k)
      then (players y k)\<lparr>p_outbuf := p_outbuf (players y k) @ opening_line @ [newline]\<rparr> else players y k\<rparr>"
    unfolding z_def y_def [symmetric] by (intro queue_broadcast_all [of y opening_line, unfolded opening_line_eq(2)]) blast
  have "i < MAX_PLAYERS" using w(1) i by (simp add: world_ok_def world_defs)
  then show "p_outbuf (players z i) = p_outbuf (players w i) @ wire [opening_line]" using i by (simp add: z y_def)
  show "phase z = PHASE_LOBBY_OPEN" "join_deadline z = time_now w + JOIN_WINDOW_SECONDS"
    "(players z k)\<lparr>p_outbuf := []\<rparr> = (players w k)\<lparr>p_outbuf := []\<rparr>"
    using w(2) by (simp_all add: z y_def)
  show "timely z" using w(3) by (simp add: timely_def z y_def time_now_def time_tick_def)
  show "at_ease {} 5600 z" using fits by (fastforce simp: at_ease_def z len)
qed

lemma admitted_as_from:
  assumes "admitted_as i us z v" and "\<And>k. (players z k)\<lparr>p_outbuf := []\<rparr> = (players w k)\<lparr>p_outbuf := []\<rparr>"
    and "p_outbuf (players z i) = p_outbuf (players w i) @ wire ts" and "phase z = phase w"
  shows "admitted_as i (ts @ us) w v"
proof -
  have "(players z i)\<lparr>p_admitted := True, p_waiting := True, p_outbuf := []\<rparr> =
      (players w i)\<lparr>p_admitted := True, p_waiting := True, p_outbuf := []\<rparr>"
    using assms(2) [of i] by (cases "players z i"; cases "players w i") simp
  then show ?thesis using assms by (simp add: admitted_as_def wire_def)
qed

lemma same_but_output:
  assumes "(p::Player)\<lparr>p_outbuf := []\<rparr> = q\<lparr>p_outbuf := []\<rparr>"
  shows "p_connected p = p_connected q" "p_registered p = p_registered q" "p_admitted p = p_admitted q"
    "p_choice_chosen p = p_choice_chosen q" "p_spawn_chosen p = p_spawn_chosen q" "p_waiting p = p_waiting q"
    "p_x p = p_x q" "p_y p = p_y q"
  using arg_cong [OF assms, of p_connected] arg_cong [OF assms, of p_registered] arg_cong [OF assms, of p_admitted]
    arg_cong [OF assms, of p_choice_chosen] arg_cong [OF assms, of p_spawn_chosen] arg_cong [OF assms, of p_waiting]
    arg_cong [OF assms, of p_x] arg_cong [OF assms, of p_y] by simp_all

text \<open>A player who is ready for the match and not in it.\<close>

definition ready_to_join :: "nat \<Rightarrow> World \<Rightarrow> bool" where
  "ready_to_join i w \<longleftrightarrow> p_connected (players w i) \<and> p_registered (players w i) \<and> \<not> p_admitted (players w i) \<and>
     p_choice_chosen (players w i) \<and> p_spawn_chosen (players w i)"

lemma window_admits:
  assumes w: "world_ok w" "phase w = PHASE_LOBBY_OPEN" "timely w" "at_ease {} 5500 w" and i: "ready_to_join i w"
    and "open": "join_deadline w = 0 \<or> time_now w < join_deadline w"
  shows "admitted_as i ((if join_deadline w = 0 then [opening_line] else []) @ [''JOINED_MATCH'']) w (maybe_admit_player i w)"
    and "join_deadline (maybe_admit_player i w) =
      (if join_deadline w = 0 then time_now w + JOIN_WINDOW_SECONDS else join_deadline w)"
proof -
  have ready: "p_connected (players w i)" "p_registered (players w i)" "\<not> p_admitted (players w i)"
    "p_choice_chosen (players w i)" "p_spawn_chosen (players w i)"
    using i by (simp_all add: ready_to_join_def)
  have "admitted_as i ((if join_deadline w = 0 then [opening_line] else []) @ [''JOINED_MATCH'']) w (maybe_admit_player i w) \<and>
    join_deadline (maybe_admit_player i w) = (if join_deadline w = 0 then time_now w + JOIN_WINDOW_SECONDS else join_deadline w)"
  proof (cases "join_deadline w = 0")
    case True
    define z where "z = queue_broadcast opening_line (time_tick (w\<lparr>join_deadline := time_now w + JOIN_WINDOW_SECONDS\<rparr>))"
    note z = opening_at_ease [OF w ready(1), folded z_def]
    have m: "maybe_admit_player i w = admit_player i z"
      using ready w(2) True by (simp add: maybe_admit_player_def Let_def z_def opening_line_eq(1) [symmetric])
    have "ready_to_join i z" using ready same_but_output [OF z(6), of i] by (simp add: ready_to_join_def)
    then have "admitted_as i [''JOINED_MATCH''] z (admit_player i z)" "join_deadline (admit_player i z) = join_deadline z"
      unfolding ready_to_join_def using admit_at_ease [OF z(1-4)] by blast+
    with admitted_as_from [OF _ z(6,7)] z(2,5) w(2) True show ?thesis by (simp add: m)
  next
    case False
    have "at_ease {} 5600 (time_tick w)" using w(4) by (fastforce simp: at_ease_def)
    moreover have "timely (time_tick w)" using w(3) by (simp add: timely_def time_tick_def)
    ultimately have "admitted_as i [''JOINED_MATCH''] (time_tick w) (admit_player i (time_tick w))"
      "join_deadline (admit_player i (time_tick w)) = join_deadline w"
      using admit_at_ease [OF ok.inv_tick [OF w(1)], of i] w(2) ready by simp_all
    then show ?thesis using ready w(2) False "open" by (simp add: maybe_admit_player_def Let_def admitted_as_def)
  qed
  then show "admitted_as i ((if join_deadline w = 0 then [opening_line] else []) @ [''JOINED_MATCH'']) w (maybe_admit_player i w)"
    and "join_deadline (maybe_admit_player i w) = (if join_deadline w = 0 then time_now w + JOIN_WINDOW_SECONDS else join_deadline w)"
    by blast+
qed

text \<open>
  C20. A player who is ready for the match, in the lobby, gets into it exactly while the join window
  is unopened or running. In that time nobody keeps the player connected and outside; and if all
  clients have room (at most 5500 bytes unread, times that fit), the player is in: it is flagged as
  admitted and waiting, has been sent JOINED_MATCH next (after the announcement of the window, if it
  opens it), the window ends JOIN_WINDOW_SECONDS after its opening, and nobody else is changed but
  for output. When the window has passed, the player stays outside: it is sent the error and
  nothing else happens, or it is dropped for having no room for that line.
\<close>

theorem admission_window:
  assumes "world_ok w" and "phase w = PHASE_LOBBY_OPEN" and "ready_to_join i w"
  shows "let v = maybe_admit_player i w in
    phase v = PHASE_LOBBY_OPEN \<and>
    (if join_deadline w = 0 \<or> time_now w < join_deadline w
     then (p_connected (players v i) \<longrightarrow> p_admitted (players v i) \<and> p_waiting (players v i)) \<and>
       (timely w \<and> at_ease {} 5500 w \<longrightarrow>
          admitted_as i ((if join_deadline w = 0 then [''LOBBY_OPEN 60''] else []) @ [''JOINED_MATCH'']) w v \<and>
          join_deadline v = (if join_deadline w = 0 then time_now w + JOIN_WINDOW_SECONDS else join_deadline w))
     else if room ''ERROR lobby_closed'' (players w i)
     then v = append_out i (''ERROR lobby_closed'' @ [newline]) (time_tick w)
     else players v i = empty_slot)"
proof (cases "join_deadline w = 0 \<or> time_now w < join_deadline w")
  case True
  have "phase (queue_broadcast t (time_tick (w\<lparr>join_deadline := d\<rparr>))) = PHASE_LOBBY_OPEN" for t d
    using assms(2) by (intro lobby_phase.queue_broadcast_inv) simp
  then have "waits i (maybe_admit_player i w)"
    using assms True by (auto simp: maybe_admit_player_def Let_def ready_to_join_def intro!: admit_player_waits)
  with True window_admits [OF assms(1,2) _ _ assms(3) True] show ?thesis
    by (cases "join_deadline w = 0") (simp_all add: waits_def Let_def opening_line_def)
next
  case False
  let ?t = "''ERROR lobby_closed''"
  have m: "maybe_admit_player i w = snd (queue_or_drop i ?t (time_tick w))"
    using assms False by (simp add: maybe_admit_player_def Let_def ready_to_join_def)
  have r: "room ?t (players (time_tick w) i) = room ?t (players w i)" by simp
  show ?thesis
  proof (cases "room ?t (players w i)")
    case True
    with False assms(2) show ?thesis
      by (simp add: m queue_or_drop_def queue_to_eq cstr_def Let_def MAX_LINE_def)
  next
    case full: False
    then have "maybe_admit_player i w = reevaluate_lobby_open (drop_slot i (time_tick w))"
      using assms(2) by (simp add: m queue_or_drop_def queue_to_eq cstr_def lobby_reevaluate MAX_LINE_def)
    with False full assms show ?thesis
      by (simp add: reevaluate_lobby_open_def players_drop_slot ready_to_join_def Let_def)
  qed
qed

text \<open>One player at the door, and a spectator with \<open>n\<close> bytes unread.\<close>

definition doorstep :: "nat \<Rightarrow> World" where
  "doorstep n = (ready_world n)\<lparr>next_id := 3\<rparr>"

lemma players_doorstep: "players (doorstep n) k = (if k = 0 then ready_player else if k = 1
    then zero_player\<lparr>p_connected := True, p_outbuf := replicate n (CHR ''x'')\<rparr> else zero_player)"
  by (simp add: doorstep_def ready_world_def init_server_state_def)

lemma doorstep_facts: "phase (doorstep n) = PHASE_LOBBY_OPEN" "join_deadline (doorstep n) = 0"
  "next_id (doorstep n) = 3" "time_src (doorstep n) = (\<lambda>_. 0)" "time_now (doorstep n) = 0" "timely (doorstep n)"
  by (simp_all add: doorstep_def ready_world_def init_server_state_def time_now_def timely_def LONG_MAX_def
      JOIN_WINDOW_SECONDS_def)

lemma world_ok_doorstep: "n \<le> OUTBUF_SIZE \<Longrightarrow> world_ok (doorstep n)"
proof -
  assume "n \<le> OUTBUF_SIZE"
  then have "slot_ok (players (doorstep n) k)" for k
    by (simp add: players_doorstep ready_player_def slot_ok_def buffers_ok_def setup_ok_def zero_player_def rps_char_def
        placed_def coord_ok_def on_grid_def F32_def with_sign_def fp_zero_def valid_name_def is_space_def char_code_def
        OUTBUF_SIZE_def INBUF_SIZE_def MAX_NAME_LENGTH_def)
  then show ?thesis
    by (simp add: world_ok_def world_defs doorstep_facts)
      (simp add: players_doorstep ready_player_def player_is_registered_def player_is_alive_def zero_player_def MAX_PLAYERS_def)
qed

lemma ready_doorstep: "ready_to_join 0 (doorstep n)"
  by (simp add: ready_to_join_def players_doorstep ready_player_def zero_player_def)

theorem admission_window_witness:
  "p_admitted (players (maybe_admit_player 0 (doorstep 0)) 0) \<and> p_connected (players (maybe_admit_player 0 (doorstep 0)) 0) \<and>
   join_deadline (maybe_admit_player 0 (doorstep 0)) = 60 \<and>
   maybe_admit_player 0 ((doorstep 0)\<lparr>join_deadline := - 5\<rparr>) =
     append_out 0 (''ERROR lobby_closed'' @ [newline]) (time_tick ((doorstep 0)\<lparr>join_deadline := - 5\<rparr>))"
proof -
  have e: "at_ease {} 5500 (doorstep 0)"
    by (simp add: at_ease_def players_doorstep ready_player_def zero_player_def)
  have "admitted_as 0 [''LOBBY_OPEN 60'', ''JOINED_MATCH''] (doorstep 0) (maybe_admit_player 0 (doorstep 0))"
    "join_deadline (maybe_admit_player 0 (doorstep 0)) = 60"
    using admission_window [OF world_ok_doorstep doorstep_facts(1) ready_doorstep, of 0] e
    by (simp_all add: Let_def doorstep_facts JOIN_WINDOW_SECONDS_def)
  moreover have "maybe_admit_player 0 ((doorstep 0)\<lparr>join_deadline := - 5\<rparr>) =
     append_out 0 (''ERROR lobby_closed'' @ [newline]) (time_tick ((doorstep 0)\<lparr>join_deadline := - 5\<rparr>))"
    using admission_window [of "(doorstep 0)\<lparr>join_deadline := - 5\<rparr>" 0] world_ok_fields [OF world_ok_doorstep [of 0]]
      ready_doorstep [of 0]
    by (simp add: Let_def doorstep_facts ready_to_join_def players_doorstep time_now_def room_def ready_player_def
        zero_player_def MAX_LINE_def OUTBUF_SIZE_def)
  ultimately show ?thesis
    using same_but_output [of "players (maybe_admit_player 0 (doorstep 0)) 0"
        "ready_player\<lparr>p_admitted := True, p_waiting := True\<rparr>"]
    by (simp add: admitted_as_def players_doorstep ready_player_def)
qed

section \<open>The join window that is lost\<close>

interpretation tml: engine_step_inv timely
  by unfold_locales (simp_all add: timely_def append_out_def drop_slot_def time_tick_def start_round_def Let_def
      LONG_MAX_def for_upto_upd_frame)

text \<open>The announcement of the window when only client \<open>j\<close> has no room for it.\<close>

lemma opening_drops:
  assumes w: "world_ok w" "first_ready w i" "timely w" "at_ease {j} 5500 w"
    and j: "p_connected (players w j)" "\<not> room opening_line (players w j)"
  defines "z \<equiv> queue_broadcast opening_line (time_tick (w\<lparr>join_deadline := time_now w + JOIN_WINDOW_SECONDS\<rparr>))"
  shows "world_ok z" and "no_window z" and "timely z" and "at_ease {} 5600 z" and "players z j = empty_slot"
    and "k \<noteq> j \<Longrightarrow> (players z k)\<lparr>p_outbuf := []\<rparr> = (players w k)\<lparr>p_outbuf := []\<rparr>"
proof -
  define y where "y = time_tick (w\<lparr>join_deadline := time_now w + JOIN_WINDOW_SECONDS\<rparr>)"
  have ph: "phase w = PHASE_LOBBY_OPEN" using w(2) by (simp add: first_ready_def)
  have "world_ok y" unfolding y_def using w(1) ph by (intro ok.inv_tick srv.inv_join_deadline)
  then show "world_ok z" unfolding z_def y_def [symmetric] by (rule ok.queue_broadcast_inv)
  have "timely y" using w(3) by (simp add: timely_def y_def time_now_def time_tick_def)
  then show "timely z" unfolding z_def y_def [symmetric] by (rule tml.queue_broadcast_inv)
  have max: "p_connected (players w k) \<Longrightarrow> k < MAX_PLAYERS" for k using w(1) by (simp add: world_ok_def world_defs)
  have none: "admitted_set y = {}" using w(2) by (simp add: y_def admitted_set_def first_ready_def)
  show "no_window z" "players z j = empty_slot"
    using opening_dropped [of y j opening_line] ph none j max
    by (simp_all add: z_def y_def opening_line_eq)
  obtain v d where b: "broadcast_loop opening_line y = (v, d)" by fastforce
  note r = broadcast_loop_result [of opening_line y, unfolded b fst_conv snd_conv]
  have room: "room opening_line (players w k)" if "k \<noteq> j" "p_connected (players w k)" for k
    using w(4) that by (fastforce simp: at_ease_def room_def opening_line_def MAX_LINE_def OUTBUF_SIZE_def)
  then have d: "set d = {j}" using r j max by (auto simp: y_def)
  have vk: "players v k = (if p_connected (players w k) then (players w k)\<lparr>p_outbuf := p_outbuf (players w k) @ opening_line @ [newline]\<rparr>
      else players w k)" if "k \<noteq> j" for k
    using r room [OF that] max by (simp add: y_def)
  have "players z k = players (fold drop_slot d v) k" for k
  proof -
    have "phase (fold drop_slot d v) = PHASE_LOBBY_OPEN" 
    proof -
      have "v = y\<lparr>players := players v\<rparr>" using r by blast
      then have "phase v = phase y" by (metis ServerState.select_convs(4) ServerState.surjective ServerState.update_convs(1))
      then show ?thesis using ph by (simp add: y_def)
    qed
    then have "players (reevaluate_state (fold drop_slot d v)) k = players (fold drop_slot d v) k"
      by (simp add: lobby_reevaluate reevaluate_lobby_open_def)
    then show ?thesis
      by (simp add: z_def queue_broadcast_def queue_broadcast_with_def Let_def opening_line_eq(2) b flip: y_def)
  qed
  then have zk: "players z k = players v k" if "k \<noteq> j" for k using that by (simp add: players_fold_drops d)
  show "k \<noteq> j \<Longrightarrow> (players z k)\<lparr>p_outbuf := []\<rparr> = (players w k)\<lparr>p_outbuf := []\<rparr>" by (simp add: zk vk)
  show "at_ease {} 5600 z"
    unfolding at_ease_def
  proof (intro allI impI)
    fix k
    assume c: "p_connected (players z k)"
    then have "k \<noteq> j" using \<open>players z j = empty_slot\<close> by auto
    with c w(4) show "length (p_outbuf (players z k)) \<le> 5600"
      by (fastforce simp: zk vk at_ease_def opening_line_def split: if_splits)
  qed
qed

text \<open>
  C34. The first player to be ready opens the join window. If some other client, not even a player,
  has no room for that announcement (all the others have room, and times fit), it is dropped, and the re-evaluation that follows closes the
  window again because nobody is admitted yet: the player is then admitted (connected, flagged and
  waiting) into a lobby without a deadline, which no timer ever closes.
\<close>

theorem join_window_lost:
  assumes "world_ok w" and "first_ready w i" and "timely w" and "at_ease {j} 5500 w"
    and "j \<noteq> i" and "p_connected (players w j)" and "\<not> room opening_line (players w j)"
  shows "let v = maybe_admit_player i w in
    p_connected (players v i) \<and> p_admitted (players v i) \<and> p_waiting (players v i) \<and> \<not> p_connected (players v j) \<and>
    phase v = PHASE_LOBBY_OPEN \<and> join_deadline v = 0 \<and> close_lobby_if_needed v = v"
proof -
  define z where "z = queue_broadcast opening_line (time_tick (w\<lparr>join_deadline := time_now w + JOIN_WINDOW_SECONDS\<rparr>))"
  note z = opening_drops [OF assms(1-4,6,7), folded z_def]
  have m: "maybe_admit_player i w = admit_player i z" by (simp add: maybe_admit_first [OF assms(2)] z_def)
  have nz: "phase z = PHASE_LOBBY_OPEN" "join_deadline z = 0" using z(2) by (simp_all add: no_window_def)
  have i: "p_connected (players w i)" "p_registered (players w i)" "\<not> p_admitted (players w i)"
    "p_choice_chosen (players w i)" "p_spawn_chosen (players w i)"
    using assms(2) by (simp_all add: first_ready_def player_is_registered_def)
  have zi: "(players z i)\<lparr>p_outbuf := []\<rparr> = (players w i)\<lparr>p_outbuf := []\<rparr>" using z(6) assms(5) by metis
  note f = same_but_output [OF zi]
  have a: "admitted_as i [''JOINED_MATCH''] z (admit_player i z)" "join_deadline (admit_player i z) = 0"
    using admit_at_ease [OF z(1) nz(1) z(3,4), of i] f i nz(2) by simp_all
  let ?v = "admit_player i z"
  have vi: "(players ?v i)\<lparr>p_outbuf := []\<rparr> = ((players z i)\<lparr>p_admitted := True, p_waiting := True\<rparr>)\<lparr>p_outbuf := []\<rparr>"
    using a(1) by (simp add: admitted_as_def)
  have vj: "(players ?v j)\<lparr>p_outbuf := []\<rparr> = (players z j)\<lparr>p_outbuf := []\<rparr>"
    using a(1) assms(5) by (simp add: admitted_as_def)
  have "phase ?v = PHASE_LOBBY_OPEN" using a(1) nz(1) by (simp add: admitted_as_def)
  then show ?thesis
    using same_but_output [OF vi] same_but_output [OF vj] a(2) f(1) i(1) z(5)
    by (simp add: m Let_def close_lobby_if_needed_def)
qed

theorem join_window_lost_witness:
  "join_deadline (maybe_admit_player 0 (doorstep 8192)) = 0 \<and> p_admitted (players (maybe_admit_player 0 (doorstep 8192)) 0)"
proof -
  have "first_ready (doorstep 8192) 0"
    by (auto simp: first_ready_def doorstep_facts players_doorstep ready_player_def player_is_registered_def
        admitted_set_def player_is_admitted_def zero_player_def)
  moreover have "at_ease {1} 5500 (doorstep 8192)"
    by (simp add: at_ease_def players_doorstep ready_player_def zero_player_def)
  moreover have "p_connected (players (doorstep 8192) 1)" "\<not> room opening_line (players (doorstep 8192) 1)"
    by (simp_all add: players_doorstep room_def OUTBUF_SIZE_def)
  ultimately show ?thesis
    using join_window_lost [OF world_ok_doorstep [of 8192] _ doorstep_facts(6), of 0 1]
    by (simp add: Let_def OUTBUF_SIZE_def)
qed

section \<open>Two players at one point\<close>

text \<open>The player \<open>i\<close> is a registered client at the door that has chosen its type, but no spawn.\<close>

definition spawnless :: "nat \<Rightarrow> World \<Rightarrow> bool" where
  "spawnless i w \<longleftrightarrow> p_connected (players w i) \<and> p_registered (players w i) \<and> \<not> p_admitted (players w i) \<and>
     p_choice_chosen (players w i)"

lemma timely_upd_player [simp]: "timely (upd_player i f w) = timely w"
  by (simp add: timely_def upd_player_def)

lemma timely_say [simp]: "timely (say i t w) = timely w"
  by (simp add: say_def)

lemma fractional_spawn_admits:
  assumes w: "world_ok w" "phase w = PHASE_LOBBY_OPEN" "timely w" "at_ease {} 5400 w" and i: "spawnless i w"
    and "open": "join_deadline w = 0 \<or> time_now w < join_deadline w"
    and free: "\<And>k. k \<noteq> i \<Longrightarrow> player_is_admitted (players w k) \<Longrightarrow> fpval (p_x (players w k)) \<noteq> 2 \<or> fpval (p_y (players w k)) \<noteq> 2"
  defines "v \<equiv> handle_spawn_command i (Some ''2.5 2.5'') w"
  shows "player_is_admitted (players v i)" "p_x (players v i) = two_and_a_half" "p_y (players v i) = two_and_a_half"
    and "k \<noteq> i \<Longrightarrow> (players v k)\<lparr>p_outbuf := []\<rparr> = (players w k)\<lparr>p_outbuf := []\<rparr>"
proof -
  define a where "a = upd_player i (\<lambda>p. p\<lparr>p_x := two_and_a_half, p_y := two_and_a_half, p_spawn_chosen := True\<rparr>) w"
  define u where "u = say i ''SPAWN_OK 2.5 2.5'' a"
  have ready: "p_connected (players w i)" "p_registered (players w i)" "\<not> p_admitted (players w i)" "p_choice_chosen (players w i)"
    using i by (simp_all add: spawnless_def)
  have v: "v = maybe_admit_player i u"
    using fractional_spawn [of w i] ready free by (simp add: v_def u_def a_def)
  have "\<not> spawn_off_grid two_and_a_half two_and_a_half" "fp_ok F32 two_and_a_half" by code_simp+
  then have "world_ok a" unfolding a_def using w(1) ready by (intro srv.inv_spawn) simp_all
  then have "world_ok u" unfolding u_def by (rule srv.say_inv)
  moreover have "length (p_outbuf (players w k)) \<le> 5400" if "p_connected (players w k)" for k
    using w(4) that by (simp add: at_ease_def)
  then have "at_ease {} 5500 u"
    unfolding at_ease_def u_def a_def by (fastforce simp: say_def queue_line_eq split: if_splits)
  moreover have "timely u" using w(3) by (simp add: u_def a_def)
  moreover have same: "(players u i)\<lparr>p_outbuf := []\<rparr> = ((players w i)\<lparr>p_x := two_and_a_half, p_y := two_and_a_half,
      p_spawn_chosen := True\<rparr>)\<lparr>p_outbuf := []\<rparr>"
    by (simp add: u_def a_def say_def queue_line_eq)
  have "ready_to_join i u" using same_but_output [OF same] ready by (simp add: ready_to_join_def)
  moreover have "phase u = PHASE_LOBBY_OPEN" "join_deadline u = 0 \<or> time_now u < join_deadline u"
    using w(2) "open" by (simp_all add: u_def a_def say_def time_now_def upd_player_def)
  ultimately have adm: "admitted_as i ((if join_deadline u = 0 then [opening_line] else []) @ [''JOINED_MATCH'']) u v"
    unfolding v by (intro window_admits)
  then have vi: "(players v i)\<lparr>p_outbuf := []\<rparr> = ((players u i)\<lparr>p_admitted := True, p_waiting := True\<rparr>)\<lparr>p_outbuf := []\<rparr>"
    by (simp add: admitted_as_def)
  show "p_x (players v i) = two_and_a_half" "p_y (players v i) = two_and_a_half" "player_is_admitted (players v i)"
    using same_but_output [OF vi] same_but_output [OF same] ready(1,2) by (simp_all add: player_is_admitted_def)
  show "k \<noteq> i \<Longrightarrow> (players v k)\<lparr>p_outbuf := []\<rparr> = (players w k)\<lparr>p_outbuf := []\<rparr>"
    using adm by (simp add: admitted_as_def) (simp add: u_def a_def)
qed

text \<open>
  C38. A fractional spawn is not reserved: the check compares the corner of the requested cell with
  the exact points of the players. A player stands at (2.5, 2.5) in the open lobby, nobody at the
  corner (2, 2) of its cell, and everybody has room for the output. Then a client that asks for
  (2.5, 2.5) is admitted at the very point of the other player, who stays in the match where it was.
\<close>

theorem fractional_spawn_shared:
  assumes "world_ok w" and "phase w = PHASE_LOBBY_OPEN" and "timely w" and "at_ease {} 5400 w"
    and "join_deadline w = 0 \<or> time_now w < join_deadline w" and "spawnless i w"
    and "j \<noteq> i" and "player_is_admitted (players w j)"
    and "p_x (players w j) = two_and_a_half" and "p_y (players w j) = two_and_a_half"
    and "\<forall>k. k \<noteq> i \<and> player_is_admitted (players w k) \<longrightarrow> fpval (p_x (players w k)) \<noteq> 2 \<or> fpval (p_y (players w k)) \<noteq> 2"
  shows "let v = handle_spawn_command i (Some ''2.5 2.5'') w in
    player_is_admitted (players v i) \<and> player_is_admitted (players v j) \<and>
    p_x (players v i) = p_x (players v j) \<and> p_y (players v i) = p_y (players v j) \<and>
    p_x (players v j) = two_and_a_half \<and> p_y (players v j) = two_and_a_half"
proof -
  let ?v = "handle_spawn_command i (Some ''2.5 2.5'') w"
  have v: "player_is_admitted (players ?v i)" "p_x (players ?v i) = two_and_a_half" "p_y (players ?v i) = two_and_a_half"
    "(players ?v j)\<lparr>p_outbuf := []\<rparr> = (players w j)\<lparr>p_outbuf := []\<rparr>"
    using fractional_spawn_admits [OF assms(1-4,6,5)] assms(7,11) by blast+
  then show ?thesis
    using same_but_output [OF v(4)] assms(8-10) by (simp add: player_is_admitted_def Let_def)
qed

text \<open>Ann has been admitted at (2.5, 2.5); Bob has chosen a type.\<close>

definition shared_lobby :: World where
  "shared_lobby = (init_server_state (\<lambda>_. 0))\<lparr>join_deadline := 60, next_id := 3, players := (\<lambda>_. zero_player)
     (0 := zero_player\<lparr>p_id := 1, p_connected := True, p_registered := True, p_name := ''ann'', p_admitted := True,
        p_waiting := True, p_choice := CHR ''R'', p_choice_chosen := True, p_spawn_chosen := True,
        p_x := two_and_a_half, p_y := two_and_a_half\<rparr>,
      1 := zero_player\<lparr>p_id := 2, p_connected := True, p_registered := True, p_name := ''bob'',
        p_choice := CHR ''S'', p_choice_chosen := True\<rparr>)\<rparr>"

lemma players_shared_lobby: "players shared_lobby k = (if k = 0 then
     zero_player\<lparr>p_id := 1, p_connected := True, p_registered := True, p_name := ''ann'', p_admitted := True,
        p_waiting := True, p_choice := CHR ''R'', p_choice_chosen := True, p_spawn_chosen := True,
        p_x := two_and_a_half, p_y := two_and_a_half\<rparr>
   else if k = 1 then zero_player\<lparr>p_id := 2, p_connected := True, p_registered := True, p_name := ''bob'',
        p_choice := CHR ''S'', p_choice_chosen := True\<rparr> else zero_player)"
  by (simp add: shared_lobby_def)

lemma shared_lobby_facts: "phase shared_lobby = PHASE_LOBBY_OPEN" "join_deadline shared_lobby = 60"
  "next_id shared_lobby = 3" "time_now shared_lobby = 0" "timely shared_lobby" "at_ease {} 5400 shared_lobby"
  by (simp_all add: shared_lobby_def init_server_state_def time_now_def timely_def LONG_MAX_def JOIN_WINDOW_SECONDS_def
      at_ease_def zero_player_def)

lemma two_and_a_half_value: "fpval two_and_a_half = 5 / 2" "on_grid two_and_a_half"
  by (simp_all add: two_and_a_half_def on_grid_def F32_def with_sign_def power_int_def power_divide)

lemma world_ok_shared_lobby: "world_ok shared_lobby"
proof -
  have "slot_ok (players shared_lobby k)" for k
    by (simp add: players_shared_lobby slot_ok_def buffers_ok_def setup_ok_def zero_player_def rps_char_def
        placed_def coord_ok_def two_and_a_half_value valid_name_def is_space_def char_code_def
        OUTBUF_SIZE_def INBUF_SIZE_def MAX_NAME_LENGTH_def)
  then show ?thesis
    by (simp add: world_ok_def world_defs shared_lobby_facts)
      (simp add: players_shared_lobby player_is_registered_def player_is_alive_def zero_player_def MAX_PLAYERS_def)
qed

theorem fractional_spawn_shared_witness:
  "let v = handle_spawn_command 1 (Some ''2.5 2.5'') shared_lobby in
    player_is_admitted (players v 1) \<and> player_is_admitted (players v 0) \<and>
    p_x (players v 1) = p_x (players v 0) \<and> p_y (players v 1) = p_y (players v 0)"
proof -
  have "spawnless 1 shared_lobby" by (simp add: spawnless_def players_shared_lobby zero_player_def)
  moreover have "player_is_admitted (players shared_lobby 0)" "p_x (players shared_lobby 0) = two_and_a_half"
    "p_y (players shared_lobby 0) = two_and_a_half"
    by (simp_all add: players_shared_lobby player_is_admitted_def)
  moreover have "fpval (p_x (players shared_lobby k)) \<noteq> 2" if "player_is_admitted (players shared_lobby k)" for k
    using that by (simp add: players_shared_lobby two_and_a_half_value player_is_admitted_def zero_player_def split: if_splits)
  ultimately show ?thesis
    using fractional_spawn_shared [OF world_ok_shared_lobby shared_lobby_facts(1,5,6), of 1 0]
    by (simp add: shared_lobby_facts Let_def)
qed

end
