(* ===== verification/Client_Screen.thy ===== *)
theory Client_Screen
  imports Projection
begin

text \<open>
  Where the client's picture differs from the match: what a spectator is not told at the end of the
  game, and which players the grid leaves out.
\<close>

section \<open>What a spectator does not learn, and what the screen does not show\<close>

lemma game_over_dispatch:
  "handle_server_line now ''GAME_OVER'' st = st"
  "handle_server_line now ''GAME_OVER WIN'' st = parse_state_snapshot_line now ''GAME_OVER WIN'' st"
  "handle_server_line now ''GAME_OVER LOSE'' st = parse_state_snapshot_line now ''GAME_OVER LOSE'' st"
  by (simp_all add: handle_server_line_def dispatch_table_def line_matches_def starts_def)

lemma game_over_scans:
  "sscanf ''PLAYER %31s %c %f %f %d %d'' (''GAME_OVER '' @ r) = []" "sscanf ''ROUND_START %d %d'' (''GAME_OVER '' @ r) = []"
  "sscanf ''BYE %31s'' (''GAME_OVER '' @ r) = []"
  "sscanf ''GAME_OVER %31s'' ''GAME_OVER WIN'' = [VStr ''WIN'']"
  "sscanf ''GAME_OVER %31s'' ''GAME_OVER LOSE'' = [VStr ''LOSE'']"
  by (simp_all add: sscanf_def is_space_def char_code_def) (code_simp+)?

lemma game_over_parsed:
  "parse_state_snapshot_line now ''GAME_OVER WIN'' st = game_over_received ''WIN'' st"
  "parse_state_snapshot_line now ''GAME_OVER LOSE'' st = game_over_received ''LOSE'' st"
  using game_over_scans(1-3) [of "''WIN''"] game_over_scans(1-3) [of "''LOSE''"] game_over_scans(4,5)
  by (simp_all add: parse_state_snapshot_line_def parse_bye_or_over_def starts_def)

text \<open>
  C39. At the end of the game the server sends a client that was not in the match the bare line
  GAME_OVER, which the client's dispatch table does not know (its entry ends in a space): the
  client does not notice, and its key for a rematch stays dead.
\<close>

theorem game_over_missed:
  "handle_server_line now (game_over_line p) st =
     (if player_is_admitted p then game_over_received (if player_won_match p then ''WIN'' else ''LOSE'') st else st)"
  by (simp add: game_over_line_def game_over_dispatch game_over_parsed player_won_match_def)

lemma fp_to_int_range:
  assumes "fp_fin x" and "fp_ok F x" and "of_int k \<le> fpval x" and "fpval x < of_int (k + 1)" and "0 \<le> k" and "k \<le> INT_MAX"
  shows "fp_to_int x = k"
proof -
  obtain s m e where x: "x = FFin s m e" using assms(1) by (rule fp_fin_cases)
  have m: "0 \<le> m" using assms(2) x by simp
  have pos: "0 \<le> fpval x" using assms(3,5) by (smt (verit) of_int_nonneg)
  define q where "q = (if 0 \<le> e then m * 2 ^ nat e else m div 2 ^ nat (- e))"
  have v: "real_of_int m * 2 powi e = fpval x \<or> m = 0 \<and> fpval x = 0"
    using pos m x powi_pos [of e] by (cases s) (auto simp: with_sign_def mult_le_0_iff not_le)
  then have a: "fpval x = real_of_int m * 2 powi e" by auto
  have "q = k"
  proof (cases "0 \<le> e")
    case True
    then have "fpval x = of_int q" by (simp add: a q_def powi_nat)
    then show ?thesis using assms(3,4) by linarith
  next
    case False
    then have "fpval x * 2 ^ nat (- e) = of_int m" using powi_neg [of e] by (simp add: a)
    then have "fpval x = of_int m / of_int (2 ^ nat (- e))" by (simp add: field_simps)
    then have "\<lfloor>fpval x\<rfloor> = q" using False by (simp only: floor_divide_of_int_eq q_def if_False)
    moreover have "\<lfloor>fpval x\<rfloor> = k" using assms(3,4) by (intro floor_unique) auto
    ultimately show ?thesis by simp
  qed
  moreover have "with_sign s q = q \<or> q = 0"
    using v pos m x a by (cases s) (auto simp: with_sign_def q_def mult_le_0_iff zero_le_mult_iff)
  ultimately show ?thesis
    using assms(5,6) by (auto simp: x q_def [symmetric] Let_def INT_MIN_def with_sign_def)
qed

lemma to_grid_coord_edge:
  assumes "on_grid x" and "19 / 2 \<le> fpval x"
  shows "to_grid_coord x = 10"
proof -
  have h: "fp_lit F32 5 10 = FFin False 8388608 (- 24)" by code_simp
  have hv: "fpval (fp_lit F32 5 10) = 1 / 2" "fp_fin (fp_lit F32 5 10)"
    by (simp_all add: h with_sign_def power_int_def power_divide)
  have x: "fp_fin x" "fp_ok F32 x" "fpval x < 10" using assms(1) by (simp_all add: on_grid_def)
  define y where "y = fp_add F32 x (fp_lit F32 5 10)"
  have "rounds_to F32 (fpval x + 1 / 2) y"
    using fp_add_rounds [OF x(1) hv(2) in_range_F32 [of 16]] hv(1) x(3) assms(2) by (simp add: y_def)
  then have y: "fp_fin y" "fp_ok F32 y" "closest F32 (fpval x + 1 / 2) (fpval y)" by (simp_all add: rounds_to_def)
  have "rep F32 10" "rep F32 (21 / 2)"
    using rep_of_int [OF fmt_ok_F32, of 10] repI [of 21 F32 "- 1"] by (simp_all add: F32_def power_int_def)
  then have "10 \<le> fpval y" "fpval y \<le> 21 / 2"
    using closest_ge [OF y(3), of 10] closest_le [OF y(3), of "21 / 2"] assms(2) x(3) by simp_all
  then have "fp_to_int y = 10" using y by (intro fp_to_int_range) (simp_all add: INT_MAX_def)
  moreover have "\<not> fp_lt x fp_zero" using assms x(1) by (simp add: fp_lt_val fp_zero_def with_sign_def)
  ultimately show ?thesis by (simp add: to_grid_coord_def y_def)
qed

definition drawn_at :: "(nat \<Rightarrow> ClientPlayer) \<Rightarrow> int \<Rightarrow> int \<Rightarrow> nat \<Rightarrow> bool" where
  "drawn_at tab x y i \<longleftrightarrow> cp_used (tab i) \<and> (cp_alive (tab i) \<noteq> 0 \<or> cp_waiting (tab i) \<noteq> 0) \<and>
     to_grid_coord (cp_x (tab i)) = x \<and> to_grid_coord (cp_y (tab i)) = y"

lemma grid_marker_eq:
  "grid_marker st x y = (case find (drawn_at (cs_players st) x y) [0..<MAX_PLAYERS] of
     None \<Rightarrow> CHR ''.''
   | Some i \<Rightarrow> if cp_choice (cs_players st i) \<noteq> NUL then cp_choice (cs_players st i) else CHR ''?'')"
  unfolding grid_marker_def drawn_at_def Let_def ..

text \<open>
  C40. A player within half a cell of the right or lower edge of the board is rounded to a column
  or row outside it: the grid is drawn as if that player did not exist.
\<close>

theorem edge_player_not_drawn:
  assumes "on_grid v" and "19 / 2 \<le> fpval v" and "v \<in> {cp_x (cs_players st i), cp_y (cs_players st i)}"
  shows "draw_grid st r l cx cy = draw_grid (upd_entry i (\<lambda>p. p\<lparr>cp_used := False\<rparr>) st) r l cx cy"
proof -
  have off: "to_grid_coord (cp_x (cs_players st i)) = 10 \<or> to_grid_coord (cp_y (cs_players st i)) = 10"
    using assms(3) to_grid_coord_edge [OF assms(1,2)] by auto
  let ?st = "upd_entry i (\<lambda>p. p\<lparr>cp_used := False\<rparr>) st"
  have "grid_marker st x y = grid_marker ?st x y" if "x \<in> set [0..GRID_W - 1]" "y \<in> set [0..GRID_H - 1]" for x y
  proof -
    have d: "drawn_at (cs_players st) x y = drawn_at (cs_players ?st) x y"
      using that off by (auto simp: drawn_at_def upd_entry_def GRID_W_def GRID_H_def fun_eq_iff)
    have c: "cp_choice (cs_players ?st j) = cp_choice (cs_players st j)" for j by (simp add: upd_entry_def)
    show ?thesis unfolding grid_marker_eq d c ..
  qed
  then show ?thesis unfolding draw_grid_def by (auto intro!: arg_cong [of _ _ concat] simp: Let_def)
qed

theorem edge_player_not_drawn_witness:
  "draw_grid ((init_client_state ''ann'')\<lparr>cs_players := table_of [client_entry (players camp 0),
       (client_entry (players camp 0))\<lparr>cp_x := FFin False 39 (- 2)\<rparr>]\<rparr>) 5 2 0 0 =
   draw_grid (upd_entry 1 (\<lambda>p. p\<lparr>cp_used := False\<rparr>) ((init_client_state ''ann'')\<lparr>cs_players :=
       table_of [client_entry (players camp 0), (client_entry (players camp 0))\<lparr>cp_x := FFin False 39 (- 2)\<rparr>]\<rparr>)) 5 2 0 0"
proof -
  have "on_grid (FFin False 39 (- 2))" "19 / 2 \<le> fpval (FFin False 39 (- 2))"
    by (simp_all add: on_grid_def F32_def with_sign_def power_int_def power_divide)
  then show ?thesis by (rule edge_player_not_drawn) (simp add: table_of_def)
qed

end
