(* ===== verification/Handshake.thy ===== *)
theory Handshake
  imports Projection
begin

text \<open>
  The registration handshake: the client's HELLO, the server's answer and what the client makes of
  it. Afterwards the two sides agree on whether the client is registered and under which name.
\<close>

section \<open>The server's answer\<close>

definition lobby_lines :: "World \<Rightarrow> string list" where
  "lobby_lines w =
     (if phase w = PHASE_LOBBY_OPEN
      then [''CHOOSE_TYPE'', ''CHOOSE_SPAWN 10 10'',
        if join_deadline w = 0 then ''LOBBY_WAITING''
        else ''LOBBY_OPEN '' @ int_str (seconds_left (join_deadline w) w)]
      else [''LOBBY_CLOSED''])"

definition hello_reply :: "nat \<Rightarrow> string \<Rightarrow> World \<Rightarrow> string list" where
  "hello_reply i n w =
     (if name_taken w n then [''ERROR duplicate_name'']
      else [''WELCOME '' @ int_str (p_id (players w i)), ''SPECTATING''] @ lobby_lines w)"

lemma outbuf_say:
  "length t < MAX_LINE - 2 \<Longrightarrow> length (p_outbuf (players w i)) + length t < OUTBUF_SIZE \<Longrightarrow>
   p_outbuf (players (say i t w) i) = p_outbuf (players w i) @ t @ [newline]"
  by (simp add: say_def queue_line_eq)

lemma say_clock [simp]:
  "time_now (say i t w) = time_now w" "join_deadline (say i t w) = join_deadline w"
  "seconds_left d (say i t w) = seconds_left d w" "p_id (players (say i t w) j) = p_id (players w j)"
  by (simp_all add: say_def time_now_def seconds_left_def upd_player_def queue_line_eq)

lemma time_now_upd_player [simp]: "time_now (upd_player i f w) = time_now w"
  by (simp add: time_now_def upd_player_def)

lemma int_str_short:
  assumes "\<bar>k\<bar> \<le> LONG_MAX"
  shows "length (int_str k) \<le> 20"
  using int_str_length [of k 19] assms by (simp add: LONG_MAX_def)

definition shakable :: "nat \<Rightarrow> World \<Rightarrow> bool" where
  "shakable i w \<longleftrightarrow> p_connected (players w i) \<and> \<not> p_registered (players w i) \<and> p_outbuf (players w i) = [] \<and>
     \<bar>p_id (players w i)\<bar> \<le> LONG_MAX \<and> seconds_left (join_deadline w) w \<le> LONG_MAX"

lemma hello_reply_plain:
  assumes "shakable i w" and "t \<in> set (hello_reply i n w)"
  shows "plain_line t"
proof (rule plain_lineI)
  have "0 \<le> seconds_left (join_deadline w) w" by (simp add: seconds_left_def Let_def)
  then have s: "length (int_str (seconds_left (join_deadline w) w)) \<le> 20"
    using assms(1) by (intro int_str_short) (simp add: shakable_def)
  have d: "length (int_str (p_id (players w i))) \<le> 20"
    using assms(1) by (intro int_str_short) (simp add: shakable_def)
  show "list_all plain_char t"
    using assms(2) by (auto simp: hello_reply_def lobby_lines_def plain_char_def split: if_splits)
  show "length t < MAX_LINE - 2"
    using assms(2) s d by (auto simp: hello_reply_def lobby_lines_def MAX_LINE_def split: if_splits)
qed

lemma lobby_status_outbuf:
  assumes "shakable i w" and "length (p_outbuf (players v i)) \<le> 100"
    and "phase v = phase w" and "join_deadline v = join_deadline w" and "time_now v = time_now w"
  shows "p_outbuf (players (queue_lobby_status_for_player i v) i) = p_outbuf (players v i) @ wire (lobby_lines w)"
proof -
  have e: "seconds_left (join_deadline w) v = seconds_left (join_deadline w) w"
    using assms(5) by (simp add: seconds_left_def)
  have "0 \<le> seconds_left (join_deadline w) w" by (simp add: seconds_left_def Let_def)
  then have "length (int_str (seconds_left (join_deadline w) w)) \<le> 20"
    using assms(1) by (intro int_str_short) (simp add: shakable_def)
  moreover have "int_str GRID_W = ''10''" "int_str GRID_H = ''10''" by code_simp+
  ultimately show ?thesis
    using assms(2-4)
    by (simp add: queue_lobby_status_for_player_def lobby_lines_def Let_def outbuf_say e MAX_LINE_def OUTBUF_SIZE_def)
qed

lemma hello_replied:
  assumes "shakable i w" and "scan_name args = Some n"
  shows "p_outbuf (players (handle_hello_command i args w) i) = wire (hello_reply i n w)"
proof -
  have w: "\<not> p_registered (players w i)" "p_outbuf (players w i) = []" using assms(1) by (simp_all add: shakable_def)
  have r: "p_outbuf (register_player n p) = p_outbuf p" "p_id (register_player n p) = p_id p" for p
    by (simp_all add: register_player_def reset_player_progress_def)
  have f: "(find_name w n = None) \<longleftrightarrow> \<not> name_taken w n" by (auto simp: find_name_None name_taken_def)
  have d: "length (int_str (p_id (players w i))) \<le> 20"
    using assms(1) by (intro int_str_short) (simp add: shakable_def)
  show ?thesis
  proof (cases "name_taken w n")
    case True
    then show ?thesis
      using w f assms(2) by (simp add: handle_hello_command_def hello_reply_def outbuf_say MAX_LINE_def OUTBUF_SIZE_def)
  next
    case False
    define u where "u = upd_player i (register_player n) w"
    define v where "v = say i ''SPECTATING'' (say i (''WELCOME '' @ int_str (p_id (players w i))) u)"
    have "p_outbuf (players u i) = []" by (simp add: u_def r w)
    then have o: "p_outbuf (players v i) = wire [''WELCOME '' @ int_str (p_id (players w i)), ''SPECTATING'']"
      using d by (simp add: v_def outbuf_say MAX_LINE_def OUTBUF_SIZE_def)
    have t: "time_now u = time_now w" by (simp add: u_def)
    have "p_outbuf (players (queue_lobby_status_for_player i v) i) = p_outbuf (players v i) @ wire (lobby_lines w)"
      using d by (intro lobby_status_outbuf [OF assms(1)]) (simp_all add: o t, simp_all add: v_def u_def)
    moreover have "handle_hello_command i args w = queue_lobby_status_for_player i v"
      using False f w assms(2) by (simp add: handle_hello_command_def Let_def v_def u_def r)
    ultimately show ?thesis using False by (simp add: o hello_reply_def)
  qed
qed

section \<open>The client's reading\<close>

text \<open>What the client knows of its registration.\<close>

definition names_of :: "ClientState \<Rightarrow> bool \<times> bool \<times> string" where
  "names_of st = (cs_name_registered st, cs_name_check_pending st, cs_my_name st)"

lemma sscanf_WELCOME: "as_int (sscanf ''WELCOME %d'' line) = Some k \<Longrightarrow> take 7 line = ''WELCOME''"
  by (auto simp: sscanf_def is_space_def char_code_def split: list.splits if_splits)

lemma names_of_fields [simp]:
  "names_of (set_status t st) = names_of st" "names_of (upd_entry i f st) = names_of st"
  "names_of (st\<lparr>cs_players := tab\<rparr>) = names_of st"
  "names_of (st\<lparr>cs_repick_phase := v_0\<rparr>) = names_of st"
  "names_of (st\<lparr>cs_game_over := v_1\<rparr>) = names_of st"
  "names_of (st\<lparr>cs_can_attempt_join := v_2\<rparr>) = names_of st"
  "names_of (st\<lparr>cs_joined_match := v_3\<rparr>) = names_of st"
  "names_of (st\<lparr>cs_choice_confirmed := v_4\<rparr>) = names_of st"
  "names_of (st\<lparr>cs_spawn_confirmed := v_5\<rparr>) = names_of st"
  "names_of (st\<lparr>cs_selected_choice := v_6\<rparr>) = names_of st"
  "names_of (st\<lparr>cs_lobby_end_time := v_7\<rparr>) = names_of st"
  "names_of (st\<lparr>cs_setup_end_time := v_8\<rparr>) = names_of st"
  "names_of (st\<lparr>cs_round_end_time := v_9\<rparr>) = names_of st"
  "names_of (st\<lparr>cs_match_result := v_10\<rparr>) = names_of st"
  by (simp_all add: names_of_def set_status_def upd_entry_def)

lemmas scan_cases_names = scan_cases [where P = "\<lambda>s. names_of s = names_of st" for st]

lemma starts_ERROR:
  assumes "take 5 line \<noteq> ''ERROR''"
  shows "\<not> starts (''ERROR'' @ u) line"
proof
  assume "starts (''ERROR'' @ u) line"
  then have "take 5 (take (length (''ERROR'' @ u)) line) = take 5 (''ERROR'' @ u)" by (simp add: starts_def)
  with assms show False by (simp add: numeral_eq_Suc)
qed

lemma parse_errors_names: "take 5 line \<noteq> ''ERROR'' \<Longrightarrow> names_of (parse_errors line st) = names_of st"
  using starts_ERROR [of line]
  unfolding parse_errors_def left_received_def
  by (intro scan_cases_names) (auto split: option.split)

lemma general_line_names:
  assumes "take 7 line \<noteq> ''WELCOME''" and "take 5 line \<noteq> ''ERROR''"
  shows "names_of (parse_general_line now line st) = names_of st"
  unfolding parse_general_line_def parse_confirmations_def using assms
  by (intro scan_cases_names) (auto simp: match_reset_received_def parse_errors_names dest: sscanf_WELCOME)

lemma player_entry_names: "names_of (player_entry n c x y a b st) = names_of st"
  by (simp add: player_entry_def Let_def split: option.split prod.split)

lemma pair_won_names: "names_of (pair_won n1 n2 w x y st) = names_of st"
  by (simp add: pair_won_def Let_def split: option.split)

lemma bye_or_over_names: "names_of (parse_bye_or_over line st) = names_of st"
  unfolding parse_bye_or_over_def game_over_received_def Let_def by (intro scan_cases_names) simp_all

lemma pair_names: "names_of (parse_pair line st) = names_of st"
  unfolding parse_pair_def by (intro scan_cases_names) (simp_all add: pair_won_names bye_or_over_names)

lemma snapshot_line_names: "names_of (parse_state_snapshot_line now line st) = names_of st"
  unfolding parse_state_snapshot_line_def
  by (intro scan_cases_names) (simp_all add: player_entry_names pair_names bye_or_over_names)

lemma handle_line_names:
  assumes "take 7 line \<noteq> ''WELCOME''" and "take 5 line \<noteq> ''ERROR''"
  shows "names_of (handle_server_line now line st) = names_of st"
  using assms by (simp add: handle_server_line_def general_line_names snapshot_line_names
      split: option.split LineParser.split)

lemma handle_lines_names:
  "\<forall>t \<in> set ts. take 7 t \<noteq> ''WELCOME'' \<and> take 5 t \<noteq> ''ERROR'' \<Longrightarrow> names_of (handle_lines clock k ts st) = names_of st"
  by (induction ts arbitrary: k st) (simp_all add: handle_line_names)

lemma scan_long_skip: "scan_long (skip_ws s) = scan_long s"
  by (simp add: scan_long_def skip_ws_def dropWhile_idem)

lemma scan_long_space: "scan_long (CHR '' '' # s) = scan_long s"
  by (simp add: scan_long_def)

lemma handle_WELCOME: "handle_server_line now (''WELCOME '' @ int_str k) st = welcome_received st"
proof -
  have "as_int (sscanf ''WELCOME %d'' (''WELCOME '' @ int_str k)) = Some (wrap_int (clamp_long k))"
    using scan_long_int_str [of "[]" k]
    by (simp add: sscanf_def is_space_def char_code_def scan_int_def scan_long_skip scan_long_space)
  then show ?thesis
    by (simp add: handle_server_line_def dispatch_table_def line_matches_def starts_def parse_general_line_def)
qed

lemma handle_duplicate:
  "names_of (handle_server_line now ''ERROR duplicate_name'' st) = (False, False, cs_my_name st)"
  by (simp add: handle_server_line_def dispatch_table_def line_matches_def starts_def parse_general_line_def
      parse_confirmations_def parse_errors_def sscanf_def is_space_def char_code_def names_of_def set_status_def)

lemma hello_reply_read:
  assumes "cs_pending_name st = n" and "n \<noteq> []" and "length n < MAX_NAME_LENGTH"
  shows "names_of (handle_lines clock k (hello_reply i n w) st) =
    (if name_taken w n then (False, False, cs_my_name st) else (True, False, n))"
proof -
  have n: "snprintf_str MAX_NAME_LENGTH n = n" using assms(3) by (simp add: snprintf_str_def MAX_NAME_LENGTH_def)
  have w: "names_of (handle_server_line now (''WELCOME '' @ int_str m) st) = (True, False, n)" for now m
    using assms by (simp add: handle_WELCOME [simplified] welcome_received_def names_of_def set_status_def Let_def n)
  have "names_of (handle_lines clock j (''SPECTATING'' # lobby_lines w) s) = names_of s" for j s
    by (rule handle_lines_names) (auto simp: lobby_lines_def)
  then show ?thesis by (simp add: hello_reply_def handle_duplicate w [simplified])
qed

section \<open>The handshake\<close>

lemma pop_wire: "clean_line t \<Longrightarrow> pop_line MAX_LINE (wire (t # ts)) = Some (t, wire ts)"
  by (simp add: pop_line_Some clean_line_def MAX_LINE_def)

definition registration_agrees :: "ClientState \<Rightarrow> Player \<Rightarrow> bool" where
  "registration_agrees st p \<longleftrightarrow>
     cs_name_registered st = p_registered p \<and> \<not> cs_name_check_pending st \<and>
     (p_registered p \<longrightarrow> cs_my_name st = p_name p)"

definition may_hello :: "Client \<Rightarrow> bool" where
  "may_hello c \<longleftrightarrow> \<not> cs_name_registered (cl_state c) \<and> \<not> cs_name_check_pending (cl_state c) \<and>
     cs_name_input (cl_state c) \<noteq> [] \<and> list_all is_valid_name_char (cs_name_input (cl_state c)) \<and>
     length (cs_name_input (cl_state c)) < MAX_NAME_LENGTH"

text \<open>
  The exchange: the client's line as the server pops it, the server's state after it, and the
  client's state after reading what is then queued for it. Nothing may be left over on the way.
\<close>

definition handshake :: "Env \<Rightarrow> (nat \<Rightarrow> fp) \<Rightarrow> nat \<Rightarrow> nat \<Rightarrow> World \<Rightarrow> Client \<Rightarrow> (World \<times> ClientState) option" where
  "handshake env clock k i w c =
     (let d = maybe_send_hello env c
      in case pop_line MAX_LINE (drop (length (cl_wire c)) (cl_wire d)) of
           None \<Rightarrow> None
         | Some (line, rest) \<Rightarrow>
             let w = handle_command i (cstr line) w
             in case drain_server_lines clock (k, p_outbuf (players w i), cl_state d) of
                  (k, unread, st) \<Rightarrow> if rest = [] \<and> unread = [] then Some (w, st) else None)"

text \<open>
  C6. The registration handshake, between a client that is free to ask (not registered, no answer
  outstanding) for a nonempty name of letters, digits and underscores that fits the protocol, over a
  connection whose \<open>send\<close> makes progress, and a connected slot that is not registered and owes its
  client no output, with numbers that fit their types: the client sends HELLO with the name being
  edited, the server handles that line, the client reads the answer. Then both sides agree on whether the client is
  registered, and under which name; it is registered exactly if the name was free, and the client
  is no longer waiting for an answer, so that it can try another name.
\<close>

theorem registration_handshake:
  assumes "shakable i w" and "blocking env" and "may_hello c"
  shows "\<exists>v st. handshake env clock k i w c = Some (v, st) \<and> registration_agrees st (players v i) \<and>
    (p_registered (players v i) \<longleftrightarrow> \<not> name_taken w (cs_name_input (cl_state c)))"
proof -
  define n where "n = cs_name_input (cl_state c)"
  have n: "n \<noteq> []" "length n < MAX_NAME_LENGTH" "list_all is_valid_name_char n"
    using assms(3) by (simp_all add: may_hello_def n_def)
  have s: "snprintf_str MAX_NAME_LENGTH n = n" using n(2) by (simp add: snprintf_str_def MAX_NAME_LENGTH_def)
  note h = hello_sent [OF n(3,1,2)]
  have v: "\<not> is_space x \<and> x \<noteq> NUL \<and> x \<noteq> CHR '' ''" if "x \<in> set n" for x
    using that n(3) by (auto simp: list_all_iff is_valid_name_char_def is_space_def is_alpha_def is_digit_def char_code_def)
  have sc: "scan_name (Some n) = Some n"
    using v n(1,2) by (cases n) (auto simp: scan_name_eq Let_def skip_ws_def MAX_NAME_LENGTH_def)
  define d where "d = maybe_send_hello env c"
  have wire: "cl_wire d = cl_wire c @ wire [''HELLO '' @ n]" and pend: "cs_pending_name (cl_state d) = n"
    using send_blocking [OF assms(2), of "''HELLO '' @ n"] h assms(3)
    by (simp_all add: d_def maybe_send_hello_def may_hello_def Let_def n_def [symmetric] s sent_line_def set_status_def)
  have pop: "pop_line MAX_LINE (wire [''HELLO '' @ n]) = Some (''HELLO '' @ n, [])"
    using pop_wire [of "''HELLO '' @ n" "[]"] h by (simp add: sent_line_def)
  have cs: "cstr (''HELLO '' @ n) = ''HELLO '' @ n" using v by (intro cstr_id) auto
  have "parse_command (''HELLO'' @ replicate (Suc 0) (CHR '' '') @ n) 16 = Some (''HELLO'', Some n)"
    using n(1) v [of "hd n"] by (intro parse_command_args) simp_all
  then have hc: "handle_command i (''HELLO '' @ n) w = handle_hello_command i (Some n) w"
    by (simp add: handle_command_def)
  let ?v = "handle_hello_command i (Some n) w"
  have reg: "(p_registered (players ?v i) \<longleftrightarrow> \<not> name_taken w n) \<and>
      (p_registered (players ?v i) \<longrightarrow> p_name (players ?v i) = n)"
    using hello_effect [of w i "Some n"] assms(1) sc by (auto simp: Let_def shakable_def)
  have "\<forall>t \<in> set (hello_reply i n w). clean_line t \<and> NUL \<notin> set t"
    using hello_reply_plain [OF assms(1)] by (auto simp: plain_line_def)
  from drain_wire [OF this, of clock k "cl_state d"]
  have "drain_server_lines clock (k, p_outbuf (players ?v i), cl_state d) =
      (k + length (hello_reply i n w), [], handle_lines clock k (hello_reply i n w) (cl_state d))"
    by (simp add: hello_replied [OF assms(1) sc])
  moreover have agrees: "registration_agrees (handle_lines clock k (hello_reply i n w) (cl_state d)) (players ?v i)"
    using hello_reply_read [OF pend n(1,2), of clock k i w] reg
    by (auto simp: registration_agrees_def names_of_def split: if_splits)
  moreover have "drop (length (cl_wire c)) (cl_wire d) = wire [''HELLO '' @ n]" unfolding wire by simp
  ultimately have "handshake env clock k i w c = Some (?v, handle_lines clock k (hello_reply i n w) (cl_state d))"
    unfolding handshake_def d_def [symmetric] Let_def by (simp only: pop cs hc option.case prod.case simp_thms if_True)
  then show ?thesis using reg agrees by (auto simp: n_def [symmetric])
qed

theorem registration_handshake_witness:
  "\<exists>v st. handshake demo_env (\<lambda>_. dbl_zero) 0 0 joined (client_begin 5 ''ann'' no_auto_join) = Some (v, st) \<and>
    registration_agrees st (players v 0) \<and> p_registered (players v 0)"
proof -
  let ?c = "client_begin 5 ''ann'' no_auto_join"
  have "shakable 0 joined"
    by (simp add: shakable_def players_joined init_player_slot_def zero_player_def joined_eq seconds_left_def
        time_now_def LONG_MAX_def Let_def init_server_state_def)
  moreover have "blocking demo_env" by (simp add: blocking_def demo_env_def makes_progress_def)
  moreover have "may_hello ?c" "cs_name_input (cl_state ?c) = ''ann''" by code_simp+
  moreover have "\<not> name_taken joined ''ann''"
    by (simp add: name_taken_def players_joined player_is_registered_def zero_player_def init_player_slot_def)
  ultimately show ?thesis
    using registration_handshake [of 0 joined demo_env ?c "\<lambda>_. dbl_zero" 0] by auto
qed

end
