(* ===== verification/Client_Clock.thy ===== *)
theory Client_Clock
  imports Client_Screen Handshake Match_End
begin

text \<open>
  What a snapshot tells the client besides the players: the phase of the match, as the client's
  flags and the ends of its countdowns show it.
\<close>

section \<open>The fields about the phase\<close>

text \<open>The ends of the three countdowns, the flags of the phase, and the result of the match.\<close>

definition match_view :: "ClientState \<Rightarrow> (fp \<times> fp \<times> fp) \<times> (bool \<times> bool \<times> bool) \<times> int" where
  "match_view st = ((cs_lobby_end_time st, cs_setup_end_time st, cs_round_end_time st),
     (cs_can_attempt_join st, cs_repick_phase st, cs_game_over st), cs_match_result st)"

lemma match_view_fields [simp]:
  "match_view (set_status t st) = match_view st" "match_view (upd_entry i f st) = match_view st"
  "match_view (st\<lparr>cs_players := tab\<rparr>) = match_view st" "match_view (st\<lparr>cs_selected_choice := c\<rparr>) = match_view st"
  by (simp_all add: match_view_def set_status_def upd_entry_def)

lemma match_view_entry [simp]: "match_view (player_entry n c x y a b st) = match_view st"
  by (simp add: player_entry_def Let_def split: option.split prod.split)




section \<open>The lines about the phase\<close>









section \<open>The phase after a snapshot\<close>






end
