(* ===== verification/Spec2Isabelle.thy ===== *)
theory Spec2Isabelle
  imports Process_Props Endless Admission Client_Clock
begin

text \<open>
  A verification of the rock-paper-scissors battle royale, the server and the terminal client of
  \<open>src/src/\<close>, in C.

  \<^bold>\<open>The program.\<close> The server (\<open>server.c\<close>) is one thread around \<open>select\<close>. It accepts connections
  into 32 slots, reads bytes into the slots' input buffers, cuts them into lines (\<open>protocol.c\<close>) and
  hands each line to \<open>handle_command\<close> (\<open>server_commands.c\<close>). The handlers change the slots and
  call the state engine (\<open>server_state.c\<close>): broadcasts, snapshots, admission into the lobby, start
  and end of a match, the timers. A broadcast drops the clients whose output buffer is full, a
  drop re-evaluates the match, and the re-evaluation broadcasts: the engine is one mutual
  recursion. During a round the timers run the chase (\<open>chase_simulation.c\<close>), in single precision;
  \<open>game.c\<close> holds the computations on the match. The client (\<open>client_text.c\<close>) reads lines
  (\<open>client_network.c\<close>), updates its view of the match (\<open>client_text_messages.c\<close>), sends commands
  for keys, and draws.

  \<^bold>\<open>The model\<close>, one theory per part:
  \<^item> \<open>Fp\<close>: \<open>float\<close> and \<open>double\<close> as IEEE 754 values, with rounding to nearest, infinities and NaNs;
    \<open>CText\<close>: the \<open>printf\<close> and \<open>scanf\<close> directives the program uses, on strings of bytes.
  \<^item> \<open>Common\<close>: the types, constants and system-call wrappers of \<open>common.h\<close>; \<open>World\<close> is \<open>ServerState\<close>
    with the clock readings and the descriptors closed. \<open>Protocol\<close>: \<open>protocol.c\<close>.
  \<^item> \<open>Game\<close>: \<open>game.c\<close> and \<open>game.h\<close>; \<open>Chase\<close>: \<open>chase_simulation.c\<close>; \<open>ServerState\<close>:
    \<open>server_state.c\<close>; \<open>Commands\<close>: \<open>server_commands.c\<close>; \<open>Server\<close>: \<open>server.c\<close> with its \<open>main\<close>.
  \<^item> \<open>ClientMessages\<close>: \<open>client_text_messages.c\<close> and \<open>client_state.h\<close>; \<open>ClientNetwork\<close>:
    \<open>client_network.c\<close>; \<open>ClientText\<close>: \<open>client_text.c\<close> with its \<open>main\<close>.

  Definitions have the names of the C functions; a loop body or a branch that has a name of its own
  here is named after what it does. Arrays of slots are functions on indices, a buffer with its
  counter is the list of its bytes, a flag is a \<open>bool\<close>, every early return is a branch.

  \<^bold>\<open>The environment\<close> is an argument everywhere: what \<open>recv\<close>, \<open>send\<close>, \<open>accept\<close>, \<open>select\<close>, \<open>fcntl\<close>,
  \<open>socket\<close>, \<open>bind\<close>, \<open>listen\<close>, \<open>connect\<close> and \<open>inet_pton\<close> return, the readings of the clocks, the
  environment variable, the keys and the size of the screen. The theorems hold for all of them,
  except where a hypothesis says otherwise (\<open>blocking\<close>: every \<open>send\<close> of the client takes some bytes).

  \<^bold>\<open>Recursion and fuel.\<close> \<open>reevaluate_state\<close> runs on fuel, one more than the number of connected
  slots: every nested call comes after a drop, so the fuel is enough. \<open>Recursion\<close> and \<open>Engine_Props\<close> show that
  nested calls are well-founded, that the code's body unrolled that often no longer depends on what
  it calls, and that the code's equation holds without fuel. The line loop of a read runs on fuel, the
  number of bytes in the buffer: every round pops at least one (\<open>Server_Props\<close> has the equation
  with \<open>while\<close>). The client's line loop and \<open>send_loop\<close> end by their own measures.

  \<^bold>\<open>The library of proofs.\<close>
  \<^item> \<open>Fp_Value\<close>, \<open>Text_Props\<close>, \<open>Protocol_Props\<close>: the value of a floating-point number and correct
    rounding; what is printed is read back; framing.
  \<^item> \<open>Engine_Inv\<close> and \<open>Server_Contract\<close> hold the contracts of the server: what an assertion on the
    state must be closed under to be kept by the engine, by the commands, by the transport and by
    the timers, as locales that extend each other. \<open>Server_Inv\<close> (the invariant \<open>world_ok\<close>),
    \<open>Server_Props\<close> (phases, descriptors), \<open>Command_Props\<close> and \<open>Match_End\<close> interpret them; \<open>late_phase\<close>
    in \<open>Match_Props\<close> is the contract of the phases a match does not come back from.
  \<^item> \<open>Client_Contract\<close> is the same for the client: one locale for assertions on what a line of the
    server changes, one for assertions on the whole client, interpreted in \<open>Client_Props\<close>
    (bounds) and \<open>Client_Server\<close> (what the client sends).
  \<^item> \<open>Game_Props\<close>, \<open>Pairing\<close>, \<open>Chase_Props\<close>, \<open>Hunting\<close>: the computations on a match and the chase;
    \<open>Chase_End\<close>: bounds of the rounding errors of a tick, by which nobody leaves the board, and the end
    of a chase between two types;
    \<open>Match_End\<close>: with it the end of the match, on the loop of the server and against its clients;
    \<open>Endless\<close>: the round that does not end, because of NaN.
  \<^item> \<open>Engine_Props\<close>, \<open>Match_Props\<close>, \<open>Command_Props\<close>: broadcasts, snapshots, the end and the reset of a
    match, the handlers. \<open>Admission\<close>: who gets into a match, and what goes wrong there. \<open>Restart\<close>: the
    round that is started twice.
  \<^item> \<open>Process_Props\<close>: what the server watches, and how its process ends. \<open>Handshake\<close>, \<open>Projection\<close>,
    \<open>Client_Server\<close>, \<open>Client_Clock\<close>, \<open>Client_Screen\<close>: the two programs together.

  \<^bold>\<open>Assumptions on the platform.\<close> Round-to-nearest without excess precision, a correctly rounded
  square root, 32-bit \<open>int\<close>, 64-bit \<open>long\<close>, and the C locale for character classes.
  Counters (\<open>next_id\<close>, \<open>round_no\<close>, times) are unbounded integers; where their width matters for a
  line that is sent, a hypothesis bounds them.

  Coordinates: the check of a spawn lets NaN pass, so the invariant \<open>world_ok\<close> says of a spawn that each
  coordinate is on the board or NaN; theorems about players on the board assume them there.

  \<^bold>\<open>Not modelled:\<close> the setting-up of the terminal, the pause between frames, \<open>signal\<close>, the \<open>fd_set\<close>
  bit arrays (sets of descriptors here), the texts on the standard streams; the tests, the build
  files and the scripts.
\<close>

end
